(* ===== verification/Prelude.thy ===== *)
theory Prelude
  imports Main "HOL-Library.Word" "HOL-Library.Char_ord" "HOL-Library.List_Lexorder"
begin

unbundle bit_operations_syntax

text \<open>
  What every component of the development shares: the machine integers and strings of the
  Rust code, the standard library's big-endian and UTF-8 conversions, \<open>BTreeMap\<close> as a
  sorted association list behind an ordered-map interface, the error values, and the two
  ways of sequencing fallible, state-changing code (\<open>attempt\<close> is Rust's \<open>?\<close>).
\<close>

section \<open>Types\<close>

type_synonym u8 = "8 word"
type_synonym u32 = "32 word"
type_synonym u64 = "64 word"
type_synonym usize = nat
type_synonym bytes = "u8 list"

text \<open>
  A Rust \<open>String\<close> is its UTF-8 bytes, one \<open>char\<close> of HOL per byte; its order
  (bytewise, a prefix first) is the order of HOL strings.
\<close>

text \<open>
  \<open>transport::TransportError\<close> by the constructor the source calls; \<open>Foreign\<close> is an
  error a library returned, \<open>Panic\<close> is a Rust panic at a slice or an index.
\<close>

datatype transport_error =
    ProtocolError string
  | RetryableError string
  | PermanentError string
  | Foreign string
  | Panic

named_theorems wire_simps \<open>the bytes the writers leave and what the readers read back\<close>
named_theorems bt_simps \<open>lookups in a map after an insertion or a removal\<close>
named_theorems act_simps \<open>sequencing of fallible actions\<close>

section \<open>Machine integers\<close>

definition u32_max :: u32 where
  "u32_max = 0xFFFFFFFF"

definition usize_max :: usize where
  "usize_max = 2 ^ 64 - 1"

definition usize_of_u64 :: "u64 \<Rightarrow> usize" where
  "usize_of_u64 x = (if unat x \<le> usize_max then unat x else usize_max)"

definition usize_saturating_add :: "usize \<Rightarrow> usize \<Rightarrow> usize" where
  "usize_saturating_add a b = (if a + b \<le> usize_max then a + b else usize_max)"

definition u32_saturating_add :: "u32 \<Rightarrow> u32 \<Rightarrow> u32" where
  "u32_saturating_add a b = (if unat a + unat b < 2 ^ 32 then a + b else u32_max)"

text \<open>\<open>u32::try_from(n).unwrap_or(u32::MAX)\<close>\<close>

definition u32_of_usize :: "usize \<Rightarrow> u32" where
  "u32_of_usize n = (if n < 2 ^ 32 then of_nat n else u32_max)"

lemma unat_le_usize [simp]: "unat (x :: u64) \<le> usize_max"
  using unsigned_less [of x, where ?'a = nat] by (simp add: usize_max_def)

lemma usize_of_u64 [simp]: "usize_of_u64 x = unat x"
proof -
  have "unat x < 2 ^ 64" using unsigned_less [of x, where ?'a = nat] by simp
  then show ?thesis by (simp add: usize_of_u64_def usize_max_def)
qed

lemma u32_of_usize_small [simp]: "n < 2 ^ 32 \<Longrightarrow> u32_of_usize n = of_nat n"
  by (simp add: u32_of_usize_def)

lemma unat_of_nat_u32 [simp]: "n < 2 ^ 32 \<Longrightarrow> unat (of_nat n :: u32) = n"
  by (simp add: unat_of_nat take_bit_nat_eq_self)

lemma unat_of_nat_u64 [simp]: "n < 2 ^ 64 \<Longrightarrow> unat (of_nat n :: u64) = n"
  by (simp add: unat_of_nat take_bit_nat_eq_self)

lemma u32_le_max [simp]: "x \<le> u32_max"
  by (simp add: u32_max_def word_le_nat_alt) (use unsigned_less [of x, where ?'a = nat] in simp)

lemma u32_saturating_add_gt:
  assumes "x < u32_max"
  shows "x < u32_saturating_add x 1"
proof -
  have "unat x < 2 ^ 32 - 1"
    using assms by (simp add: u32_max_def word_less_nat_alt)
  then show ?thesis
    by (simp add: u32_saturating_add_def word_less_nat_alt unat_word_ariths)
qed

lemma u32_saturating_add_max [simp]: "u32_saturating_add u32_max 1 = u32_max"
  by (simp add: u32_saturating_add_def u32_max_def)

section \<open>Big-endian bytes\<close>

definition to_be32 :: "u32 \<Rightarrow> bytes" where
  "to_be32 x = [ucast (drop_bit 24 x), ucast (drop_bit 16 x), ucast (drop_bit 8 x), ucast x]"

definition to_be64 :: "u64 \<Rightarrow> bytes" where
  "to_be64 x = to_be32 (ucast (drop_bit 32 x)) @ to_be32 (ucast x)"

text \<open>\<open>u32::from_be_bytes\<close>\<close>

definition from_be32 :: "u8 \<Rightarrow> u8 \<Rightarrow> u8 \<Rightarrow> u8 \<Rightarrow> u32" where
  "from_be32 a b c d =
     push_bit 24 (ucast a) OR push_bit 16 (ucast b) OR push_bit 8 (ucast c) OR ucast d"

lemma length_to_be32 [simp]: "length (to_be32 x) = 4"
  by (simp add: to_be32_def)

lemma length_to_be64 [simp]: "length (to_be64 x) = 8"
  by (simp add: to_be64_def)

lemma from_be32_to_be32 [simp]:
  "from_be32 (ucast (drop_bit 24 x)) (ucast (drop_bit 16 x)) (ucast (drop_bit 8 x)) (ucast x) = x"
proof (rule bit_eqI)
  fix n
  assume "possible_bit TYPE(u32) n"
  then have "n < 8 \<or> 8 \<le> n \<and> n < 16 \<or> 16 \<le> n \<and> n < 24 \<or> 24 \<le> n \<and> n < 32"
    by (auto simp: possible_bit_def)
  then show "bit (from_be32 (ucast (drop_bit 24 x)) (ucast (drop_bit 16 x))
      (ucast (drop_bit 8 x)) (ucast x)) n = bit x n"
    by (elim disjE) (auto simp: from_be32_def bit_simps)
qed

lemma to_be32_from_be32 [simp]: "to_be32 (from_be32 a b c d) = [a, b, c, d]"
proof -
  have "ucast (drop_bit 24 (from_be32 a b c d)) = a"
    by (rule bit_eqI) (auto simp: from_be32_def bit_simps possible_bit_def dest: bit_imp_le_length)
  moreover have "ucast (drop_bit 16 (from_be32 a b c d)) = b"
    by (rule bit_eqI) (auto simp: from_be32_def bit_simps possible_bit_def dest: bit_imp_le_length)
  moreover have "ucast (drop_bit 8 (from_be32 a b c d)) = c"
    by (rule bit_eqI) (auto simp: from_be32_def bit_simps possible_bit_def dest: bit_imp_le_length)
  moreover have "ucast (from_be32 a b c d) = d"
    by (rule bit_eqI) (auto simp: from_be32_def bit_simps possible_bit_def dest: bit_imp_le_length)
  ultimately show ?thesis by (simp add: to_be32_def)
qed

lemma to_be32_inject [simp]: "to_be32 x = to_be32 y \<longleftrightarrow> x = y"
proof
  assume eq: "to_be32 x = to_be32 y"
  have "x = from_be32 (ucast (drop_bit 24 x)) (ucast (drop_bit 16 x)) (ucast (drop_bit 8 x)) (ucast x)"
    by (rule from_be32_to_be32 [symmetric])
  also have "\<dots> = from_be32 (ucast (drop_bit 24 y)) (ucast (drop_bit 16 y)) (ucast (drop_bit 8 y)) (ucast y)"
    using eq by (simp add: to_be32_def del: from_be32_to_be32)
  finally show "x = y" by simp
qed simp

definition from_be64 :: "u32 \<Rightarrow> u32 \<Rightarrow> u64" where
  "from_be64 hi lo = push_bit 32 (ucast hi) OR ucast lo"

lemma from_be64_halves [simp]: "from_be64 (ucast (drop_bit 32 x)) (ucast x) = x"
proof (rule bit_eqI)
  fix n
  assume "possible_bit TYPE(u64) n"
  then have "n < 32 \<or> 32 \<le> n \<and> n < 64"
    by (auto simp: possible_bit_def)
  then show "bit (from_be64 (ucast (drop_bit 32 x)) (ucast x)) n = bit x n"
    by (elim disjE) (auto simp: from_be64_def bit_simps)
qed

lemma to_be64_from_be64 [simp]: "to_be64 (from_be64 hi lo) = to_be32 hi @ to_be32 lo"
proof -
  have "ucast (drop_bit 32 (from_be64 hi lo)) = hi"
    by (rule bit_eqI) (auto simp: from_be64_def bit_simps possible_bit_def dest: bit_imp_le_length)
  moreover have "ucast (from_be64 hi lo) = lo"
    by (rule bit_eqI) (auto simp: from_be64_def bit_simps possible_bit_def dest: bit_imp_le_length)
  ultimately show ?thesis by (simp add: to_be64_def)
qed

section \<open>Strings and UTF-8\<close>

definition as_bytes :: "string \<Rightarrow> bytes" where
  "as_bytes s = map (\<lambda>c. of_nat (of_char c)) s"

definition chars_of :: "bytes \<Rightarrow> string" where
  "chars_of b = map (\<lambda>x. char_of (unat x)) b"

definition utf8_cont :: "u8 \<Rightarrow> bool" where
  "utf8_cont b = (0x80 \<le> b \<and> b \<le> 0xBF)"

text \<open>
  Well-formed UTF-8, as \<open>core::str::from_utf8\<close> checks it (Unicode, table 3-7): the bytes
  after the first encoded character, then the whole.
\<close>

definition utf8_tail2 :: "bytes \<Rightarrow> bool" where
  "utf8_tail2 r = (1 \<le> length r \<and> utf8_cont (r ! 0))"

definition utf8_tail3 :: "u8 \<Rightarrow> bytes \<Rightarrow> bool" where
  "utf8_tail3 b r = (2 \<le> length r \<and> utf8_cont (r ! 0) \<and> utf8_cont (r ! 1)
     \<and> (b = 0xE0 \<longrightarrow> 0xA0 \<le> r ! 0) \<and> (b = 0xED \<longrightarrow> r ! 0 \<le> 0x9F))"

definition utf8_tail4 :: "u8 \<Rightarrow> bytes \<Rightarrow> bool" where
  "utf8_tail4 b r = (3 \<le> length r \<and> utf8_cont (r ! 0) \<and> utf8_cont (r ! 1) \<and> utf8_cont (r ! 2)
     \<and> (b = 0xF0 \<longrightarrow> 0x90 \<le> r ! 0) \<and> (b = 0xF4 \<longrightarrow> r ! 0 \<le> 0x8F))"

definition utf8_char :: "bytes \<Rightarrow> bytes option" where
  "utf8_char bs = (case bs of
     [] \<Rightarrow> None
   | b # r \<Rightarrow>
       if b < 0x80 then Some r
       else if b < 0xC2 then None
       else if b < 0xE0 then (if utf8_tail2 r then Some (drop 1 r) else None)
       else if b < 0xF0 then (if utf8_tail3 b r then Some (drop 2 r) else None)
       else if b < 0xF5 then (if utf8_tail4 b r then Some (drop 3 r) else None)
       else None)"

lemma utf8_char_shorter: "utf8_char bs = Some r \<Longrightarrow> length r < length bs"
  by (auto simp: utf8_char_def split: list.splits if_splits)

function utf8_valid :: "bytes \<Rightarrow> bool" where
  "utf8_valid bs =
     (if bs = [] then True
      else case utf8_char bs of Some r \<Rightarrow> utf8_valid r | None \<Rightarrow> False)"
  by pat_completeness auto
termination
  by (relation "measure length") (auto dest: utf8_char_shorter)

declare utf8_valid.simps [simp del]

lemma utf8_valid_Nil [simp]: "utf8_valid []"
  by (simp add: utf8_valid.simps)

text \<open>\<open>String::from_utf8\<close>\<close>

definition from_utf8 :: "bytes \<Rightarrow> string option" where
  "from_utf8 b = (if utf8_valid b then Some (chars_of b) else None)"

text \<open>What every Rust \<open>String\<close> and \<open>&str\<close> satisfies.\<close>

definition rust_str :: "string \<Rightarrow> bool" where
  "rust_str s = utf8_valid (as_bytes s)"

lemma length_as_bytes [simp]: "length (as_bytes s) = length s"
  by (simp add: as_bytes_def)

lemma as_bytes_Nil [simp]: "as_bytes [] = []"
  by (simp add: as_bytes_def)

lemma char_of_byte [simp]: "char_of (unat (of_nat (of_char c) :: u8)) = c"
proof -
  have "of_char c < (256 :: nat)" by (rule nat_of_char_less_256)
  then show ?thesis by (simp add: unat_of_nat take_bit_nat_eq_self)
qed

lemma chars_of_as_bytes [simp]: "chars_of (as_bytes s) = s"
  by (simp add: chars_of_def as_bytes_def comp_def)

lemma as_bytes_chars_of [simp]: "as_bytes (chars_of b) = b"
proof -
  have "(of_nat (of_char (char_of (unat x))) :: u8) = x" for x :: u8
  proof -
    have "unat x < 256" using unsigned_less [of x, where ?'a = nat] by simp
    then show ?thesis by (simp add: of_char_of)
  qed
  then show ?thesis by (simp add: chars_of_def as_bytes_def comp_def)
qed

lemma as_bytes_inject [simp]: "as_bytes s = as_bytes t \<longleftrightarrow> s = t"
  by (metis chars_of_as_bytes)

lemma from_utf8_as_bytes [simp]: "rust_str s \<Longrightarrow> from_utf8 (as_bytes s) = Some s"
  by (simp add: from_utf8_def rust_str_def)

lemma from_utf8_Some: "from_utf8 b = Some s \<longleftrightarrow> b = as_bytes s \<and> rust_str s"
  by (auto simp: from_utf8_def rust_str_def split: if_splits)

lemma utf8_tail2_append:
  "utf8_tail2 r \<Longrightarrow> utf8_tail2 (r @ s) \<and> drop 1 (r @ s) = drop 1 r @ s"
  by (cases r) (simp_all add: utf8_tail2_def nth_append)

lemma utf8_tail3_append:
  "utf8_tail3 b r \<Longrightarrow> utf8_tail3 b (r @ s) \<and> drop 2 (r @ s) = drop 2 r @ s"
  by (cases r; cases "tl r") (auto simp: utf8_tail3_def nth_append)

lemma utf8_tail4_append:
  "utf8_tail4 b r \<Longrightarrow> utf8_tail4 b (r @ s) \<and> drop 3 (r @ s) = drop 3 r @ s"
  by (cases r; cases "tl r") (auto simp: utf8_tail4_def nth_append)

lemma utf8_char_append: "utf8_char a = Some r \<Longrightarrow> utf8_char (a @ b) = Some (r @ b)"
  unfolding utf8_char_def
  by (cases a)
    (auto simp del: drop_append split: if_splits
      dest: utf8_tail2_append utf8_tail3_append utf8_tail4_append)

lemma utf8_valid_append:
  "utf8_valid a \<Longrightarrow> utf8_valid (a @ b) = utf8_valid b"
proof (induction a rule: utf8_valid.induct)
  case (1 a)
  show ?case
  proof (cases "a = []")
    case False
    with "1.prems" obtain r where r: "utf8_char a = Some r" "utf8_valid r"
      by (subst (asm) utf8_valid.simps) (auto split: option.splits)
    with "1.IH" False have "utf8_valid (r @ b) = utf8_valid b" by simp
    with r False show ?thesis
      by (simp add: utf8_valid.simps [of "a @ b"] utf8_char_append)
  qed simp
qed

lemma utf8_valid_ascii: "\<forall>x \<in> set b. x < 0x80 \<Longrightarrow> utf8_valid b"
proof (induction b)
  case (Cons x b)
  then have "utf8_char (x # b) = Some b" by (simp add: utf8_char_def)
  with Cons show ?case by (simp add: utf8_valid.simps [of "x # b"])
qed simp

lemma as_bytes_append [simp]: "as_bytes (s @ t) = as_bytes s @ as_bytes t"
  by (simp add: as_bytes_def)

lemma rust_str_append: "rust_str s \<Longrightarrow> rust_str t \<Longrightarrow> rust_str (s @ t)"
  by (simp add: rust_str_def utf8_valid_append)

section \<open>Decimal formatting\<close>

text \<open>\<open>format!("{n}")\<close> of an unsigned integer.\<close>

fun decimal :: "nat \<Rightarrow> string" where
  "decimal n = (if n < 10 then [char_of (48 + n)] else decimal (n div 10) @ [char_of (48 + n mod 10)])"

declare decimal.simps [simp del]

lemma decimal_zero [simp]: "decimal 0 = ''0''"
  by (simp add: decimal.simps char_of_def bit_0)

definition undecimal :: "string \<Rightarrow> nat" where
  "undecimal s = fold (\<lambda>c n. 10 * n + (of_char c - 48)) s 0"

lemma undecimal_decimal: "undecimal (decimal n) = n"
proof (induction n rule: decimal.induct)
  case (1 n)
  have digit: "of_char (char_of (48 + d)) - 48 = d" if "d < 10" for d :: nat
    using that by (simp add: of_char_of)
  show ?case
  proof (cases "n < 10")
    case True
    then show ?thesis by (simp add: decimal.simps [of n] undecimal_def digit)
  next
    case False
    with "1.IH" show ?thesis
      by (simp add: decimal.simps [of n] undecimal_def digit)
  qed
qed

lemma decimal_inject [simp]: "decimal m = decimal n \<longleftrightarrow> m = n"
  by (metis undecimal_decimal)

lemma decimal_ascii: "\<forall>c \<in> set (decimal n). (of_nat (of_char c) :: u8) < 0x80"
proof (induction n rule: decimal.induct)
  case (1 n)
  have digit: "(of_nat (of_char (char_of (48 + d))) :: u8) < 0x80" if "d < 10" for d :: nat
  proof -
    have eq: "of_char (char_of (48 + d)) = 48 + d" using that by (simp add: of_char_of)
    have "unat (of_nat (48 + d) :: u8) = 48 + d"
      using that by (subst unat_of_nat) (simp add: take_bit_nat_eq_self)
    then show ?thesis using that unfolding eq by (simp add: word_less_nat_alt)
  qed
  show ?case
    using "1.IH" digit [of n] digit [of "n mod 10"] by (subst decimal.simps) auto
qed

lemma rust_str_ascii: "\<forall>c \<in> set s. (of_nat (of_char c) :: u8) < 0x80 \<Longrightarrow> rust_str s"
  by (simp add: rust_str_def as_bytes_def utf8_valid_ascii)

lemma rust_str_decimal [simp]: "rust_str (decimal n)"
  by (rule rust_str_ascii) (rule decimal_ascii)

lemma length_decimal: "n < 10 ^ k \<Longrightarrow> 0 < k \<Longrightarrow> length (decimal n) \<le> k"
proof (induction k arbitrary: n)
  case 0
  then show ?case by simp
next
  case (Suc k)
  show ?case
  proof (cases "n < 10")
    case True
    then show ?thesis by (subst decimal.simps) simp
  next
    case False
    then have "0 < k" using Suc.prems by (cases k) auto
    moreover have "n div 10 < 10 ^ k" using Suc.prems by (simp add: less_mult_imp_div_less mult.commute)
    ultimately have "length (decimal (n div 10)) \<le> k" by (rule Suc.IH [rotated])
    with False show ?thesis by (subst decimal.simps) simp
  qed
qed

section \<open>Ordered maps\<close>

text \<open>
  \<open>BTreeMap\<close>: its operations and its entries in key order. The clients below rely on the
  laws of \<open>ordered_map\<close> alone.
\<close>

locale ordered_map =
  fixes empty :: 'm
    and get :: "'m \<Rightarrow> 'k::linorder \<Rightarrow> 'v option"
    and ins :: "'k \<Rightarrow> 'v \<Rightarrow> 'm \<Rightarrow> 'm"
    and del :: "'k \<Rightarrow> 'm \<Rightarrow> 'm"
    and entries :: "'m \<Rightarrow> ('k \<times> 'v) list"
    and invar :: "'m \<Rightarrow> bool"
  assumes get_empty: "get empty = Map.empty"
    and get_ins: "get (ins k v m) = (get m)(k \<mapsto> v)"
    and get_del: "get (del k m) = (get m)(k := None)"
    and get_entries: "get m = map_of (entries m)"
    and entries_sorted: "invar m \<Longrightarrow> sorted_wrt (<) (map fst (entries m))"
    and invar_empty: "invar empty"
    and invar_ins: "invar m \<Longrightarrow> invar (ins k v m)"
    and invar_del: "invar m \<Longrightarrow> invar (del k m)"
begin

lemma entries_distinct: "invar m \<Longrightarrow> distinct (map fst (entries m))"
  using entries_sorted strict_sorted_imp_sorted strict_sorted_iff by blast

lemma dom_get: "dom (get m) = fst ` set (entries m)"
  by (simp add: get_entries dom_map_of_conv_image_fst)

lemma finite_dom_get: "finite (dom (get m))"
  by (simp add: dom_get)

text \<open>The keys in order are the sorted domain, whatever the insertion order was.\<close>

lemma keys_sorted_dom: "invar m \<Longrightarrow> map fst (entries m) = sorted_list_of_set (dom (get m))"
  using entries_sorted [of m] entries_distinct [of m]
  by (intro sorted_distinct_set_unique)
    (auto simp: dom_get strict_sorted_imp_sorted)

lemma entries_by_key:
  assumes "invar m"
  shows "entries m = map (\<lambda>k. (k, the (get m k))) (sorted_list_of_set (dom (get m)))"
proof -
  have "entries m = map (\<lambda>k. (k, the (get m k))) (map fst (entries m))"
  proof (rule nth_equalityI)
    fix i
    assume i: "i < length (entries m)"
    then have "map_of (entries m) (fst (entries m ! i)) = Some (snd (entries m ! i))"
      using entries_distinct [OF assms] by (simp add: map_of_is_SomeI)
    with i show "entries m ! i = map (\<lambda>k. (k, the (get m k))) (map fst (entries m)) ! i"
      by (simp add: get_entries)
  qed simp
  then show ?thesis using keys_sorted_dom [OF assms] by simp
qed

lemma get_ins_same: "get (ins k v m) k = Some v"
  by (simp add: get_ins)

lemma get_ins_other: "k' \<noteq> k \<Longrightarrow> get (ins k v m) k' = get m k'"
  by (simp add: get_ins)

end

type_synonym ('k, 'v) btree = "('k \<times> 'v) list"

abbreviation bt_get :: "('k, 'v) btree \<Rightarrow> 'k \<Rightarrow> 'v option" where
  "bt_get \<equiv> map_of"

fun bt_insert :: "'k::linorder \<Rightarrow> 'v \<Rightarrow> ('k, 'v) btree \<Rightarrow> ('k, 'v) btree" where
  "bt_insert k v [] = [(k, v)]"
| "bt_insert k v ((k', v') # m) =
     (if k < k' then (k, v) # (k', v') # m
      else if k = k' then (k, v) # m
      else (k', v') # bt_insert k v m)"

definition bt_remove :: "'k \<Rightarrow> ('k, 'v) btree \<Rightarrow> ('k, 'v) btree" where
  "bt_remove k m = filter (\<lambda>(k', _). k' \<noteq> k) m"

definition bt_contains :: "('k, 'v) btree \<Rightarrow> 'k \<Rightarrow> bool" where
  "bt_contains m k = (bt_get m k \<noteq> None)"

definition bt_wf :: "('k::linorder, 'v) btree \<Rightarrow> bool" where
  "bt_wf m = sorted_wrt (<) (map fst m)"

lemma bt_get_insert [simp, bt_simps]: "bt_get (bt_insert k v m) = (bt_get m)(k \<mapsto> v)"
  by (induction k v m rule: bt_insert.induct) auto

lemma bt_get_remove [simp, bt_simps]: "bt_get (bt_remove k m) = (bt_get m)(k := None)"
  by (induction m) (auto simp: bt_remove_def)

lemma bt_keys_insert: "fst ` set (bt_insert k v m) = insert k (fst ` set m)"
  by (induction k v m rule: bt_insert.induct) auto

lemma bt_wf_insert: "bt_wf m \<Longrightarrow> bt_wf (bt_insert k v m)"
proof (induction k v m rule: bt_insert.induct)
  case (2 k v k' v' m)
  then show ?case
    using bt_keys_insert [of k v m] by (force simp: bt_wf_def)
qed (simp add: bt_wf_def)

lemma bt_wf_remove: "bt_wf m \<Longrightarrow> bt_wf (bt_remove k m)"
proof -
  have "map fst (bt_remove k m) = filter (\<lambda>x. x \<noteq> k) (map fst m)"
    by (simp add: bt_remove_def filter_map comp_def case_prod_unfold)
  moreover assume "bt_wf m"
  ultimately show ?thesis by (simp add: bt_wf_def sorted_wrt_filter)
qed

interpretation bt: ordered_map "[]" bt_get bt_insert bt_remove "\<lambda>m. m" bt_wf
  by unfold_locales (auto simp: bt_wf_insert bt_wf_remove, simp_all add: bt_wf_def)

section \<open>Sequencing\<close>

text \<open>
  A server handler returns its result and the state as it left it. \<open>attempt\<close> is Rust's
  \<open>?\<close> on a value already computed: an error returns at once, the state as it is.
\<close>

type_synonym ('s, 'a) handler = "'s \<Rightarrow> (transport_error + 'a) \<times> 's"

definition attempt :: "'e + 'a \<Rightarrow> ('a \<Rightarrow> 's \<Rightarrow> ('e + 'b) \<times> 's) \<Rightarrow> 's \<Rightarrow> ('e + 'b) \<times> 's" where
  "attempt r k s = (case r of Inl e \<Rightarrow> (Inl e, s) | Inr x \<Rightarrow> k x s)"

lemma attempt_simps [simp, act_simps]:
  "attempt (Inl e) k s = (Inl e, s)"
  "attempt (Inr x) k s = k x s"
  by (simp_all add: attempt_def)

text \<open>The same for code that changes no state.\<close>

definition rbind :: "'e + 'a \<Rightarrow> ('a \<Rightarrow> 'e + 'b) \<Rightarrow> 'e + 'b" where
  "rbind r k = (case r of Inl e \<Rightarrow> Inl e | Inr x \<Rightarrow> k x)"

lemma rbind_simps [simp, act_simps]:
  "rbind (Inl e) k = Inl e"
  "rbind (Inr x) k = k x"
  by (simp_all add: rbind_def)

lemma rbind_Inr_conv: "rbind r k = Inr y \<longleftrightarrow> (\<exists>x. r = Inr x \<and> k x = Inr y)"
  by (cases r) auto

lemma attempt_Inr_conv:
  "attempt r k s = (Inr y, s') \<longleftrightarrow> (\<exists>x. r = Inr x \<and> k x s = (Inr y, s'))"
  by (cases r) auto

lemma attempt_cases:
  assumes "attempt r k s = (v, s')"
  obtains (error) e where "r = Inl e" "v = Inl e" "s' = s"
    | (returned) x where "r = Inr x" "k x s = (v, s')"
  using assms by (cases r) auto

text \<open>
  A client action runs against a peer that may keep it waiting in a loop for ever: it
  returns \<open>None\<close> where it never does, its result and the state otherwise.
\<close>

type_synonym ('s, 'a) act = "'s \<Rightarrow> ((transport_error + 'a) \<times> 's) option"

definition return_act :: "'a \<Rightarrow> ('s, 'a) act" where
  "return_act x s = Some (Inr x, s)"

definition fail_act :: "transport_error \<Rightarrow> ('s, 'a) act" where
  "fail_act e s = Some (Inl e, s)"

definition bind_act :: "('s, 'a) act \<Rightarrow> ('a \<Rightarrow> ('s, 'b) act) \<Rightarrow> ('s, 'b) act" where
  "bind_act m k s = (case m s of
     None \<Rightarrow> None
   | Some (Inl e, s') \<Rightarrow> Some (Inl e, s')
   | Some (Inr x, s') \<Rightarrow> k x s')"

text \<open>A value already computed, \<open>?\<close> applied to it.\<close>

definition lift_act :: "transport_error + 'a \<Rightarrow> ('s, 'a) act" where
  "lift_act r s = Some (r, s)"

text \<open>The result inspected instead of returned early.\<close>

definition catch_act :: "('s, 'a) act \<Rightarrow> (transport_error + 'a \<Rightarrow> ('s, 'b) act) \<Rightarrow> ('s, 'b) act" where
  "catch_act m k s = (case m s of None \<Rightarrow> None | Some (r, s') \<Rightarrow> k r s')"

text \<open>An action beside state it does not touch: what a closure it runs has captured.\<close>

definition beside :: "('s, 'a) act \<Rightarrow> ('s \<times> 'o, 'a) act" where
  "beside m = (\<lambda>(s, o'). map_option (\<lambda>(r, s). (r, (s, o'))) (m s))"

lemma beside_run [simp, act_simps]: "m s = Some (r, s') \<Longrightarrow> beside m (s, o') = Some (r, (s', o'))"
  by (simp add: beside_def)

definition alongside :: "('o, 'a) act \<Rightarrow> ('s \<times> 'o, 'a) act" where
  "alongside m = (\<lambda>(s, o'). map_option (\<lambda>(r, o'). (r, (s, o'))) (m o'))"

lemma alongside_run [simp, act_simps]: "m o' = Some (r, o'') \<Longrightarrow> alongside m (s, o') = Some (r, (s, o''))"
  by (simp add: alongside_def)

lemma act_run [simp, act_simps]:
  "return_act x s = Some (Inr x, s)"
  "fail_act e s = Some (Inl e, s)"
  "lift_act r s = Some (r, s)"
  by (simp_all add: return_act_def fail_act_def lift_act_def)

lemma bind_act_Some [simp, act_simps]:
  "m s = Some (Inr x, s') \<Longrightarrow> bind_act m k s = k x s'"
  "m s = Some (Inl e, s') \<Longrightarrow> bind_act m k s = Some (Inl e, s')"
  by (simp_all add: bind_act_def)

lemma catch_act_Some [simp, act_simps]: "m s = Some (r, s') \<Longrightarrow> catch_act m k s = k r s'"
  by (simp add: catch_act_def)

lemma bind_return_act [simp, act_simps]: "bind_act (return_act x) k = k x"
  by (rule ext) (simp add: bind_act_def return_act_def)

lemma bind_act_assoc: "bind_act (bind_act m f) g = bind_act m (\<lambda>x. bind_act (f x) g)"
  by (rule ext) (simp add: bind_act_def split: option.splits prod.splits sum.splits)

section \<open>What every step of an action keeps\<close>

text \<open>
  \<open>steps R m\<close>: wherever \<open>m\<close> returns, with a value or an error, it moved the state along
  \<open>R\<close>. For a relation that composes, sequencing keeps it.
\<close>

definition steps :: "('s \<Rightarrow> 's \<Rightarrow> bool) \<Rightarrow> ('s, 'a) act \<Rightarrow> bool" where
  "steps R m \<longleftrightarrow> (\<forall>s r s'. m s = Some (r, s') \<longrightarrow> R s s')"

lemma stepsI: "(\<And>s r s'. m s = Some (r, s') \<Longrightarrow> R s s') \<Longrightarrow> steps R m"
  by (simp add: steps_def)

lemma stepsD: "steps R m \<Longrightarrow> m s = Some (r, s') \<Longrightarrow> R s s'"
  by (simp add: steps_def)

locale step_relation =
  fixes R :: "'s \<Rightarrow> 's \<Rightarrow> bool"
  assumes stay: "R s s"
    and join: "R s t \<Longrightarrow> R t u \<Longrightarrow> R s u"
begin

lemma steps_return: "steps R (return_act x)"
  by (simp add: steps_def stay)

lemma steps_bind:
  assumes "steps R m" "\<And>x. steps R (k x)"
  shows "steps R (bind_act m k)"
proof (rule stepsI)
  fix s r s'
  assume run: "bind_act m k s = Some (r, s')"
  then obtain v s1 where v: "m s = Some (v, s1)" by (cases "m s") (auto simp: bind_act_def)
  have "R s s1" using assms(1) v by (rule stepsD)
  moreover have "R s1 s'" using run v assms(2) by (cases v) (auto simp: stay dest: stepsD)
  ultimately show "R s s'" by (rule join)
qed

lemma steps_catch:
  assumes "steps R m" "\<And>r. steps R (k r)"
  shows "steps R (catch_act m k)"
proof (rule stepsI)
  fix s r s'
  assume run: "catch_act m k s = Some (r, s')"
  then obtain v s1 where v: "m s = Some (v, s1)" by (cases "m s") (auto simp: catch_act_def)
  have "R s s1" using assms(1) v by (rule stepsD)
  moreover have "R s1 s'" using run v assms(2) by (auto dest: stepsD)
  ultimately show "R s s'" by (rule join)
qed

end

end
