(* ===== verification/Wire.thy ===== *)
theory Wire
  imports Prelude
begin

unbundle bit_operations_syntax

text \<open>
  The wire vocabulary of \<open>subsystem.rs\<close>: packet types, flags and status codes, framing, and
  the reading of status, name and attribute bodies. The byte cursor and writer
  (\<open>codec::cursor\<close>, \<open>codec::writer\<close>, \<open>ssh::SshRead\<close>, \<open>ssh::SshWrite\<close>) and the size
  ceiling (\<open>net::ceiling\<close>, \<open>net::MAX_BODY\<close>) are other crates': they are the record
  \<open>ext\<close>, an argument of every definition that calls them. A cursor is its unread bytes.
  What the code relies on of them are the laws of the locale \<open>wire\<close>, which hold for the
  encodings of RFC 4251 section 5 (\<open>rfc4251\<close>).
\<close>

section \<open>The libraries the code calls\<close>

record ext =
  w_u32_be :: "bytes \<Rightarrow> u32 \<Rightarrow> bytes"
  w_u64_be :: "bytes \<Rightarrow> u64 \<Rightarrow> bytes"
  w_byte :: "bytes \<Rightarrow> u8 \<Rightarrow> bytes"
  w_bytes :: "bytes \<Rightarrow> bytes \<Rightarrow> bytes"
  w_string :: "bytes \<Rightarrow> bytes \<Rightarrow> bytes"
  r_u32_be :: "bytes \<Rightarrow> transport_error + u32 \<times> bytes"
  r_u64_be :: "bytes \<Rightarrow> transport_error + u64 \<times> bytes"
  r_string :: "bytes \<Rightarrow> transport_error + bytes \<times> bytes"
  ceiling_within :: "usize \<Rightarrow> usize \<Rightarrow> string \<Rightarrow> string + unit"
  MAX_BODY :: usize

section \<open>Constants\<close>

definition INIT :: u8 where "INIT = 1"
definition VERSION :: u8 where "VERSION = 2"
definition OPEN :: u8 where "OPEN = 3"
definition CLOSE :: u8 where "CLOSE = 4"
definition READ :: u8 where "READ = 5"
definition WRITE :: u8 where "WRITE = 6"
definition OPENDIR :: u8 where "OPENDIR = 11"
definition READDIR :: u8 where "READDIR = 12"
definition REMOVE :: u8 where "REMOVE = 13"
definition STAT :: u8 where "STAT = 17"
definition RENAME :: u8 where "RENAME = 18"
definition STATUS :: u8 where "STATUS = 101"
definition HANDLE :: u8 where "HANDLE = 102"
definition DATA :: u8 where "DATA = 103"
definition NAME :: u8 where "NAME = 104"
definition ATTRS :: u8 where "ATTRS = 105"

definition F_READ :: u32 where "F_READ = 0x00000001"
definition F_WRITE :: u32 where "F_WRITE = 0x00000002"
definition F_CREAT :: u32 where "F_CREAT = 0x00000008"
definition F_TRUNC :: u32 where "F_TRUNC = 0x00000010"
definition F_EXCL :: u32 where "F_EXCL = 0x00000020"

definition OK :: u32 where "OK = 0"
definition EOF :: u32 where "EOF = 1"
definition NO_SUCH_FILE :: u32 where "NO_SUCH_FILE = 2"
definition FAILURE :: u32 where "FAILURE = 4"

definition SUBSYSTEM :: string where "SUBSYSTEM = ''sftp''"
definition PROTOCOL :: u32 where "PROTOCOL = 3"
definition CHUNK :: usize where "CHUNK = 32768"

definition ATTR_SIZE :: u32 where "ATTR_SIZE = 0x00000001"
definition ATTR_UIDGID :: u32 where "ATTR_UIDGID = 0x00000002"
definition ATTR_PERMISSIONS :: u32 where "ATTR_PERMISSIONS = 0x00000004"
definition ATTR_ACMODTIME :: u32 where "ATTR_ACMODTIME = 0x00000008"
definition ATTR_EXTENDED :: u32 where "ATTR_EXTENDED = 0x80000000"

lemmas packet_types =
  INIT_def VERSION_def OPEN_def CLOSE_def READ_def WRITE_def OPENDIR_def READDIR_def
  REMOVE_def STAT_def RENAME_def STATUS_def HANDLE_def DATA_def NAME_def ATTRS_def

lemmas open_flags = F_READ_def F_WRITE_def F_CREAT_def F_TRUNC_def F_EXCL_def

lemmas status_codes = OK_def EOF_def NO_SUCH_FILE_def FAILURE_def

lemmas attr_flags =
  ATTR_SIZE_def ATTR_UIDGID_def ATTR_PERMISSIONS_def ATTR_ACMODTIME_def ATTR_EXTENDED_def

section \<open>Stamps and listed files\<close>

record Stamp =
  stamp_length :: u64
  stamp_modified :: u32

type_synonym Listed = "string \<times> Stamp option"

type_synonym Files = "(string, bytes) btree"

section \<open>Packets\<close>

text \<open>A framed packet: the length, the type, the body.\<close>

definition frame :: "ext \<Rightarrow> u8 \<Rightarrow> bytes \<Rightarrow> bytes" where
  "frame X kind body =
     w_bytes X (w_byte X (w_u32_be X [] (u32_of_usize (length body + 1))) kind) body"

text \<open>The status code a STATUS body carries.\<close>

definition code :: "ext \<Rightarrow> bytes \<Rightarrow> transport_error + u32" where
  "code X body =
     rbind (r_u32_be X body) (\<lambda>(_, reader).
     rbind (r_u32_be X reader) (\<lambda>(c, _). Inr c))"

definition utf8 :: "bytes \<Rightarrow> transport_error + string" where
  "utf8 b = (case from_utf8 b of
     Some s \<Rightarrow> Inr s
   | None \<Rightarrow> Inl (ProtocolError ''an SFTP name or handle that is not UTF-8''))"

definition status_error :: "ext \<Rightarrow> bytes \<Rightarrow> string \<Rightarrow> transport_error" where
  "status_error X body what =
     (let c = (case rbind (r_u32_be X body) (\<lambda>(_, reader). r_u32_be X reader) of
                 Inl _ \<Rightarrow> FAILURE
               | Inr (c, _) \<Rightarrow> c)
      in ProtocolError (''the server refused '' @ what @ '' with SFTP status '' @ decimal (unat c)))"

text \<open>The pairs of an EXTENDED attribute, read past.\<close>

primrec skip_pairs :: "ext \<Rightarrow> nat \<Rightarrow> bytes \<Rightarrow> transport_error + bytes" where
  "skip_pairs X 0 reader = Inr reader"
| "skip_pairs X (Suc n) reader =
     rbind (r_string X reader) (\<lambda>(_, reader).
     rbind (r_string X reader) (\<lambda>(_, reader). skip_pairs X n reader))"

text \<open>
  The stamp an entry's attributes give, and the cursor after them.
\<close>

definition stamp :: "ext \<Rightarrow> bytes \<Rightarrow> transport_error + Stamp option \<times> bytes" where
  "stamp X reader =
     rbind (r_u32_be X reader) (\<lambda>(flags, reader).
     rbind (if flags AND ATTR_SIZE = 0 then Inr (None, reader)
            else rbind (r_u64_be X reader) (\<lambda>(n, reader). Inr (Some n, reader))) (\<lambda>(len, reader).
     rbind (if flags AND ATTR_UIDGID \<noteq> 0
            then rbind (r_u32_be X reader) (\<lambda>(_, reader).
                 rbind (r_u32_be X reader) (\<lambda>(_, reader). Inr reader))
            else Inr reader) (\<lambda>reader.
     rbind (if flags AND ATTR_PERMISSIONS \<noteq> 0
            then rbind (r_u32_be X reader) (\<lambda>(_, reader). Inr reader)
            else Inr reader) (\<lambda>reader.
     rbind (if flags AND ATTR_ACMODTIME = 0 then Inr (None, reader)
            else rbind (r_u32_be X reader) (\<lambda>(_, reader).
                 rbind (r_u32_be X reader) (\<lambda>(m, reader). Inr (Some m, reader)))) (\<lambda>(modified, reader).
     rbind (if flags AND ATTR_EXTENDED \<noteq> 0
            then rbind (r_u32_be X reader) (\<lambda>(n, reader). skip_pairs X (unat n) reader)
            else Inr reader) (\<lambda>reader.
     Inr (case (len, modified) of
            (Some n, Some m) \<Rightarrow> Some \<lparr>stamp_length = n, stamp_modified = m\<rparr>
          | _ \<Rightarrow> None, reader)))))))"

text \<open>The names a NAME body carries: the loop over its count, then the whole body.\<close>

primrec read_entries :: "ext \<Rightarrow> nat \<Rightarrow> bytes \<Rightarrow> transport_error + Listed list" where
  "read_entries X 0 reader = Inr []"
| "read_entries X (Suc n) reader =
     rbind (r_string X reader) (\<lambda>(nm, reader).
     rbind (utf8 nm) (\<lambda>name.
     rbind (r_string X reader) (\<lambda>(_, reader).
     rbind (stamp X reader) (\<lambda>(st, reader).
     rbind (read_entries X n reader) (\<lambda>names. Inr ((name, st) # names))))))"

definition entries :: "ext \<Rightarrow> bytes \<Rightarrow> transport_error + Listed list" where
  "entries X body =
     rbind (r_u32_be X body) (\<lambda>(_, reader).
     rbind (r_u32_be X reader) (\<lambda>(count, reader). read_entries X (unat count) reader))"

section \<open>The laws of the libraries\<close>

text \<open>An SSH string: its length, then its bytes.\<close>

definition ssh_string :: "bytes \<Rightarrow> bytes" where
  "ssh_string b = to_be32 (of_nat (length b)) @ b"

lemma length_ssh_string [simp]: "length (ssh_string b) = 4 + length b"
  by (simp add: ssh_string_def)

text \<open>
  What the writers append and the readers accept (RFC 4251, section 5). A reader returns a
  value exactly where the unread bytes start with its encoding; anything else is an error
  it returns, never a panic.
\<close>

locale wire =
  fixes X :: ext
  assumes w_u32 [simp, wire_simps]: "w_u32_be X buf n = buf @ to_be32 n"
    and w_u64 [simp, wire_simps]: "w_u64_be X buf m = buf @ to_be64 m"
    and w_byte [simp, wire_simps]: "w_byte X buf k = buf @ [k]"
    and w_bytes [simp, wire_simps]: "w_bytes X buf b = buf @ b"
    and w_string [simp, wire_simps]: "length b < 2 ^ 32 \<Longrightarrow> w_string X buf b = buf @ ssh_string b"
    and r_u32: "r_u32_be X r = Inr (n, rest) \<longleftrightarrow> r = to_be32 n @ rest"
    and r_u64: "r_u64_be X r = Inr (m, rest) \<longleftrightarrow> r = to_be64 m @ rest"
    and r_string: "r_string X r = Inr (b, rest) \<longleftrightarrow> length b < 2 ^ 32 \<and> r = ssh_string b @ rest"
    and r_no_panic: "r_u32_be X r \<noteq> Inl Panic" "r_u64_be X r \<noteq> Inl Panic" "r_string X r \<noteq> Inl Panic"
begin

lemma read_u32 [simp, wire_simps]: "r_u32_be X (to_be32 n @ rest) = Inr (n, rest)"
  by (simp add: r_u32)

lemma read_u32_end [simp, wire_simps]: "r_u32_be X (to_be32 n) = Inr (n, [])"
  by (simp add: r_u32)

lemma read_u64 [simp, wire_simps]: "r_u64_be X (to_be64 m @ rest) = Inr (m, rest)"
  by (simp add: r_u64)

lemma read_string [simp, wire_simps]:
  "length b < 2 ^ 32 \<Longrightarrow> r_string X (ssh_string b @ rest) = Inr (b, rest)"
  by (simp add: r_string)

lemma read_string_end [simp, wire_simps]:
  "length b < 2 ^ 32 \<Longrightarrow> r_string X (ssh_string b) = Inr (b, [])"
  by (simp add: r_string)

lemma frame_bytes: "frame X kind body = to_be32 (u32_of_usize (length body + 1)) @ kind # body"
  by (simp add: frame_def)

lemma code_status [simp]: "code X (to_be32 n @ to_be32 c @ rest) = Inr c"
  by (simp add: code_def)

lemma status_error_status:
  "status_error X (to_be32 n @ to_be32 c @ rest) what =
     ProtocolError (''the server refused '' @ what @ '' with SFTP status '' @ decimal (unat c))"
  by (simp add: status_error_def)

text \<open>A refused read never leaves the cursor further than its bytes allow.\<close>

lemma read_u32_short: "length r < 4 \<Longrightarrow> \<exists>e. r_u32_be X r = Inl e"
proof (cases "r_u32_be X r")
  case (Inr p)
  moreover obtain n rest where "p = (n, rest)" by (cases p)
  moreover assume "length r < 4"
  ultimately show ?thesis using r_u32 [of r n rest] by simp
qed simp

end

section \<open>Attributes\<close>

text \<open>
  The attributes of draft-ietf-secsh-filexfer-02, section 5, for any flag word: a field is
  on the wire where its flag is set.
\<close>

record attributes =
  at_flags :: u32
  at_size :: u64
  at_uid :: u32
  at_gid :: u32
  at_permissions :: u32
  at_atime :: u32
  at_mtime :: u32
  at_extended :: "(bytes \<times> bytes) list"

definition pair_bytes :: "(bytes \<times> bytes) list \<Rightarrow> bytes" where
  "pair_bytes ps = concat (map (\<lambda>(k, v). ssh_string k @ ssh_string v) ps)"

definition attributes_bytes :: "attributes \<Rightarrow> bytes" where
  "attributes_bytes a =
     to_be32 (at_flags a)
     @ (if at_flags a AND ATTR_SIZE = 0 then [] else to_be64 (at_size a))
     @ (if at_flags a AND ATTR_UIDGID = 0 then [] else to_be32 (at_uid a) @ to_be32 (at_gid a))
     @ (if at_flags a AND ATTR_PERMISSIONS = 0 then [] else to_be32 (at_permissions a))
     @ (if at_flags a AND ATTR_ACMODTIME = 0 then [] else to_be32 (at_atime a) @ to_be32 (at_mtime a))
     @ (if at_flags a AND ATTR_EXTENDED = 0 then []
        else to_be32 (of_nat (length (at_extended a))) @ pair_bytes (at_extended a))"

definition attributes_fit :: "attributes \<Rightarrow> bool" where
  "attributes_fit a \<longleftrightarrow> length (at_extended a) < 2 ^ 32
     \<and> (\<forall>(k, v) \<in> set (at_extended a). length k < 2 ^ 32 \<and> length v < 2 ^ 32)"

definition attributes_stamp :: "attributes \<Rightarrow> Stamp option" where
  "attributes_stamp a =
     (if at_flags a AND ATTR_SIZE \<noteq> 0 \<and> at_flags a AND ATTR_ACMODTIME \<noteq> 0
      then Some \<lparr>stamp_length = at_size a, stamp_modified = at_mtime a\<rparr> else None)"

text \<open>The attributes the far end writes: the length and the two times.\<close>

definition stamped :: "Stamp \<Rightarrow> attributes" where
  "stamped s = \<lparr>at_flags = ATTR_SIZE OR ATTR_ACMODTIME, at_size = stamp_length s, at_uid = 0,
     at_gid = 0, at_permissions = 0, at_atime = stamp_modified s, at_mtime = stamp_modified s,
     at_extended = []\<rparr>"

lemma attributes_stamp_stamped [simp]: "attributes_stamp (stamped s) = Some s"
  by (simp add: attributes_stamp_def stamped_def attr_flags)

lemma attributes_fit_stamped [simp]: "attributes_fit (stamped s)"
  by (simp add: attributes_fit_def stamped_def)

lemma stamped_bytes:
  "attributes_bytes (stamped s) =
     to_be32 (ATTR_SIZE OR ATTR_ACMODTIME) @ to_be64 (stamp_length s)
     @ to_be32 (stamp_modified s) @ to_be32 (stamp_modified s)"
  by (simp add: attributes_bytes_def stamped_def attr_flags)

context wire
begin

lemma skip_pairs_bytes:
  "(\<forall>(k, v) \<in> set ps. length k < 2 ^ 32 \<and> length v < 2 ^ 32) \<Longrightarrow>
     skip_pairs X (length ps) (pair_bytes ps @ rest) = Inr rest"
  by (induction ps) (auto simp: pair_bytes_def)

text \<open>Every attribute is read past, whatever the flags; the stamp needs both of its fields.\<close>

lemma stamp_attributes_bytes:
  assumes "attributes_fit a"
  shows "stamp X (attributes_bytes a @ rest) = Inr (attributes_stamp a, rest)"
  using assms skip_pairs_bytes [of "at_extended a" rest]
  by (auto simp: attributes_fit_def stamp_def attributes_bytes_def attributes_stamp_def)

end

section \<open>The encodings of RFC 4251\<close>

definition rfc_u32 :: "bytes \<Rightarrow> transport_error + u32 \<times> bytes" where
  "rfc_u32 r = (case r of
     a # b # c # d # rest \<Rightarrow> Inr (from_be32 a b c d, rest)
   | _ \<Rightarrow> Inl (Foreign ''the bytes end''))"

definition rfc_u64 :: "bytes \<Rightarrow> transport_error + u64 \<times> bytes" where
  "rfc_u64 r = rbind (rfc_u32 r) (\<lambda>(hi, r). rbind (rfc_u32 r) (\<lambda>(lo, r). Inr (from_be64 hi lo, r)))"

definition rfc_string :: "bytes \<Rightarrow> transport_error + bytes \<times> bytes" where
  "rfc_string r = rbind (rfc_u32 r) (\<lambda>(n, r).
     if unat n \<le> length r then Inr (take (unat n) r, drop (unat n) r)
     else Inl (Foreign ''the bytes end''))"

definition rfc4251 :: "usize \<Rightarrow> ext" where
  "rfc4251 most = \<lparr>
     w_u32_be = (\<lambda>buf n. buf @ to_be32 n),
     w_u64_be = (\<lambda>buf n. buf @ to_be64 n),
     w_byte = (\<lambda>buf k. buf @ [k]),
     w_bytes = (\<lambda>buf b. buf @ b),
     w_string = (\<lambda>buf b. buf @ ssh_string b),
     r_u32_be = rfc_u32,
     r_u64_be = rfc_u64,
     r_string = rfc_string,
     ceiling_within = (\<lambda>size limit what.
       if size \<le> limit then Inr () else Inl (''more than '' @ what)),
     MAX_BODY = most\<rparr>"

lemma rfc_u32_iff: "rfc_u32 r = Inr (n, rest) \<longleftrightarrow> r = to_be32 n @ rest"
proof
  assume "r = to_be32 n @ rest"
  then show "rfc_u32 r = Inr (n, rest)" by (simp add: rfc_u32_def to_be32_def)
qed (auto simp: rfc_u32_def split: list.splits)

lemma rfc_u64_iff: "rfc_u64 r = Inr (m, rest) \<longleftrightarrow> r = to_be64 m @ rest"
proof
  assume "r = to_be64 m @ rest"
  then have "rfc_u32 r = Inr (ucast (drop_bit 32 m), to_be32 (ucast m) @ rest)"
    by (simp add: rfc_u32_iff to_be64_def)
  moreover have "rfc_u32 (to_be32 (ucast m) @ rest) = Inr (ucast m, rest)"
    by (simp add: rfc_u32_iff)
  ultimately show "rfc_u64 r = Inr (m, rest)" by (simp add: rfc_u64_def)
qed (auto simp: rfc_u64_def rbind_Inr_conv rfc_u32_iff)

lemma rfc_string_iff:
  "rfc_string r = Inr (b, rest) \<longleftrightarrow> length b < 2 ^ 32 \<and> r = ssh_string b @ rest"
proof
  assume "rfc_string r = Inr (b, rest)"
  then obtain n s where n: "r = to_be32 n @ s" "unat n \<le> length s" "b = take (unat n) s"
      "rest = drop (unat n) s"
    by (auto simp: rfc_string_def rbind_Inr_conv rfc_u32_iff split: if_splits)
  moreover have "unat n < 2 ^ 32" using unsigned_less [of n, where ?'a = nat] by simp
  ultimately show "length b < 2 ^ 32 \<and> r = ssh_string b @ rest"
    by (simp add: ssh_string_def min_def)
next
  assume b: "length b < 2 ^ 32 \<and> r = ssh_string b @ rest"
  then have "rfc_u32 r = Inr (of_nat (length b), b @ rest)"
    by (simp add: rfc_u32_iff ssh_string_def)
  with b show "rfc_string r = Inr (b, rest)" by (simp add: rfc_string_def)
qed

lemma rfc_no_panic: "rfc_u32 r \<noteq> Inl Panic" "rfc_u64 r \<noteq> Inl Panic" "rfc_string r \<noteq> Inl Panic"
  by (auto simp: rfc_u32_def rfc_u64_def rfc_string_def rbind_def split: list.splits sum.splits if_splits)

interpretation rfc: wire "rfc4251 most"
  by unfold_locales (simp_all add: rfc4251_def rfc_u32_iff rfc_u64_iff rfc_string_iff rfc_no_panic)

section \<open>The ceiling of one file\<close>

text \<open>
  \<open>ceiling::within\<close> refuses a size over the limit it is given, with a message; the limit
  \<open>net::MAX_BODY\<close> is below \<open>usize::MAX\<close>.
\<close>

locale limits = wire +
  assumes ceiling: "ceiling_within X n limit what = Inr u \<longleftrightarrow> n \<le> limit"
    and ceiling_message: "ceiling_within X n limit what = Inl msg \<Longrightarrow> length msg \<le> length what + 1000"
    and max_body: "MAX_BODY X < usize_max"

interpretation rfc_limits: limits "rfc4251 67108864"
  by unfold_locales (auto simp: rfc4251_def usize_max_def split: if_splits)

abbreviation std_ext :: ext where
  "std_ext \<equiv> rfc4251 67108864"

section \<open>Properties\<close>

text \<open>
  C25. The attributes of a listing or a stat, in any combination of flags the protocol allows
  (size, owners, permissions, times, extended pairs), are read exactly past: the cursor is
  left where the next entry starts, and the stamp is the length and the modification time
  where both are there, none otherwise.
\<close>

theorem stamp_reads_attributes:
  assumes "wire X" "attributes_fit a"
  shows "stamp X (attributes_bytes a @ rest) = Inr (attributes_stamp a, rest)"
  using wire.stamp_attributes_bytes [OF assms] .

theorem stamp_reads_attributes_witness:
  "stamp std_ext (attributes_bytes \<lparr>at_flags = 0x8000000F, at_size = 9, at_uid = 1, at_gid = 2, at_permissions = 3,
     at_atime = 4, at_mtime = 5, at_extended = [([7], [8, 9])]\<rparr> @ [6]) =
   Inr (Some \<lparr>stamp_length = 9, stamp_modified = 5\<rparr>, [6])"
  using stamp_reads_attributes [OF rfc.wire_axioms, of "\<lparr>at_flags = 0x8000000F, at_size = 9, at_uid = 1, at_gid = 2,
      at_permissions = 3, at_atime = 4, at_mtime = 5, at_extended = [([7], [8, 9])]\<rparr>" 67108864 "[6]"]
  by (simp add: attributes_fit_def attributes_stamp_def attr_flags)

end
