(* ===== verification/Directory.thy ===== *)
theory Directory
  imports Wire
begin

unbundle bit_operations_syntax

text \<open>
  The far end of \<open>directory.rs\<close>: the directory held in memory, the handles of one channel,
  and the answer to every request, byte for byte. A handler takes the reading of the system
  clock (seconds since the Unix epoch, negative before it) where the code reads it. The
  owner's callback (\<open>told\<close>) is whether one is set, with the names it was called with in
  order (\<open>heard\<close>). The counter \<open>next\<close> wraps at 64 bits, as a release build does.
\<close>

section \<open>State\<close>

record Directory =
  files :: Files
  written :: "(string, u32) btree"
  newest :: u32
  told :: bool
  heard :: "string list"

text \<open>A handle handed out: a file to write, a file to read, a directory read or not.\<close>

datatype Handle = WriteHandle string | ReadHandle string | DirHandle bool

text \<open>What one channel's requests act on: the shared directory, its handles, its counter.\<close>

record Serving =
  dir :: Directory
  handles :: "(string, Handle) btree"
  next_handle :: u64

definition directory_new :: "Files \<Rightarrow> Directory" where
  "directory_new fs = \<lparr>files = fs, written = [], newest = 0, told = False, heard = []\<rparr>"

definition telling :: "Directory \<Rightarrow> Directory" where
  "telling d = d\<lparr>told := True\<rparr>"

definition clock_u32 :: "int \<Rightarrow> u32" where
  "clock_u32 now = (if now < 0 then 0 else if now < 2 ^ 32 then of_int now else u32_max)"

definition touch :: "int \<Rightarrow> string \<Rightarrow> Directory \<Rightarrow> Directory" where
  "touch now name d =
     (let n = max (clock_u32 now) (u32_saturating_add (newest d) 1)
      in d\<lparr>newest := n, written := bt_insert name n (written d)\<rparr>)"

definition modified :: "Directory \<Rightarrow> string \<Rightarrow> u32" where
  "modified d name = (case bt_get (written d) name of Some t \<Rightarrow> t | None \<Rightarrow> 0)"

section \<open>Replies\<close>

definition handle_reply :: "ext \<Rightarrow> u32 \<Rightarrow> string \<Rightarrow> bytes" where
  "handle_reply X rid h = frame X HANDLE (w_string X (w_u32_be X [] rid) (as_bytes h))"

definition data_reply :: "ext \<Rightarrow> u32 \<Rightarrow> bytes \<Rightarrow> bytes" where
  "data_reply X rid d = frame X DATA (w_string X (w_u32_be X [] rid) d)"

definition name_entry :: "ext \<Rightarrow> Directory \<Rightarrow> string \<times> bytes \<Rightarrow> bytes \<Rightarrow> bytes" where
  "name_entry X d = (\<lambda>(name, b) body.
     let m = modified d name
     in w_u32_be X (w_u32_be X (w_u64_be X (w_u32_be X
          (w_string X (w_string X body (as_bytes name)) (as_bytes name))
          (ATTR_SIZE OR ATTR_ACMODTIME)) (of_nat (length b))) m) m)"

definition name_reply :: "ext \<Rightarrow> u32 \<Rightarrow> Directory \<Rightarrow> bytes" where
  "name_reply X rid d = frame X NAME
     (fold (name_entry X d) (files d)
       (w_u32_be X (w_u32_be X [] rid) (u32_of_usize (length (files d)))))"

definition status :: "ext \<Rightarrow> u32 \<Rightarrow> u32 \<Rightarrow> string \<Rightarrow> bytes" where
  "status X rid c message = frame X STATUS
     (w_string X (w_string X (w_u32_be X (w_u32_be X [] rid) c) (as_bytes message)) [])"

section \<open>Requests\<close>

definition on_init :: "ext \<Rightarrow> (Serving, bytes) handler" where
  "on_init X s = (Inr (frame X VERSION (w_u32_be X [] PROTOCOL)), s)"

text \<open>
  Each request is read off its body, then acted on: \<open>on_open\<close> reads, \<open>open_named\<close> acts,
  and so for the others.
\<close>

definition open_named :: "ext \<Rightarrow> int \<Rightarrow> u32 \<Rightarrow> string \<Rightarrow> u32 \<Rightarrow> (Serving, bytes) handler" where
  "open_named X now rid name flags s =
     (let handle = ''h'' @ decimal (unat (next_handle s));
          s = s\<lparr>next_handle := next_handle s + 1\<rparr>;
          d = dir s
      in if flags AND F_WRITE \<noteq> 0 then
           (let exists = bt_contains (files d) name
            in if exists \<and> flags AND F_EXCL \<noteq> 0 then (Inr (status X rid FAILURE ''the file exists''), s)
               else
                 let d = (if \<not> exists \<or> flags AND F_TRUNC \<noteq> 0
                          then d\<lparr>files := bt_insert name [] (files d)\<rparr> else d);
                     d = touch now name d
                 in (Inr (handle_reply X rid handle),
                     s\<lparr>dir := d, handles := bt_insert handle (WriteHandle name) (handles s)\<rparr>))
         else if bt_contains (files d) name then
           (Inr (handle_reply X rid handle),
            s\<lparr>handles := bt_insert handle (ReadHandle name) (handles s)\<rparr>)
         else (Inr (status X rid NO_SUCH_FILE ''no such file''), s))"

definition on_open :: "ext \<Rightarrow> int \<Rightarrow> bytes \<Rightarrow> (Serving, bytes) handler" where
  "on_open X now reader =
     attempt (r_u32_be X reader) (\<lambda>(rid, reader).
     attempt (r_string X reader) (\<lambda>(nm, reader).
     attempt (utf8 nm) (\<lambda>name.
     attempt (r_u32_be X reader) (\<lambda>(flags, reader). open_named X now rid name flags))))"

text \<open>
  \<open>file[offset..end].copy_from_slice(data)\<close>: a slice out of range, or of another length
  than the data, panics.
\<close>

definition copy_into :: "bytes \<Rightarrow> usize \<Rightarrow> usize \<Rightarrow> bytes \<Rightarrow> bytes option" where
  "copy_into file offset end d =
     (if offset \<le> end \<and> end \<le> length file \<and> end - offset = length d
      then Some (take offset file @ d @ drop end file) else None)"

definition resize :: "bytes \<Rightarrow> usize \<Rightarrow> u8 \<Rightarrow> bytes" where
  "resize file n x = (if n \<le> length file then take n file else file @ replicate (n - length file) x)"

definition write_at :: "ext \<Rightarrow> int \<Rightarrow> u32 \<Rightarrow> string \<Rightarrow> usize \<Rightarrow> bytes \<Rightarrow> (Serving, bytes) handler" where
  "write_at X now rid handle offset data s = (case bt_get (handles s) handle of
     Some (WriteHandle name) \<Rightarrow>
       (let end = usize_saturating_add offset (length data)
        in case ceiling_within X end (MAX_BODY X) ''Xmip holds of one file'' of
             Inl message \<Rightarrow> (Inr (status X rid FAILURE message), s)
           | Inr _ \<Rightarrow>
               let d = dir s;
                   file = (case bt_get (files d) name of Some b \<Rightarrow> b | None \<Rightarrow> []);
                   file = (if length file < end then resize file end 0 else file)
               in case copy_into file offset end data of
                    None \<Rightarrow> (Inl Panic, s\<lparr>dir := d\<lparr>files := bt_insert name file (files d)\<rparr>\<rparr>)
                  | Some file \<Rightarrow>
                      (Inr (status X rid OK ''written''),
                       s\<lparr>dir := touch now name (d\<lparr>files := bt_insert name file (files d)\<rparr>)\<rparr>))
   | _ \<Rightarrow> (Inr (status X rid FAILURE ''a write to a handle not open for writing''), s))"

definition on_write :: "ext \<Rightarrow> int \<Rightarrow> bytes \<Rightarrow> (Serving, bytes) handler" where
  "on_write X now reader =
     attempt (r_u32_be X reader) (\<lambda>(rid, reader).
     attempt (r_string X reader) (\<lambda>(h, reader).
     attempt (utf8 h) (\<lambda>handle.
     attempt (r_u64_be X reader) (\<lambda>(off, reader).
     attempt (r_string X reader) (\<lambda>(data, reader).
       write_at X now rid handle (usize_of_u64 off) data)))))"

text \<open>\<open>&file[offset..end]\<close>: a slice out of range panics.\<close>

definition slice :: "bytes \<Rightarrow> usize \<Rightarrow> usize \<Rightarrow> bytes option" where
  "slice file offset end =
     (if offset \<le> end \<and> end \<le> length file then Some (take (end - offset) (drop offset file)) else None)"

definition read_from :: "ext \<Rightarrow> u32 \<Rightarrow> string \<Rightarrow> usize \<Rightarrow> usize \<Rightarrow> (Serving, bytes) handler" where
  "read_from X rid handle offset want s = (case bt_get (handles s) handle of
     Some (ReadHandle name) \<Rightarrow>
       (let file = (case bt_get (files (dir s)) name of Some b \<Rightarrow> b | None \<Rightarrow> [])
        in if offset \<ge> length file then (Inr (status X rid EOF ''end of file''), s)
           else
             let end = min (length file) (usize_saturating_add offset want)
             in case slice file offset end of
                  None \<Rightarrow> (Inl Panic, s)
                | Some part \<Rightarrow> (Inr (data_reply X rid part), s))
   | _ \<Rightarrow> (Inr (status X rid FAILURE ''a read from a handle not open for reading''), s))"

definition on_read :: "ext \<Rightarrow> bytes \<Rightarrow> (Serving, bytes) handler" where
  "on_read X reader =
     attempt (r_u32_be X reader) (\<lambda>(rid, reader).
     attempt (r_string X reader) (\<lambda>(h, reader).
     attempt (utf8 h) (\<lambda>handle.
     attempt (r_u64_be X reader) (\<lambda>(off, reader).
     attempt (r_u32_be X reader) (\<lambda>(want, reader).
       read_from X rid handle (usize_of_u64 off) (unat want))))))"

definition open_dir :: "ext \<Rightarrow> u32 \<Rightarrow> (Serving, bytes) handler" where
  "open_dir X rid s =
     (let handle = ''d'' @ decimal (unat (next_handle s))
      in (Inr (handle_reply X rid handle),
          s\<lparr>next_handle := next_handle s + 1,
            handles := bt_insert handle (DirHandle False) (handles s)\<rparr>))"

definition on_opendir :: "ext \<Rightarrow> bytes \<Rightarrow> (Serving, bytes) handler" where
  "on_opendir X reader =
     attempt (r_u32_be X reader) (\<lambda>(rid, reader).
     attempt (r_string X reader) (\<lambda>(path, reader). open_dir X rid))"

definition list_dir :: "ext \<Rightarrow> u32 \<Rightarrow> string \<Rightarrow> (Serving, bytes) handler" where
  "list_dir X rid handle s = (case bt_get (handles s) handle of
     Some (DirHandle False) \<Rightarrow>
       (Inr (name_reply X rid (dir s)),
        s\<lparr>handles := bt_insert handle (DirHandle True) (handles s)\<rparr>)
   | Some (DirHandle True) \<Rightarrow> (Inr (status X rid EOF ''end of directory''), s)
   | _ \<Rightarrow> (Inr (status X rid FAILURE ''a readdir on a handle that is not a directory''), s))"

definition on_readdir :: "ext \<Rightarrow> bytes \<Rightarrow> (Serving, bytes) handler" where
  "on_readdir X reader =
     attempt (r_u32_be X reader) (\<lambda>(rid, reader).
     attempt (r_string X reader) (\<lambda>(h, reader).
     attempt (utf8 h) (\<lambda>handle. list_dir X rid handle)))"

definition close_handle :: "ext \<Rightarrow> u32 \<Rightarrow> string \<Rightarrow> (Serving, bytes) handler" where
  "close_handle X rid handle s =
     (let removed = bt_get (handles s) handle;
          s = s\<lparr>handles := bt_remove handle (handles s)\<rparr>;
          s = (case removed of
                 Some (WriteHandle name) \<Rightarrow>
                   (if told (dir s) then s\<lparr>dir := (dir s)\<lparr>heard := heard (dir s) @ [name]\<rparr>\<rparr> else s)
               | _ \<Rightarrow> s)
      in (Inr (status X rid OK ''closed''), s))"

definition on_close :: "ext \<Rightarrow> bytes \<Rightarrow> (Serving, bytes) handler" where
  "on_close X reader =
     attempt (r_u32_be X reader) (\<lambda>(rid, reader).
     attempt (r_string X reader) (\<lambda>(h, reader).
     attempt (utf8 h) (\<lambda>handle. close_handle X rid handle)))"

definition remove_named :: "ext \<Rightarrow> u32 \<Rightarrow> string \<Rightarrow> (Serving, bytes) handler" where
  "remove_named X rid name s =
     (let d = (dir s)\<lparr>written := bt_remove name (written (dir s))\<rparr>;
          removed = bt_contains (files d) name;
          s = s\<lparr>dir := d\<lparr>files := bt_remove name (files d)\<rparr>\<rparr>
      in if removed then (Inr (status X rid OK ''removed''), s)
         else (Inr (status X rid NO_SUCH_FILE ''no such file''), s))"

definition on_remove :: "ext \<Rightarrow> bytes \<Rightarrow> (Serving, bytes) handler" where
  "on_remove X reader =
     attempt (r_u32_be X reader) (\<lambda>(rid, reader).
     attempt (r_string X reader) (\<lambda>(nm, reader).
     attempt (utf8 nm) (\<lambda>name. remove_named X rid name)))"

definition rename_named :: "ext \<Rightarrow> u32 \<Rightarrow> string \<Rightarrow> string \<Rightarrow> (Serving, bytes) handler" where
  "rename_named X rid from to s =
     (let d = dir s
      in if bt_contains (files d) to then (Inr (status X rid FAILURE ''the new name exists''), s)
         else case bt_get (files d) from of
                None \<Rightarrow> (Inr (status X rid NO_SUCH_FILE ''no such file''), s)
              | Some b \<Rightarrow>
                  let d = d\<lparr>files := bt_insert to b (bt_remove from (files d))\<rparr>;
                      d = (case bt_get (written d) from of
                             Some t \<Rightarrow> d\<lparr>written := bt_insert to t (bt_remove from (written d))\<rparr>
                           | None \<Rightarrow> d)
                  in (Inr (status X rid OK ''renamed''), s\<lparr>dir := d\<rparr>))"

definition on_rename :: "ext \<Rightarrow> bytes \<Rightarrow> (Serving, bytes) handler" where
  "on_rename X reader =
     attempt (r_u32_be X reader) (\<lambda>(rid, reader).
     attempt (r_string X reader) (\<lambda>(f, reader).
     attempt (utf8 f) (\<lambda>from.
     attempt (r_string X reader) (\<lambda>(t, reader).
     attempt (utf8 t) (\<lambda>to. rename_named X rid from to)))))"

definition stat_named :: "ext \<Rightarrow> u32 \<Rightarrow> string \<Rightarrow> (Serving, bytes) handler" where
  "stat_named X rid name s = (case bt_get (files (dir s)) name of
     Some b \<Rightarrow>
       (let m = modified (dir s) name
        in (Inr (frame X ATTRS
              (w_u32_be X (w_u32_be X (w_u64_be X (w_u32_be X (w_u32_be X [] rid)
                 (ATTR_SIZE OR ATTR_ACMODTIME)) (of_nat (length b))) m) m)), s))
   | None \<Rightarrow> (Inr (status X rid NO_SUCH_FILE ''no such file''), s))"

definition on_stat :: "ext \<Rightarrow> bytes \<Rightarrow> (Serving, bytes) handler" where
  "on_stat X reader =
     attempt (r_u32_be X reader) (\<lambda>(rid, reader).
     attempt (r_string X reader) (\<lambda>(nm, reader).
     attempt (utf8 nm) (\<lambda>name. stat_named X rid name)))"

text \<open>The reply to one request.\<close>

definition answer :: "ext \<Rightarrow> int \<Rightarrow> u8 \<Rightarrow> bytes \<Rightarrow> (Serving, bytes) handler" where
  "answer X now kind body =
     (if kind = INIT then on_init X
      else if kind = OPEN then on_open X now body
      else if kind = WRITE then on_write X now body
      else if kind = READ then on_read X body
      else if kind = OPENDIR then on_opendir X body
      else if kind = READDIR then on_readdir X body
      else if kind = CLOSE then on_close X body
      else if kind = REMOVE then on_remove X body
      else if kind = RENAME then on_rename X body
      else if kind = STAT then on_stat X body
      else (\<lambda>s. (Inl (ProtocolError (''an SFTP request of type '' @ decimal (unat kind))), s)))"

lemmas request_defs =
  on_init_def on_open_def on_write_def on_read_def on_opendir_def on_readdir_def on_close_def
  on_remove_def on_rename_def on_stat_def

section \<open>The subsystem's loop\<close>

text \<open>
  The session channel is the SSH library's: what the code calls of it, on a channel state
  \<open>'c\<close> of its own.
\<close>

record 'c channel =
  ch_write :: "'c \<Rightarrow> bytes \<Rightarrow> (transport_error + unit) \<times> 'c"
  ch_read_exact :: "'c \<Rightarrow> usize \<Rightarrow> (transport_error + bytes) \<times> 'c"
  ch_read_frame :: "'c \<Rightarrow> (transport_error + bytes option) \<times> 'c"

definition serve_request :: "ext \<Rightarrow> int \<Rightarrow> bytes \<Rightarrow> (Serving, bytes) handler" where
  "serve_request X now body = (case body of
     [] \<Rightarrow> (\<lambda>s. (Inl (ProtocolError ''an SFTP packet with no type''), s))
   | kind # rest \<Rightarrow> answer X now kind rest)"

text \<open>
  Request after request until the client closes the channel; \<open>clock n\<close> is the clock's
  reading at the \<open>n\<close>th. \<open>None\<close> is a client that never closes it.
\<close>

partial_function (option) serve_loop ::
  "ext \<Rightarrow> 'c channel \<Rightarrow> (nat \<Rightarrow> int) \<Rightarrow> nat \<Rightarrow> 'c \<Rightarrow> Serving
     \<Rightarrow> ((transport_error + unit) \<times> 'c \<times> Serving) option" where
  "serve_loop X K clock n c s =
     (case ch_read_frame K c of (r, c) \<Rightarrow>
        (case r of
           Inl e \<Rightarrow> Some (Inl e, c, s)
         | Inr None \<Rightarrow> Some (Inr (), c, s)
         | Inr (Some body) \<Rightarrow>
             (case serve_request X (clock n) body s of (v, s) \<Rightarrow>
                (case v of
                   Inl e \<Rightarrow> Some (Inl e, c, s)
                 | Inr reply \<Rightarrow>
                     (case ch_write K c reply of (w, c) \<Rightarrow>
                        (case w of
                           Inl e \<Rightarrow> Some (Inl e, c, s)
                         | Inr _ \<Rightarrow> serve_loop X K clock (Suc n) c s))))))"

definition dir_serve ::
  "ext \<Rightarrow> 'c channel \<Rightarrow> (nat \<Rightarrow> int) \<Rightarrow> 'c \<Rightarrow> Directory
     \<Rightarrow> ((transport_error + unit) \<times> 'c \<times> Directory) option" where
  "dir_serve X K clock c d =
     map_option (\<lambda>(r, c, s). (r, c, dir s))
       (serve_loop X K clock 0 c \<lparr>dir = d, handles = [], next_handle = 0\<rparr>)"

section \<open>Well-formed directories\<close>

text \<open>
  The two maps are ordered; only a file has a time, none later than the newest; every name
  is a Rust string. \<open>dir_bounded\<close>: no file is over the ceiling.
\<close>

definition dir_wf :: "Directory \<Rightarrow> bool" where
  "dir_wf d \<longleftrightarrow> bt_wf (files d) \<and> bt_wf (written d)
     \<and> dom (bt_get (written d)) \<subseteq> dom (bt_get (files d))
     \<and> (\<forall>n t. bt_get (written d) n = Some t \<longrightarrow> t \<le> newest d)
     \<and> (\<forall>n \<in> dom (bt_get (files d)). rust_str n)"

definition dir_bounded :: "ext \<Rightarrow> Directory \<Rightarrow> bool" where
  "dir_bounded X d \<longleftrightarrow> (\<forall>n b. bt_get (files d) n = Some b \<longrightarrow> length b \<le> MAX_BODY X)"

fun handle_wf :: "Handle \<Rightarrow> bool" where
  "handle_wf (WriteHandle n) = rust_str n"
| "handle_wf (ReadHandle n) = rust_str n"
| "handle_wf (DirHandle _) = True"

definition serving_wf :: "Serving \<Rightarrow> bool" where
  "serving_wf s \<longleftrightarrow> dir_wf (dir s) \<and> bt_wf (handles s)
     \<and> (\<forall>h v. bt_get (handles s) h = Some v \<longrightarrow> handle_wf v)"

lemma attempt_rule:
  assumes "\<And>e. r = Inl e \<Longrightarrow> Q (Inl e, s)" and "\<And>x. r = Inr x \<Longrightarrow> Q (k x s)"
  shows "Q (attempt r k s)"
  using assms by (cases r) auto

lemma attempt_pair_rule:
  assumes "\<And>e. r = Inl e \<Longrightarrow> Q (Inl e, s)" and "\<And>a b. r = Inr (a, b) \<Longrightarrow> Q (f a b s)"
  shows "Q (attempt r (\<lambda>(a, b). f a b) s)"
  using assms by (cases r) auto

lemmas attempt_rules = attempt_pair_rule attempt_rule

lemma utf8_Inr [simp]: "utf8 b = Inr s \<longleftrightarrow> b = as_bytes s \<and> rust_str s"
  by (auto simp: utf8_def from_utf8_Some split: option.splits)

lemma utf8_as_bytes [simp]: "rust_str s \<Longrightarrow> utf8 (as_bytes s) = Inr s"
  by simp

lemma touch_simps [simp]:
  "files (touch now n d) = files d"
  "told (touch now n d) = told d"
  "heard (touch now n d) = heard d"
  by (simp_all add: touch_def Let_def)

lemma newest_touch: "newest d \<le> newest (touch now n d)"
proof (cases "newest d < u32_max")
  case True
  then have "newest d \<le> u32_saturating_add (newest d) 1"
    by (rule less_imp_le [OF u32_saturating_add_gt])
  then show ?thesis by (simp add: touch_def Let_def le_max_iff_disj)
next
  case False
  then have "newest d = u32_max" using u32_le_max [of "newest d"] by (simp add: not_less)
  then show ?thesis by (simp add: touch_def Let_def le_max_iff_disj)
qed

lemma modified_touch: "modified (touch now n d) n = newest (touch now n d)"
  by (simp add: touch_def Let_def modified_def)

lemma modified_touch_other: "m \<noteq> n \<Longrightarrow> modified (touch now n d) m = modified d m"
  by (simp add: touch_def Let_def modified_def)

lemma modified_le_newest: "dir_wf d \<Longrightarrow> modified d n \<le> newest d"
  by (auto simp: dir_wf_def modified_def split: option.splits)

lemma dir_wf_touch:
  assumes "dir_wf d" "n \<in> dom (bt_get (files d))"
  shows "dir_wf (touch now n d)"
proof -
  have "t \<le> newest (touch now n d)" if "bt_get (written (touch now n d)) m = Some t" for m t
  proof (cases "m = n")
    case True
    with that show ?thesis by (simp add: touch_def Let_def)
  next
    case False
    with that have "bt_get (written d) m = Some t" by (simp add: touch_def Let_def)
    then have "t \<le> newest d" using assms by (auto simp: dir_wf_def)
    then show ?thesis using newest_touch by (rule order_trans)
  qed
  then show ?thesis using assms
    by (auto simp: dir_wf_def touch_def Let_def bt_wf_insert)
qed

lemma dir_wf_insert:
  assumes "dir_wf d" "rust_str n"
  shows "dir_wf (d\<lparr>files := bt_insert n b (files d)\<rparr>)"
  using assms by (auto simp: dir_wf_def bt_wf_insert)

lemma dir_wf_heard: "dir_wf (d\<lparr>heard := hs\<rparr>) = dir_wf d"
  by (simp add: dir_wf_def)

text \<open>Each request keeps the state well formed; the last lemma of the group is all of them.\<close>

lemma serving_wf_dir: "serving_wf s \<Longrightarrow> dir_wf d \<Longrightarrow> serving_wf (s\<lparr>dir := d\<rparr>)"
  by (simp add: serving_wf_def)

lemma serving_wf_handle:
  "serving_wf s \<Longrightarrow> handle_wf v \<Longrightarrow> serving_wf (s\<lparr>handles := bt_insert h v (handles s)\<rparr>)"
  by (auto simp: serving_wf_def bt_wf_insert)

lemma serving_wf_next [simp]: "serving_wf (s\<lparr>next_handle := n\<rparr>) = serving_wf s"
  by (simp add: serving_wf_def)

lemma serving_wf_open_write:
  assumes "serving_wf s" "rust_str n" "n \<in> dom (bt_get fs) " "dir_wf ((dir s)\<lparr>files := fs\<rparr>)"
  shows "serving_wf (s\<lparr>dir := touch now n ((dir s)\<lparr>files := fs\<rparr>),
    handles := bt_insert h (WriteHandle n) (handles s)\<rparr>)"
proof -
  have "dir_wf (touch now n ((dir s)\<lparr>files := fs\<rparr>))"
    using assms by (intro dir_wf_touch) auto
  then show ?thesis using assms by (auto simp: serving_wf_def bt_wf_insert)
qed

lemma open_named_wf:
  assumes "serving_wf s" "rust_str name"
  shows "serving_wf (snd (open_named X now rid name flags s))"
proof -
  have d: "dir_wf (dir s)" using assms by (simp add: serving_wf_def)
  have "serving_wf (s\<lparr>next_handle := n, dir := touch now name ((dir s)\<lparr>files := bt_insert name [] (files (dir s))\<rparr>),
      handles := bt_insert h (WriteHandle name) (handles s)\<rparr>)" for n h
    using serving_wf_open_write [where s = "s\<lparr>next_handle := n\<rparr>" and n = name and fs = "bt_insert name [] (files (dir s))" and now = now and h = h]
      assms d dir_wf_insert [OF d] by simp
  moreover have "serving_wf (s\<lparr>next_handle := n, dir := touch now name (dir s),
      handles := bt_insert h (WriteHandle name) (handles s)\<rparr>)"
    if "bt_contains (files (dir s)) name" for n h
    using serving_wf_open_write [where s = "s\<lparr>next_handle := n\<rparr>" and n = name and fs = "files (dir s)" and now = now and h = h] assms d that
    by (auto simp: bt_contains_def)
  ultimately show ?thesis
    using assms serving_wf_handle [of "s\<lparr>next_handle := next_handle s + 1\<rparr>" "ReadHandle name"]
    by (auto simp: open_named_def Let_def)
qed

lemma write_at_wf:
  assumes "serving_wf s"
  shows "serving_wf (snd (write_at X now rid h off data s))"
proof -
  have d: "dir_wf (dir s)" using assms by (simp add: serving_wf_def)
  have "serving_wf (s\<lparr>dir := touch now n ((dir s)\<lparr>files := bt_insert n b (files (dir s))\<rparr>)\<rparr>)"
    "serving_wf (s\<lparr>dir := (dir s)\<lparr>files := bt_insert n b (files (dir s))\<rparr>\<rparr>)"
    if "bt_get (handles s) h = Some (WriteHandle n)" for n b
  proof -
    from that assms have "rust_str n" by (force simp: serving_wf_def)
    then have wf: "dir_wf ((dir s)\<lparr>files := bt_insert n b (files (dir s))\<rparr>)"
      by (rule dir_wf_insert [OF d])
    with assms show "serving_wf (s\<lparr>dir := (dir s)\<lparr>files := bt_insert n b (files (dir s))\<rparr>\<rparr>)"
      by (rule serving_wf_dir)
    have "dir_wf (touch now n ((dir s)\<lparr>files := bt_insert n b (files (dir s))\<rparr>))"
      using wf by (rule dir_wf_touch) simp
    with assms show "serving_wf (s\<lparr>dir := touch now n ((dir s)\<lparr>files := bt_insert n b (files (dir s))\<rparr>)\<rparr>)"
      by (rule serving_wf_dir)
  qed
  then show ?thesis using assms
    by (auto simp: write_at_def Let_def split: option.splits Handle.splits sum.splits)
qed

text \<open>A write leaves the state, or the one file of its handle written.\<close>

lemma write_at_state:
  obtains (same) "snd (write_at X now rid h off data s) = s"
  | (put) n b d where "bt_get (handles s) h = Some (WriteHandle n)"
      "snd (write_at X now rid h off data s) = s\<lparr>dir := d\<rparr>" "files d = bt_insert n b (files (dir s))"
proof (cases "bt_get (handles s) h")
  case None
  then show ?thesis by (intro same) (simp add: write_at_def)
next
  case (Some v)
  show ?thesis
  proof (cases v)
    case (WriteHandle n)
    let ?stop = "usize_saturating_add off (length data)"
    let ?old = "case bt_get (files (dir s)) n of Some b \<Rightarrow> b | None \<Rightarrow> []"
    let ?file = "if length ?old < ?stop then resize ?old ?stop 0 else ?old"
    show ?thesis
    proof (cases "ceiling_within X ?stop (MAX_BODY X) ''Xmip holds of one file''")
      case (Inl msg)
      with Some WriteHandle show ?thesis by (intro same) (simp add: write_at_def Let_def)
    next
      case (Inr u)
      show ?thesis
      proof (cases "copy_into ?file off ?stop data")
        case None
        with Inr Some WriteHandle show ?thesis
          by (intro put [of n "(dir s)\<lparr>files := bt_insert n ?file (files (dir s))\<rparr>" ?file])
            (simp_all add: write_at_def Let_def)
      next
        case new: (Some b)
        with Inr Some WriteHandle show ?thesis
          by (intro put [of n "touch now n ((dir s)\<lparr>files := bt_insert n b (files (dir s))\<rparr>)" b])
            (simp_all add: write_at_def Let_def)
      qed
    qed
  qed (use Some same in \<open>simp_all add: write_at_def\<close>)
qed

text \<open>Up to the end of the file, the slice a read takes is in range.\<close>

lemma slice_read:
  "offset \<le> usize_max \<Longrightarrow> offset < length b \<Longrightarrow> slice b offset (min (length b) (usize_saturating_add offset want)) =
     Some (take (min (length b) (usize_saturating_add offset want) - offset) (drop offset b))"
  by (simp add: slice_def usize_saturating_add_def)

lemma read_from_state [simp]: "snd (read_from X rid h off want s) = s"
  by (auto simp: read_from_def Let_def split: option.splits Handle.splits)

lemma stat_named_state [simp]: "snd (stat_named X rid n s) = s"
  by (auto simp: stat_named_def Let_def split: option.splits)

lemma open_dir_wf: "serving_wf s \<Longrightarrow> serving_wf (snd (open_dir X rid s))"
  by (auto simp: open_dir_def Let_def serving_wf_def bt_wf_insert)

lemma list_dir_wf: "serving_wf s \<Longrightarrow> serving_wf (snd (list_dir X rid h s))"
  by (auto simp: list_dir_def serving_wf_handle split: option.splits Handle.splits bool.splits)

lemma close_handle_wf: "serving_wf s \<Longrightarrow> serving_wf (snd (close_handle X rid h s))"
  by (auto simp: close_handle_def Let_def serving_wf_def bt_wf_remove dir_wf_heard
      split: option.splits Handle.splits if_splits)

lemma remove_named_wf: "serving_wf s \<Longrightarrow> serving_wf (snd (remove_named X rid n s))"
  by (auto simp: remove_named_def Let_def serving_wf_def dir_wf_def bt_wf_remove split: if_splits)

lemma rename_named_wf:
  assumes "serving_wf s" "rust_str to"
  shows "serving_wf (snd (rename_named X rid from to s))"
  using assms
  by (auto simp: rename_named_def Let_def serving_wf_def dir_wf_def bt_contains_def
      bt_wf_insert bt_wf_remove split: option.splits if_splits)

text \<open>The errors a request returns: a reader's, or one the code names.\<close>

definition request_error :: "ext \<Rightarrow> transport_error \<Rightarrow> bool" where
  "request_error X e \<longleftrightarrow> (\<exists>m. e = ProtocolError m)
     \<or> (\<exists>r. r_u32_be X r = Inl e \<or> r_u64_be X r = Inl e \<or> r_string X r = Inl e)"

lemma utf8_Inl: "utf8 b = Inl e \<Longrightarrow> \<exists>m. e = ProtocolError m"
  by (auto simp: utf8_def split: option.splits)

lemma request_errorI:
  "r_u32_be X r = Inl e \<Longrightarrow> request_error X e"
  "r_u64_be X r = Inl e \<Longrightarrow> request_error X e"
  "r_string X r = Inl e \<Longrightarrow> request_error X e"
  "utf8 b = Inl e \<Longrightarrow> request_error X e"
  "request_error X (ProtocolError m)"
  by (auto simp: request_error_def dest: utf8_Inl)

text \<open>
  A property of every request: it holds of an error that changed nothing, and of what each
  kind of request does once it is read.
\<close>

lemma answer_rule:
  assumes error: "\<And>e. request_error X e \<Longrightarrow> Q (Inl e, s)"
    and init: "Q (on_init X s)"
    and open_file: "\<And>rid n flags r1 r2 r3. kind = OPEN \<Longrightarrow> r_u32_be X body = Inr (rid, r1) \<Longrightarrow>
      r_string X r1 = Inr (as_bytes n, r2) \<Longrightarrow> r_u32_be X r2 = Inr (flags, r3) \<Longrightarrow> rust_str n \<Longrightarrow>
      Q (open_named X now rid n flags s)"
    and writing: "\<And>rid h off data. rust_str h \<Longrightarrow> Q (write_at X now rid h off data s)"
    and reading: "\<And>rid h off want. rust_str h \<Longrightarrow> off \<le> usize_max \<Longrightarrow> Q (read_from X rid h off want s)"
    and opening_dir: "\<And>rid. Q (open_dir X rid s)"
    and listing: "\<And>rid h. rust_str h \<Longrightarrow> Q (list_dir X rid h s)"
    and closing: "\<And>rid h. rust_str h \<Longrightarrow> Q (close_handle X rid h s)"
    and removing: "\<And>rid n r1 r2. kind = REMOVE \<Longrightarrow> r_u32_be X body = Inr (rid, r1) \<Longrightarrow>
      r_string X r1 = Inr (as_bytes n, r2) \<Longrightarrow> rust_str n \<Longrightarrow> Q (remove_named X rid n s)"
    and renaming: "\<And>rid f t r1 r2 r3. kind = RENAME \<Longrightarrow> r_u32_be X body = Inr (rid, r1) \<Longrightarrow>
      r_string X r1 = Inr (as_bytes f, r2) \<Longrightarrow> r_string X r2 = Inr (as_bytes t, r3) \<Longrightarrow>
      rust_str f \<Longrightarrow> rust_str t \<Longrightarrow> Q (rename_named X rid f t s)"
    and stating: "\<And>rid n. rust_str n \<Longrightarrow> Q (stat_named X rid n s)"
  shows "Q (answer X now kind body s)"
proof -
  have on_open: "Q (on_open X now body s)" if "kind = OPEN"
    using that unfolding on_open_def by (intro attempt_rules [where Q = Q] error) (auto intro: assms request_errorI)
  have on_write: "Q (on_write X now body s)"
    unfolding on_write_def by (intro attempt_rules [where Q = Q] error) (auto intro: assms request_errorI)
  have on_read: "Q (on_read X body s)"
    unfolding on_read_def by (intro attempt_rules [where Q = Q] error) (auto intro: assms request_errorI)
  have on_opendir: "Q (on_opendir X body s)"
    unfolding on_opendir_def by (intro attempt_rules [where Q = Q] error) (auto intro: assms request_errorI)
  have on_readdir: "Q (on_readdir X body s)"
    unfolding on_readdir_def by (intro attempt_rules [where Q = Q] error) (auto intro: assms request_errorI)
  have on_close: "Q (on_close X body s)"
    unfolding on_close_def by (intro attempt_rules [where Q = Q] error) (auto intro: assms request_errorI)
  have on_remove: "Q (on_remove X body s)" if "kind = REMOVE"
    using that unfolding on_remove_def by (intro attempt_rules [where Q = Q] error) (auto intro: assms request_errorI)
  have on_rename: "Q (on_rename X body s)" if "kind = RENAME"
    using that unfolding on_rename_def by (intro attempt_rules [where Q = Q] error) (auto intro: assms request_errorI)
  have on_stat: "Q (on_stat X body s)"
    unfolding on_stat_def by (intro attempt_rules [where Q = Q] error) (auto intro: assms request_errorI)
  show ?thesis
    unfolding answer_def
    using error [OF request_errorI(5)] init on_open on_write on_read on_opendir on_readdir on_close on_remove on_rename on_stat
    by simp
qed

lemma answer_wf: "serving_wf s \<Longrightarrow> serving_wf (snd (answer X now kind body s))"
  by (rule answer_rule)
    (auto simp: on_init_def intro: open_named_wf write_at_wf open_dir_wf list_dir_wf
      close_handle_wf remove_named_wf rename_named_wf)

section \<open>What a write leaves\<close>

text \<open>
  The file after a write at an offset: padded with zeros up to the offset, the data, then
  what lay beyond it.
\<close>

definition overwrite :: "bytes \<Rightarrow> usize \<Rightarrow> bytes \<Rightarrow> bytes" where
  "overwrite b off d = take off (b @ replicate (off - length b) 0) @ d @ drop (off + length d) b"

lemma length_overwrite: "length (overwrite b off d) = max (length b) (off + length d)"
  by (auto simp: overwrite_def max_def)

lemma overwrite_append: "overwrite b (length b) d = b @ d"
  by (simp add: overwrite_def)

lemma copy_into_resized:
  "copy_into (if length b < off + length d then resize b (off + length d) 0 else b)
     off (off + length d) d = Some (overwrite b off d)"
proof (cases "length b < off + length d")
  case True
  have "take off (b @ replicate (off + length d - length b) 0)
      = take off (b @ replicate (off - length b) (0 :: u8))"
    by (cases "off \<le> length b") (simp_all add: take_replicate min_def)
  with True show ?thesis by (simp add: copy_into_def resize_def overwrite_def)
next
  case False
  then show ?thesis by (simp add: copy_into_def overwrite_def)
qed

context limits
begin

lemma ceiling_end:
  "ceiling_within X (usize_saturating_add off n) (MAX_BODY X) what = Inr u \<longleftrightarrow> off + n \<le> MAX_BODY X"
  using max_body by (auto simp: ceiling usize_saturating_add_def)

lemma saturating_end: "off + n \<le> MAX_BODY X \<Longrightarrow> usize_saturating_add off n = off + n"
  using max_body by (simp add: usize_saturating_add_def)

text \<open>A write under the ceiling is carried out: the slice is always in range.\<close>

lemma write_at_accepts:
  assumes "bt_get (handles s) h = Some (WriteHandle n)" "off + length data \<le> MAX_BODY X"
  shows "write_at X now rid h off data s =
    (Inr (status X rid OK ''written''),
     s\<lparr>dir := touch now n ((dir s)\<lparr>files := bt_insert n
        (overwrite (case bt_get (files (dir s)) n of Some b \<Rightarrow> b | None \<Rightarrow> []) off data)
        (files (dir s))\<rparr>)\<rparr>)"
proof -
  have "ceiling_within X (off + length data) (MAX_BODY X) ''Xmip holds of one file'' = Inr ()"
    using ceiling_end [of off "length data" "''Xmip holds of one file''" "()"] assms(2)
    by (simp add: saturating_end)
  with assms show ?thesis
    by (simp add: write_at_def Let_def saturating_end copy_into_resized)
qed

lemma write_at_refuses:
  assumes "bt_get (handles s) h = Some (WriteHandle n)" "\<not> off + length data \<le> MAX_BODY X"
  obtains msg where "write_at X now rid h off data s = (Inr (status X rid FAILURE msg), s)"
    and "length msg \<le> 1100"
proof (cases "ceiling_within X (usize_saturating_add off (length data)) (MAX_BODY X) ''Xmip holds of one file''")
  case (Inl msg)
  then have "length msg \<le> 1100" using ceiling_message [OF Inl] by simp
  with Inl assms that show ?thesis by (simp add: write_at_def Let_def)
next
  case (Inr u)
  with ceiling_end assms show ?thesis by blast
qed

lemma write_at_other:
  assumes "\<And>n. bt_get (handles s) h \<noteq> Some (WriteHandle n)"
  shows "write_at X now rid h off data s =
    (Inr (status X rid FAILURE ''a write to a handle not open for writing''), s)"
  using assms by (auto simp: write_at_def split: option.splits Handle.splits)

lemma write_at_cases:
  obtains (accepted) n where "bt_get (handles s) h = Some (WriteHandle n)"
      "off + length data \<le> MAX_BODY X"
      "write_at X now rid h off data s =
        (Inr (status X rid OK ''written''),
         s\<lparr>dir := touch now n ((dir s)\<lparr>files := bt_insert n
            (overwrite (case bt_get (files (dir s)) n of Some b \<Rightarrow> b | None \<Rightarrow> []) off data)
            (files (dir s))\<rparr>)\<rparr>)"
  | (refused) msg where "write_at X now rid h off data s = (Inr (status X rid FAILURE msg), s)"
      "\<forall>n. bt_get (handles s) h = Some (WriteHandle n) \<longrightarrow> MAX_BODY X < off + length data"
      "length msg \<le> 1100"
proof (cases "\<exists>n. bt_get (handles s) h = Some (WriteHandle n)")
  case True
  then obtain n where n: "bt_get (handles s) h = Some (WriteHandle n)" by blast
  show ?thesis
  proof (cases "off + length data \<le> MAX_BODY X")
    case True
    with n show ?thesis using accepted write_at_accepts by blast
  next
    case False
    with n obtain msg where "write_at X now rid h off data s = (Inr (status X rid FAILURE msg), s)"
      "length msg \<le> 1100" by (rule write_at_refuses)
    with False show ?thesis using refused by simp
  qed
next
  case False
  then show ?thesis using refused write_at_other by simp
qed

lemma write_at_bounded:
  assumes "dir_bounded X (dir s)"
  shows "dir_bounded X (dir (snd (write_at X now rid h off data s)))"
proof (cases rule: write_at_cases [of s h off data now rid])
  case (accepted n)
  have "length (case bt_get (files (dir s)) n of Some b \<Rightarrow> b | None \<Rightarrow> []) \<le> MAX_BODY X"
    using assms by (auto simp: dir_bounded_def split: option.splits)
  with accepted assms show ?thesis
    by (auto simp: dir_bounded_def length_overwrite)
next
  case refused
  with assms show ?thesis by simp
qed

lemma answer_bounded:
  assumes "dir_bounded X (dir s)"
  shows "dir_bounded X (dir (snd (answer X now kind body s)))"
proof (rule answer_rule)
  fix rid n flags
  show "dir_bounded X (dir (snd (open_named X now rid n flags s)))"
    using assms by (auto simp: open_named_def Let_def dir_bounded_def)
next
  fix rid h off data
  show "dir_bounded X (dir (snd (write_at X now rid h off data s)))"
    using assms by (rule write_at_bounded)
next
  fix rid h
  show "dir_bounded X (dir (snd (list_dir X rid h s)))"
    "dir_bounded X (dir (snd (close_handle X rid h s)))"
    using assms
    by (auto simp: list_dir_def close_handle_def Let_def dir_bounded_def
        split: option.splits Handle.splits bool.splits)
next
  fix rid f t n
  show "dir_bounded X (dir (snd (remove_named X rid n s)))"
    "dir_bounded X (dir (snd (rename_named X rid f t s)))"
    using assms
    by (auto simp: remove_named_def rename_named_def Let_def dir_bounded_def
        split: option.splits if_splits)
qed (use assms in \<open>auto simp: on_init_def open_dir_def Let_def\<close>)

text \<open>No request panics, and one that returns an error changed nothing.\<close>

lemma answer_error:
  assumes "fst (answer X now kind body s) = Inl e"
  shows "snd (answer X now kind body s) = s"
proof -
  have "\<forall>e. fst (answer X now kind body s) = Inl e \<longrightarrow> snd (answer X now kind body s) = s"
  proof (rule answer_rule [where Q = "\<lambda>p. \<forall>e. fst p = Inl e \<longrightarrow> snd p = s"])
    fix rid h off data
    show "\<forall>e. fst (write_at X now rid h off data s) = Inl e \<longrightarrow>
        snd (write_at X now rid h off data s) = s"
      by (cases rule: write_at_cases [of s h off data now rid]) auto
  qed (auto simp: on_init_def open_named_def open_dir_def list_dir_def close_handle_def
      remove_named_def rename_named_def Let_def split: option.splits Handle.splits bool.splits if_splits)
  then show ?thesis using assms by blast
qed

lemma request_error_no_panic: "request_error X e \<Longrightarrow> e \<noteq> Panic"
  using r_no_panic by (auto simp: request_error_def)

lemma answer_no_panic: "fst (answer X now kind body s) \<noteq> Inl Panic"
proof (rule answer_rule [where Q = "\<lambda>p. fst p \<noteq> Inl Panic"])
  fix rid h off data
  show "fst (write_at X now rid h off data s) \<noteq> Inl Panic"
    by (cases rule: write_at_cases [of s h off data now rid]) auto
next
  fix rid h off want
  assume "off \<le> usize_max"
  then show "fst (read_from X rid h off want s) \<noteq> Inl Panic"
    by (auto simp: read_from_def Let_def slice_read not_le split: option.splits Handle.splits)
qed (auto simp: on_init_def open_named_def open_dir_def list_dir_def close_handle_def
    stat_named_def remove_named_def rename_named_def Let_def dest: request_error_no_panic
    split: option.splits Handle.splits bool.splits if_splits)

end

section \<open>Times\<close>

text \<open>Every write is later than all before it, until the 32-bit clock is full.\<close>

lemma touch_later:
  assumes "dir_wf d" "newest d < u32_max"
  shows "modified d m < modified (touch now n d) n"
proof -
  have "modified d m \<le> newest d" using assms(1) by (rule modified_le_newest)
  also have "\<dots> < u32_saturating_add (newest d) 1" using assms(2) by (rule u32_saturating_add_gt)
  also have "\<dots> \<le> modified (touch now n d) n" by (simp add: touch_def Let_def modified_def)
  finally show ?thesis .
qed

lemma touch_full: "newest d = u32_max \<Longrightarrow> modified (touch now n d) n = u32_max"
  using u32_le_max [of "clock_u32 now"] by (simp add: touch_def Let_def modified_def max_def)

lemma answer_newest: "newest (dir s) \<le> newest (dir (snd (answer X now kind body s)))"
proof (rule answer_rule [where Q = "\<lambda>p. newest (dir s) \<le> newest (dir (snd p))"])
  fix rid n flags
  show "newest (dir s) \<le> newest (dir (snd (open_named X now rid n flags s)))"
    using newest_touch [of "dir s" now n]
      newest_touch [of "(dir s)\<lparr>files := bt_insert n [] (files (dir s))\<rparr>" now n]
    by (auto simp: open_named_def Let_def)
next
  fix rid h off data
  show "newest (dir s) \<le> newest (dir (snd (write_at X now rid h off data s)))"
    using newest_touch [of "(dir s)\<lparr>files := fs\<rparr>" now n for fs n]
    by (auto simp: write_at_def Let_def split: option.splits Handle.splits sum.splits)
qed (auto simp: on_init_def open_dir_def list_dir_def close_handle_def remove_named_def
    rename_named_def Let_def split: option.splits Handle.splits bool.splits if_splits)

section \<open>Fresh handles\<close>

text \<open>Every handle in the table was made from a counter below the present one.\<close>

definition made_below :: "nat \<Rightarrow> string \<Rightarrow> bool" where
  "made_below n h \<longleftrightarrow> (\<exists>i < n. h = ''h'' @ decimal i \<or> h = ''d'' @ decimal i)"

definition handles_fresh :: "Serving \<Rightarrow> bool" where
  "handles_fresh s \<longleftrightarrow> (\<forall>h \<in> dom (bt_get (handles s)). made_below (unat (next_handle s)) h)"

lemma made_below_mono: "made_below m h \<Longrightarrow> m \<le> n \<Longrightarrow> made_below n h"
  by (auto simp: made_below_def)

lemma made_below_Suc: "made_below (Suc n) (''h'' @ decimal n)" "made_below (Suc n) (''d'' @ decimal n)"
  by (auto simp: made_below_def)

lemma not_made_below: "\<not> made_below n (''h'' @ decimal n)" "\<not> made_below n (''d'' @ decimal n)"
  by (auto simp: made_below_def)

lemma handles_freshD: "handles_fresh s \<Longrightarrow> bt_get (handles s) h = Some v \<Longrightarrow>
    made_below (unat (next_handle s)) h"
  by (auto simp: handles_fresh_def)

lemma unat_next: "next_handle s + 1 \<noteq> 0 \<Longrightarrow> unat (next_handle s + 1) = Suc (unat (next_handle s))"
  using unatSuc [of "next_handle s"] by (simp add: add.commute)

lemma handles_fresh_unused:
  assumes "handles_fresh s"
  shows "bt_get (handles s) (''h'' @ decimal (unat (next_handle s))) = None"
    "bt_get (handles s) (''d'' @ decimal (unat (next_handle s))) = None"
  using handles_freshD [OF assms] not_made_below by (meson not_None_eq)+

lemma handles_fresh_insert:
  assumes "handles_fresh s" "next_handle s + 1 \<noteq> 0" "handles s' = bt_insert h v (handles s)"
    "next_handle s' = next_handle s + 1" "made_below (Suc (unat (next_handle s))) h"
  shows "handles_fresh s'"
proof -
  have "made_below (Suc (unat (next_handle s))) g" if "g \<in> dom (bt_get (handles s))" for g
    using assms(1) that by (auto intro: made_below_mono [OF handles_freshD])
  then show ?thesis
    using assms(3-5) unat_next [OF assms(2)] by (auto simp: handles_fresh_def)
qed

lemma handles_fresh_skip:
  assumes "handles_fresh s" "next_handle s + 1 \<noteq> 0" "handles s' = handles s"
    "next_handle s' = next_handle s + 1"
  shows "handles_fresh s'"
  using assms(3,4) unat_next [OF assms(2)] made_below_mono [OF handles_freshD [OF assms(1)]]
  by (auto simp: handles_fresh_def)

lemma handles_fresh_same:
  assumes "handles_fresh s" "\<And>h v. bt_get (handles s') h = Some v \<Longrightarrow> bt_get (handles s) h \<noteq> None"
    "next_handle s' = next_handle s"
  shows "handles_fresh s'"
  using assms by (metis (no_types, lifting) domIff handles_fresh_def not_None_eq)

lemma answer_fresh:
  assumes "handles_fresh s" "next_handle s + 1 \<noteq> 0"
  shows "handles_fresh (snd (answer X now kind body s))"
proof (rule answer_rule [where Q = "\<lambda>p. handles_fresh (snd p)"])
  fix rid n flags
  show "handles_fresh (snd (open_named X now rid n flags s))"
    by (auto simp: open_named_def Let_def intro: handles_fresh_skip [OF assms]
        handles_fresh_insert [OF assms] made_below_Suc [simplified])
next
  fix rid h off data
  show "handles_fresh (snd (write_at X now rid h off data s))"
    using assms(1)
    by (auto simp: write_at_def Let_def intro: handles_fresh_same
        split: option.splits Handle.splits sum.splits)
next
  fix rid
  show "handles_fresh (snd (open_dir X rid s))"
    by (auto simp: open_dir_def Let_def intro: handles_fresh_insert [OF assms]
        made_below_Suc [simplified])
next
  fix rid h
  show "handles_fresh (snd (list_dir X rid h s))"
    "handles_fresh (snd (close_handle X rid h s))"
    by (auto simp: list_dir_def close_handle_def Let_def intro!: handles_fresh_same [OF assms(1)]
        split: option.splits Handle.splits bool.splits if_splits)
next
  fix rid f t n
  show "handles_fresh (snd (remove_named X rid n s))"
    "handles_fresh (snd (rename_named X rid f t s))"
    by (auto simp: remove_named_def rename_named_def Let_def intro!: handles_fresh_same [OF assms(1)]
        split: option.splits)
qed (use assms in \<open>auto simp: on_init_def\<close>)

section \<open>The loop against a client that closes\<close>

text \<open>
  The channel hands over the frames \<open>ps\<close> in order, takes every reply, and then the client
  closes it, which leaves it as \<open>Q\<close> says. \<open>serve_all\<close> is the reference: the requests one by
  one, up to the first error.
\<close>

primrec feeds :: "'c channel \<Rightarrow> ('c \<Rightarrow> bool) \<Rightarrow> 'c \<Rightarrow> bytes list \<Rightarrow> bool" where
  "feeds K Q c [] \<longleftrightarrow> fst (ch_read_frame K c) = Inr None \<and> Q (snd (ch_read_frame K c))"
| "feeds K Q c (p # ps) \<longleftrightarrow> fst (ch_read_frame K c) = Inr (Some p)
     \<and> (\<forall>reply. case ch_write K (snd (ch_read_frame K c)) reply of (w, c') \<Rightarrow> w = Inr () \<and> feeds K Q c' ps)"

primrec serve_all :: "ext \<Rightarrow> (nat \<Rightarrow> int) \<Rightarrow> nat \<Rightarrow> bytes list \<Rightarrow> Serving \<Rightarrow> (transport_error + unit) \<times> Serving" where
  "serve_all X clock n [] s = (Inr (), s)"
| "serve_all X clock n (p # ps) s = (case serve_request X (clock n) p s of
     (Inl e, s) \<Rightarrow> (Inl e, s)
   | (Inr _, s) \<Rightarrow> serve_all X clock (Suc n) ps s)"

lemma serve_loop_feeds:
  "feeds K Q c ps \<Longrightarrow> \<exists>c'. serve_loop X K clock n c s =
     Some (fst (serve_all X clock n ps s), c', snd (serve_all X clock n ps s))
     \<and> (fst (serve_all X clock n ps s) = Inr () \<longrightarrow> Q c')"
proof (induction ps arbitrary: n c s)
  case Nil
  then show ?case by (auto simp: serve_loop.simps [of X K clock n c s] split: prod.splits)
next
  case (Cons p ps)
  obtain c1 where c1: "ch_read_frame K c = (Inr (Some p), c1)"
    using Cons.prems by (cases "ch_read_frame K c") auto
  obtain v s1 where v: "serve_request X (clock n) p s = (v, s1)" by fastforce
  show ?case
  proof (cases v)
    case (Inl e)
    with c1 v show ?thesis by (simp add: serve_loop.simps [of X K clock n c s])
  next
    case (Inr reply)
    have "case ch_write K c1 reply of (w, c') \<Rightarrow> w = Inr () \<and> feeds K Q c' ps"
      using Cons.prems c1 by (simp only: feeds.simps fst_conv snd_conv)
    then obtain c2 where c2: "ch_write K c1 reply = (Inr (), c2)" "feeds K Q c2 ps"
      by (auto split: prod.splits)
    then obtain c' where "serve_loop X K clock (Suc n) c2 s1 =
        Some (fst (serve_all X clock (Suc n) ps s1), c', snd (serve_all X clock (Suc n) ps s1))"
      "fst (serve_all X clock (Suc n) ps s1) = Inr () \<longrightarrow> Q c'"
      using Cons.IH by blast
    with Inr c1 c2 v show ?thesis by (simp add: serve_loop.simps [of X K clock n c s])
  qed
qed

lemma serve_request_wf: "serving_wf s \<Longrightarrow> serving_wf (snd (serve_request X now p s))"
  by (cases p) (simp_all add: serve_request_def answer_wf)

lemma serve_request_bounded:
  "limits X \<Longrightarrow> dir_bounded X (dir s) \<Longrightarrow> dir_bounded X (dir (snd (serve_request X now p s)))"
  by (cases p) (simp_all add: serve_request_def limits.answer_bounded)

text \<open>Whatever the channel does, the loop keeps what every request keeps.\<close>

lemma serve_loop_invariant:
  assumes "serve_loop X K clock n c s = Some (r, c', s')" "I s"
    and "\<And>now p s. I s \<Longrightarrow> I (snd (serve_request X now p s))"
  shows "I s'"
proof -
  have "(\<forall>now p s. I s \<longrightarrow> I (snd (serve_request X now p s))) \<longrightarrow> I s \<longrightarrow> I (snd (snd (r, c', s')))"
  proof (rule serve_loop.raw_induct [where P = "\<lambda>X K clock n c s y.
      (\<forall>now p s. I s \<longrightarrow> I (snd (serve_request X now p s))) \<longrightarrow> I s \<longrightarrow> I (snd (snd y))", OF _ assms(1)])
    fix loop :: "ext \<Rightarrow> 'a channel \<Rightarrow> (nat \<Rightarrow> int) \<Rightarrow> nat \<Rightarrow> 'a \<Rightarrow> Serving \<Rightarrow> ((transport_error + unit) \<times> 'a \<times> Serving) option"
      and X :: ext and K :: "'a channel" and clock n c s y
    assume IH: "\<And>X K clock n c s y. loop X K clock n c s = Some y \<Longrightarrow>
        (\<forall>now p s. I s \<longrightarrow> I (snd (serve_request X now p s))) \<longrightarrow> I s \<longrightarrow> I (snd (snd y))"
      and run: "(case ch_read_frame K c of (r, c) \<Rightarrow> case r of
          Inl e \<Rightarrow> Some (Inl e, c, s)
        | Inr None \<Rightarrow> Some (Inr (), c, s)
        | Inr (Some body) \<Rightarrow> (case serve_request X (clock n) body s of (v, s) \<Rightarrow> (case v of
            Inl e \<Rightarrow> Some (Inl e, c, s)
          | Inr reply \<Rightarrow> (case ch_write K c reply of (w, c) \<Rightarrow> (case w of
              Inl e \<Rightarrow> Some (Inl e, c, s) | Inr _ \<Rightarrow> loop X K clock (Suc n) c s))))) = Some y"
    show "(\<forall>now p s. I s \<longrightarrow> I (snd (serve_request X now p s))) \<longrightarrow> I s \<longrightarrow> I (snd (snd y))"
      using run by (auto split: prod.splits sum.splits option.splits dest: IH)
        (metis IH snd_conv)+
  qed
  then show ?thesis using assms(2,3) by simp
qed

lemma serve_all_wf: "serving_wf s \<Longrightarrow> serving_wf (snd (serve_all X clock n ps s))"
proof (induction ps arbitrary: n s)
  case (Cons p ps)
  with Cons.IH serve_request_wf [OF Cons.prems, of X "clock n" p] show ?case
    by (auto split: prod.splits sum.splits)
qed simp

section \<open>A sample far end\<close>

definition sample :: Serving where
  "sample = \<lparr>dir = directory_new [(''a'', [1, 2])], handles = [], next_handle = 0\<rparr>"

lemma sample_simps [simp]:
  "files (dir sample) = [(''a'', [1, 2])]" "written (dir sample) = []" "newest (dir sample) = 0"
  "told (dir sample) = False" "heard (dir sample) = []" "handles sample = []" "next_handle sample = 0"
  by (simp_all add: sample_def directory_new_def)

lemma rust_str_a [simp]: "rust_str ''a''"
  by (rule rust_str_ascii) simp

lemma sample_wf: "serving_wf sample"
  by (simp add: serving_wf_def dir_wf_def bt_wf_def)

lemma sample_bounded: "dir_bounded std_ext (dir sample)"
  by (simp add: dir_bounded_def rfc4251_def)

section \<open>Properties\<close>

text \<open>
  C18. Whatever the request, of any type and any bytes, the far end's state stays well formed:
  the maps ordered, every time at most the newest and of a file that exists, every name and
  handle a string.
\<close>

theorem answer_keeps_wf:
  assumes "serving_wf s"
  shows "serving_wf (snd (answer X now kind body s))"
  using assms by (rule answer_wf)

theorem answer_keeps_wf_witness:
  "serving_wf (snd (answer std_ext 5 OPEN [1, 2, 3] sample))"
  by (rule answer_keeps_wf) (rule sample_wf)

text \<open>
  C19. No file of the directory ever grows past \<open>MAX_BODY\<close>: the ceiling holds after any request
  if it held before.
\<close>

theorem files_stay_bounded:
  assumes "limits X" "dir_bounded X (dir s)"
  shows "dir_bounded X (dir (snd (answer X now kind body s)))"
  using assms by (rule limits.answer_bounded)

theorem files_stay_bounded_witness:
  "dir_bounded std_ext (dir (snd (answer std_ext 5 WRITE [0, 0, 0, 1] sample)))"
  by (rule files_stay_bounded) (rule rfc_limits.limits_axioms, rule sample_bounded)

text \<open>
  C20. No request, well formed or not, makes the far end panic (the slice a write copies into
  and the slice a read is answered with are always in range), and one that is answered by an
  error left the state as it was.
\<close>

theorem requests_never_panic:
  assumes "limits X"
  shows "fst (answer X now kind body s) \<noteq> Inl Panic
    \<and> (\<forall>e. fst (answer X now kind body s) = Inl e \<longrightarrow> snd (answer X now kind body s) = s)"
  using limits.answer_no_panic [OF assms] limits.answer_error [OF assms] by blast

theorem requests_never_panic_witness:
  "\<exists>e. fst (answer std_ext 0 9 [1] sample) = Inl e \<and> e \<noteq> Panic \<and> snd (answer std_ext 0 9 [1] sample) = sample"
proof -
  have e: "fst (answer std_ext 0 9 [1] sample) = Inl (ProtocolError (''an SFTP request of type '' @ decimal 9))"
    by (simp add: answer_def packet_types)
  with requests_never_panic [OF rfc_limits.limits_axioms, of 0 9 "[1]" sample] show ?thesis by simp
qed

text \<open>
  C29. A write is stamped later than everything in the directory, even where the clock stands
  still or goes back, until the 32-bit time is full.
\<close>

theorem touch_is_later:
  assumes "dir_wf d" "newest d < u32_max"
  shows "modified d m < modified (touch now n d) n"
  using assms by (rule touch_later)

theorem touch_is_later_witness:
  "modified (touch 9 ''a'' (dir sample)) ''a'' < modified (touch 3 ''b'' (touch 9 ''a'' (dir sample))) ''b''"
proof (rule touch_is_later)
  show "dir_wf (touch 9 ''a'' (dir sample))"
    using sample_wf by (intro dir_wf_touch) (simp_all add: serving_wf_def)
  show "newest (touch 9 ''a'' (dir sample)) < u32_max"
    by (simp add: touch_def Let_def clock_u32_def u32_saturating_add_def u32_max_def)
qed

text \<open>
  At the end of the 32-bit time the promise of \<open>touch\<close> ends: a write then is stamped as
  the one before it, so that two writes cannot be told apart.
\<close>

lemma touch_saturates:
  assumes "newest d = u32_max" "modified d m = u32_max"
  shows "modified (touch now n d) n = modified d m"
  using assms touch_full by simp

text \<open>
  C27. The loop of a channel whose client sends finitely many frames and closes it returns, and
  leaves exactly what serving the frames one by one in order leaves, with the error of the
  first that failed; the state is well formed.
\<close>

theorem serve_loop_serves:
  assumes "feeds K Q c ps" "serving_wf s"
  shows "\<exists>c' s'. serve_loop X K clock n c s = Some (fst (serve_all X clock n ps s), c', s')
    \<and> s' = snd (serve_all X clock n ps s) \<and> serving_wf s' \<and> (fst (serve_all X clock n ps s) = Inr () \<longrightarrow> Q c')"
proof -
  obtain c' where "serve_loop X K clock n c s = Some (fst (serve_all X clock n ps s), c', snd (serve_all X clock n ps s))"
      "fst (serve_all X clock n ps s) = Inr () \<longrightarrow> Q c'"
    using serve_loop_feeds [OF assms(1)] by blast
  then show ?thesis using serve_all_wf [OF assms(2)] by simp
qed

text \<open>A channel that is a list of frames still to come.\<close>

definition script :: "bytes list channel" where
  "script = \<lparr>ch_write = (\<lambda>c b. (Inr (), c)), ch_read_exact = (\<lambda>c n. (Inl (Foreign ''frames only''), c)),
     ch_read_frame = (\<lambda>c. case c of [] \<Rightarrow> (Inr None, []) | p # ps \<Rightarrow> (Inr (Some p), ps))\<rparr>"

theorem serve_loop_serves_witness:
  "\<exists>c' s'. serve_loop std_ext script (\<lambda>_. 0) 0 [[INIT], [STAT, 1]] sample =
     Some (fst (serve_all std_ext (\<lambda>_. 0) 0 [[INIT], [STAT, 1]] sample), c', s')
   \<and> s' = snd (serve_all std_ext (\<lambda>_. 0) 0 [[INIT], [STAT, 1]] sample) \<and> serving_wf s'"
proof -
  have "feeds script (\<lambda>c. c = []) [[INIT], [STAT, 1]] [[INIT], [STAT, 1]]" by (simp add: script_def)
  from serve_loop_serves [OF this sample_wf, of std_ext "\<lambda>_. 0" 0]
  show ?thesis by (elim exE conjE) (intro exI conjI; assumption)
qed

text \<open>
  A handle outlives its file's name: after the file is removed, a WRITE through the handle
  still open makes a file of that name again, zeros up to the offset, and is answered as
  written.
\<close>

lemma write_after_remove_recreates:
  assumes "limits X" "bt_get (handles s) h = Some (WriteHandle n)" "off + length data \<le> MAX_BODY X"
  shows "fst (write_at X now rid h off data (snd (remove_named X rid' n s))) = Inr (status X rid OK ''written'')
    \<and> bt_get (files (dir (snd (write_at X now rid h off data (snd (remove_named X rid' n s)))))) n
      = Some (replicate off 0 @ data)"
proof -
  let ?s = "snd (remove_named X rid' n s)"
  have "bt_get (handles ?s) h = Some (WriteHandle n)" "bt_get (files (dir ?s)) n = None"
    using assms(2) by (simp_all add: remove_named_def Let_def)
  then show ?thesis
    using limits.write_at_accepts [OF assms(1) _ assms(3), of ?s h n now rid] by (simp add: overwrite_def)
qed

end
