(* ===== verification/Directory_Spec.thy ===== *)
theory Directory_Spec
  imports Directory
begin

unbundle bit_operations_syntax

text \<open>
  What the far end promises: typed requests and replies with their encodings, an abstract far
  end (a map of names to contents and times, a map of open handles), one step per request,
  and the refinement lemma that the byte-level \<open>answer\<close> implements it.
\<close>

section \<open>Requests and replies\<close>

datatype request =
    Init
  | Open u32 string u32
  | Write u32 string u64 bytes
  | Read u32 string u64 u32
  | Opendir u32 bytes
  | Readdir u32 string
  | Close u32 string
  | Remove u32 string
  | Rename u32 string string
  | Stat u32 string

abbreviation str :: "string \<Rightarrow> bytes" where
  "str s \<equiv> ssh_string (as_bytes s)"

fun request_kind :: "request \<Rightarrow> u8" where
  "request_kind Init = INIT"
| "request_kind (Open _ _ _) = OPEN"
| "request_kind (Write _ _ _ _) = WRITE"
| "request_kind (Read _ _ _ _) = READ"
| "request_kind (Opendir _ _) = OPENDIR"
| "request_kind (Readdir _ _) = READDIR"
| "request_kind (Close _ _) = CLOSE"
| "request_kind (Remove _ _) = REMOVE"
| "request_kind (Rename _ _ _) = RENAME"
| "request_kind (Stat _ _) = STAT"

fun request_body :: "request \<Rightarrow> bytes" where
  "request_body Init = to_be32 PROTOCOL"
| "request_body (Open rid n flags) = to_be32 rid @ str n @ to_be32 flags @ to_be32 0"
| "request_body (Write rid h off d) = to_be32 rid @ str h @ to_be64 off @ ssh_string d"
| "request_body (Read rid h off want) = to_be32 rid @ str h @ to_be64 off @ to_be32 want"
| "request_body (Opendir rid p) = to_be32 rid @ ssh_string p"
| "request_body (Readdir rid h) = to_be32 rid @ str h"
| "request_body (Close rid h) = to_be32 rid @ str h"
| "request_body (Remove rid n) = to_be32 rid @ str n"
| "request_body (Rename rid f t) = to_be32 rid @ str f @ str t"
| "request_body (Stat rid n) = to_be32 rid @ str n"

text \<open>A name, handle or path a request can carry; a read asks for less than a packet.\<close>

definition name_ok :: "string \<Rightarrow> bool" where
  "name_ok n \<longleftrightarrow> rust_str n \<and> length n < 2 ^ 30"

fun request_ok :: "request \<Rightarrow> bool" where
  "request_ok Init = True"
| "request_ok (Open _ n _) = name_ok n"
| "request_ok (Write _ h _ d) = (name_ok h \<and> length d < 2 ^ 30)"
| "request_ok (Read _ h _ want) = (name_ok h \<and> unat want < 2 ^ 30)"
| "request_ok (Opendir _ p) = (length p < 2 ^ 30)"
| "request_ok (Readdir _ h) = name_ok h"
| "request_ok (Close _ h) = name_ok h"
| "request_ok (Remove _ n) = name_ok n"
| "request_ok (Rename _ f t) = (name_ok f \<and> name_ok t)"
| "request_ok (Stat _ n) = name_ok n"

datatype reply =
    VersionReply u32
  | HandleReply u32 string
  | DataReply u32 bytes
  | NameReply u32 "(string \<times> Stamp) list"
  | StatusReply u32 u32
  | AttrsReply u32 Stamp

fun reply_kind :: "reply \<Rightarrow> u8" where
  "reply_kind (VersionReply _) = VERSION"
| "reply_kind (HandleReply _ _) = HANDLE"
| "reply_kind (DataReply _ _) = DATA"
| "reply_kind (NameReply _ _) = NAME"
| "reply_kind (StatusReply _ _) = STATUS"
| "reply_kind (AttrsReply _ _) = ATTRS"

definition entry_bytes :: "string \<times> Stamp \<Rightarrow> bytes" where
  "entry_bytes = (\<lambda>(n, st). str n @ str n @ attributes_bytes (stamped st))"

text \<open>The bodies that carry a reply; a status carries a message of any wording.\<close>

fun reply_body :: "reply \<Rightarrow> bytes \<Rightarrow> bool" where
  "reply_body (VersionReply v) b = (b = to_be32 v)"
| "reply_body (HandleReply rid h) b = (b = to_be32 rid @ str h)"
| "reply_body (DataReply rid d) b = (b = to_be32 rid @ ssh_string d)"
| "reply_body (NameReply rid es) b =
     (b = to_be32 rid @ to_be32 (of_nat (length es)) @ concat (map entry_bytes es))"
| "reply_body (StatusReply rid c) b = (\<exists>rest. b = to_be32 rid @ to_be32 c @ rest)"
| "reply_body (AttrsReply rid st) b = (b = to_be32 rid @ attributes_bytes (stamped st))"

definition carries :: "ext \<Rightarrow> bytes \<Rightarrow> reply \<Rightarrow> bool" where
  "carries X packet r \<longleftrightarrow> (\<exists>body. packet = frame X (reply_kind r) body \<and> reply_body r body
     \<and> length body + 1 < 2 ^ 32)"

section \<open>The abstract far end\<close>

record far_end =
  content :: "string \<rightharpoonup> bytes"
  mtime :: "string \<Rightarrow> u32"
  latest :: u32
  opened :: "string \<rightharpoonup> Handle"
  issued :: u64
  announces :: bool
  announced :: "string list"

definition far_end_of :: "Serving \<Rightarrow> far_end" where
  "far_end_of s = \<lparr>content = bt_get (files (dir s)), mtime = modified (dir s),
     latest = newest (dir s), opened = bt_get (handles s), issued = next_handle s,
     announces = told (dir s), announced = heard (dir s)\<rparr>"

text \<open>The time the next write gets: the clock's, but after every time given before.\<close>

definition tick :: "int \<Rightarrow> far_end \<Rightarrow> u32" where
  "tick now f = max (clock_u32 now) (u32_saturating_add (latest f) 1)"

definition write_file :: "int \<Rightarrow> string \<Rightarrow> bytes \<Rightarrow> far_end \<Rightarrow> far_end" where
  "write_file now n b f = f\<lparr>content := (content f)(n \<mapsto> b), latest := tick now f,
     mtime := (mtime f)(n := tick now f)\<rparr>"

definition stamp_of :: "far_end \<Rightarrow> string \<Rightarrow> Stamp" where
  "stamp_of f n = \<lparr>stamp_length = of_nat (length (the (content f n))), stamp_modified = mtime f n\<rparr>"

definition listing_of :: "far_end \<Rightarrow> (string \<times> Stamp) list" where
  "listing_of f = map (\<lambda>n. (n, stamp_of f n)) (sorted_list_of_set (dom (content f)))"

definition listing_size :: "far_end \<Rightarrow> nat" where
  "listing_size f = sum_list (map (\<lambda>n. 2 * length n + 28) (sorted_list_of_set (dom (content f))))"

fun far_step :: "usize \<Rightarrow> int \<Rightarrow> request \<Rightarrow> far_end \<Rightarrow> reply \<times> far_end" where
  "far_step limit now Init f = (VersionReply PROTOCOL, f)"
| "far_step limit now (Open rid n flags) f =
     (let h = ''h'' @ decimal (unat (issued f)); f' = f\<lparr>issued := issued f + 1\<rparr>
      in if flags AND F_WRITE \<noteq> 0 then
           if content f n \<noteq> None \<and> flags AND F_EXCL \<noteq> 0 then (StatusReply rid FAILURE, f')
           else (HandleReply rid h,
             (write_file now n
               (case content f n of Some b \<Rightarrow> if flags AND F_TRUNC \<noteq> 0 then [] else b | None \<Rightarrow> []) f')
               \<lparr>opened := (opened f)(h \<mapsto> WriteHandle n)\<rparr>)
         else if content f n \<noteq> None then
           (HandleReply rid h, f'\<lparr>opened := (opened f)(h \<mapsto> ReadHandle n)\<rparr>)
         else (StatusReply rid NO_SUCH_FILE, f'))"
| "far_step limit now (Write rid h off d) f = (case opened f h of
     Some (WriteHandle n) \<Rightarrow>
       if unat off + length d \<le> limit then
         (StatusReply rid OK,
          write_file now n (overwrite (case content f n of Some b \<Rightarrow> b | None \<Rightarrow> []) (unat off) d) f)
       else (StatusReply rid FAILURE, f)
   | _ \<Rightarrow> (StatusReply rid FAILURE, f))"
| "far_step limit now (Read rid h off want) f = (case opened f h of
     Some (ReadHandle n) \<Rightarrow>
       (let b = (case content f n of Some b \<Rightarrow> b | None \<Rightarrow> [])
        in if unat off < length b then (DataReply rid (take (unat want) (drop (unat off) b)), f)
           else (StatusReply rid EOF, f))
   | _ \<Rightarrow> (StatusReply rid FAILURE, f))"
| "far_step limit now (Opendir rid p) f =
     (let h = ''d'' @ decimal (unat (issued f))
      in (HandleReply rid h,
          f\<lparr>issued := issued f + 1, opened := (opened f)(h \<mapsto> DirHandle False)\<rparr>))"
| "far_step limit now (Readdir rid h) f = (case opened f h of
     Some (DirHandle False) \<Rightarrow>
       (NameReply rid (listing_of f), f\<lparr>opened := (opened f)(h \<mapsto> DirHandle True)\<rparr>)
   | Some (DirHandle True) \<Rightarrow> (StatusReply rid EOF, f)
   | _ \<Rightarrow> (StatusReply rid FAILURE, f))"
| "far_step limit now (Close rid h) f =
     (StatusReply rid OK,
      f\<lparr>opened := (opened f)(h := None),
        announced := announced f @ (case opened f h of
          Some (WriteHandle n) \<Rightarrow> if announces f then [n] else [] | _ \<Rightarrow> [])\<rparr>)"
| "far_step limit now (Remove rid n) f =
     (StatusReply rid (if content f n \<noteq> None then OK else NO_SUCH_FILE),
      f\<lparr>content := (content f)(n := None), mtime := (mtime f)(n := 0)\<rparr>)"
| "far_step limit now (Rename rid a b) f =
     (if content f b \<noteq> None then (StatusReply rid FAILURE, f)
      else case content f a of
             None \<Rightarrow> (StatusReply rid NO_SUCH_FILE, f)
           | Some x \<Rightarrow> (StatusReply rid OK,
               f\<lparr>content := (content f)(a := None, b \<mapsto> x),
                 mtime := (mtime f)(a := 0, b := mtime f a)\<rparr>))"
| "far_step limit now (Stat rid n) f =
     (if content f n \<noteq> None then (AttrsReply rid (stamp_of f n), f)
      else (StatusReply rid NO_SUCH_FILE, f))"

section \<open>Reading a request back\<close>

context wire
begin

lemma name_ok_read [simp]: "name_ok n \<Longrightarrow> length (as_bytes n) < 2 ^ 32"
  by (simp add: name_ok_def)

lemma on_open_body:
  "name_ok n \<Longrightarrow> on_open X now (to_be32 rid @ str n @ to_be32 flags @ rest) s =
     open_named X now rid n flags s"
  by (simp add: on_open_def name_ok_def)

lemma on_write_body:
  "name_ok h \<Longrightarrow> length d < 2 ^ 30 \<Longrightarrow>
     on_write X now (to_be32 rid @ str h @ to_be64 off @ ssh_string d) s =
     write_at X now rid h (unat off) d s"
  by (simp add: on_write_def name_ok_def)

lemma on_read_body:
  "name_ok h \<Longrightarrow> on_read X (to_be32 rid @ str h @ to_be64 off @ to_be32 want) s =
     read_from X rid h (unat off) (unat want) s"
  by (simp add: on_read_def name_ok_def)

lemma on_opendir_body: "length p < 2 ^ 30 \<Longrightarrow> on_opendir X (to_be32 rid @ ssh_string p) s = open_dir X rid s"
  by (simp add: on_opendir_def)

lemma on_readdir_body: "name_ok h \<Longrightarrow> on_readdir X (to_be32 rid @ str h) s = list_dir X rid h s"
  by (simp add: on_readdir_def name_ok_def)

lemma on_close_body: "name_ok h \<Longrightarrow> on_close X (to_be32 rid @ str h) s = close_handle X rid h s"
  by (simp add: on_close_def name_ok_def)

lemma on_remove_body: "name_ok n \<Longrightarrow> on_remove X (to_be32 rid @ str n) s = remove_named X rid n s"
  by (simp add: on_remove_def name_ok_def)

lemma on_rename_body:
  "name_ok a \<Longrightarrow> name_ok b \<Longrightarrow> on_rename X (to_be32 rid @ str a @ str b) s = rename_named X rid a b s"
  by (simp add: on_rename_def name_ok_def)

lemma on_stat_body: "name_ok n \<Longrightarrow> on_stat X (to_be32 rid @ str n) s = stat_named X rid n s"
  by (simp add: on_stat_def name_ok_def)

lemmas request_bodies =
  on_open_body on_write_body on_read_body on_opendir_body on_readdir_body on_close_body
  on_remove_body on_rename_body on_stat_body

end

section \<open>The replies carry what they say\<close>

lemma length_stamped: "length (attributes_bytes (stamped st)) = 20"
  by (simp add: stamped_bytes)

lemma length_entry_bytes: "length (entry_bytes (n, st)) = 2 * length n + 28"
  by (simp add: entry_bytes_def length_stamped)

lemma length_decimal_u64: "length (decimal (unat (x :: u64))) \<le> 20"
proof (rule length_decimal)
  have "unat x < 2 ^ 64" using unsigned_less [of x, where ?'a = nat] by simp
  then show "unat x < 10 ^ 20" by simp
qed simp

lemma handle_name_ok: "name_ok (''h'' @ decimal (unat (x :: u64)))" "name_ok (''d'' @ decimal (unat (x :: u64)))"
proof -
  have "rust_str ''h''" "rust_str ''d''"
    by (rule rust_str_ascii; simp)+
  then show "name_ok (''h'' @ decimal (unat x))" "name_ok (''d'' @ decimal (unat x))"
    using length_decimal_u64 [of x] rust_str_append [of "''h''" "decimal (unat x)"]
      rust_str_append [of "''d''" "decimal (unat x)"]
    by (simp_all add: name_ok_def)
qed

context wire
begin

lemma carries_version: "carries X (frame X VERSION (w_u32_be X [] v)) (VersionReply v)"
  by (auto simp: carries_def)

lemma carries_handle: "name_ok h \<Longrightarrow> carries X (handle_reply X rid h) (HandleReply rid h)"
  unfolding carries_def handle_reply_def
  by (rule exI [of _ "to_be32 rid @ str h"]) (simp add: name_ok_def)

lemma carries_data: "length d < 2 ^ 30 \<Longrightarrow> carries X (data_reply X rid d) (DataReply rid d)"
  unfolding carries_def data_reply_def
  by (rule exI [of _ "to_be32 rid @ ssh_string d"]) simp

lemma carries_status: "length m < 2 ^ 30 \<Longrightarrow> carries X (status X rid c m) (StatusReply rid c)"
  unfolding carries_def status_def
  by (rule exI [of _ "to_be32 rid @ to_be32 c @ str m @ ssh_string []"]) auto

lemma fold_name_entry:
  assumes "\<forall>(n, b) \<in> set es. length n < 2 ^ 32"
  shows "fold (name_entry X d) es body = body @ concat (map (\<lambda>(n, b). entry_bytes
    (n, \<lparr>stamp_length = of_nat (length b), stamp_modified = modified d n\<rparr>)) es)"
  using assms
proof (induction es arbitrary: body)
  case (Cons e es)
  obtain n b where e: "e = (n, b)" by (cases e)
  with Cons.prems have "length n < 2 ^ 32" by simp
  then have "name_entry X d e body = body @ entry_bytes
      (n, \<lparr>stamp_length = of_nat (length b), stamp_modified = modified d n\<rparr>)"
    by (simp add: e name_entry_def Let_def entry_bytes_def stamped_bytes)
  with Cons e show ?case by simp
qed simp

end

lemma listing_entries:
  assumes "dir_wf (dir s)"
  shows "listing_of (far_end_of s) = map (\<lambda>(n, b).
    (n, \<lparr>stamp_length = of_nat (length b), stamp_modified = modified (dir s) n\<rparr>)) (files (dir s))"
proof -
  have "files (dir s) = map (\<lambda>n. (n, the (bt_get (files (dir s)) n)))
      (sorted_list_of_set (dom (bt_get (files (dir s)))))"
    using assms by (intro bt.entries_by_key) (simp add: dir_wf_def)
  then have "map (\<lambda>(n, b). (n, \<lparr>stamp_length = of_nat (length b), stamp_modified = modified (dir s) n\<rparr>))
      (files (dir s)) = map (\<lambda>(n, b). (n, \<lparr>stamp_length = of_nat (length b), stamp_modified = modified (dir s) n\<rparr>))
      (map (\<lambda>n. (n, the (bt_get (files (dir s)) n))) (sorted_list_of_set (dom (bt_get (files (dir s))))))"
    by (rule arg_cong)
  then show ?thesis by (simp add: listing_of_def stamp_of_def far_end_of_def)
qed

lemma length_listing_bytes: "length (concat (map entry_bytes (listing_of f))) = listing_size f"
  by (simp add: listing_of_def listing_size_def length_concat comp_def length_entry_bytes)

lemma listing_size_name:
  assumes "content f n = Some b" "finite (dom (content f))"
  shows "2 * length n + 28 \<le> listing_size f"
  unfolding listing_size_def using assms
  by (intro member_le_sum_list) (auto simp: image_iff intro!: bexI [of _ n])

lemma length_listing: "length (listing_of f) \<le> listing_size f"
proof -
  have "length ns \<le> sum_list (map (\<lambda>n. 2 * length n + 28) ns)" for ns :: "string list"
    by (induction ns) simp_all
  then show ?thesis unfolding listing_of_def listing_size_def length_map .
qed

context wire
begin

lemma carries_names:
  assumes "dir_wf (dir s)" "listing_size (far_end_of s) < 2 ^ 30"
  shows "carries X (name_reply X rid (dir s)) (NameReply rid (listing_of (far_end_of s)))"
proof -
  let ?L = "listing_of (far_end_of s)"
  have len: "length n < 2 ^ 32" if "(n, b) \<in> set (files (dir s))" for n b
  proof -
    from that have "\<exists>b. content (far_end_of s) n = Some b"
      by (metis far_end_of_def far_end.simps(1) weak_map_of_SomeI)
    then have "2 * length n + 28 \<le> listing_size (far_end_of s)"
      using listing_size_name by (metis bt.finite_dom_get far_end.simps(1) far_end_of_def)
    with assms(2) show ?thesis by simp
  qed
  have n: "length (files (dir s)) = length ?L"
    using listing_entries [OF assms(1)] by simp
  have "fold (name_entry X (dir s)) (files (dir s)) body = body @ concat (map entry_bytes ?L)" for body
    using len by (subst fold_name_entry) (auto simp: listing_entries [OF assms(1)] comp_def case_prod_unfold)
  then have "name_reply X rid (dir s) = frame X NAME
      (to_be32 rid @ to_be32 (of_nat (length ?L)) @ concat (map entry_bytes ?L))"
    using length_listing [of "far_end_of s"] assms(2) by (simp add: name_reply_def n)
  moreover have "length (to_be32 rid @ to_be32 (of_nat (length ?L)) @ concat (map entry_bytes ?L)) + 1 < 2 ^ 32"
    using assms(2) by (simp add: length_listing_bytes)
  ultimately show ?thesis by (auto simp: carries_def)
qed

end

section \<open>A listing reads back\<close>

context wire
begin

lemma read_entries_bytes:
  assumes "\<forall>(n, st) \<in> set es. rust_str n \<and> length n < 2 ^ 32"
  shows "read_entries X (length es) (concat (map entry_bytes es) @ rest) =
    Inr (map (\<lambda>(n, st). (n, Some st)) es)"
  using assms
proof (induction es)
  case (Cons e es)
  obtain n st where e: "e = (n, st)" by (cases e)
  have "stamp X (attributes_bytes (stamped st) @ concat (map entry_bytes es) @ rest) =
      Inr (Some st, concat (map entry_bytes es) @ rest)"
    by (simp add: stamp_attributes_bytes)
  with Cons show ?case by (simp add: e entry_bytes_def)
qed simp

lemma entries_bytes:
  assumes "\<forall>(n, st) \<in> set es. rust_str n \<and> length n < 2 ^ 32" "length es < 2 ^ 32"
  shows "entries X (to_be32 rid @ to_be32 (of_nat (length es)) @ concat (map entry_bytes es)) =
    Inr (map (\<lambda>(n, st). (n, Some st)) es)"
  using read_entries_bytes [OF assms(1), of "[]"] assms(2) by (simp add: entries_def)

end

lemma listing_names:
  assumes "serving_wf s" "listing_size (far_end_of s) < 2 ^ 30"
  shows "\<forall>(n, st) \<in> set (listing_of (far_end_of s)). rust_str n \<and> length n < 2 ^ 32"
    "length (listing_of (far_end_of s)) < 2 ^ 32"
proof -
  have fin: "finite (dom (content (far_end_of s)))" by (simp add: far_end_of_def bt.finite_dom_get)
  have "rust_str n \<and> length n < 2 ^ 32" if "content (far_end_of s) n = Some b" for n b
    using listing_size_name [OF that fin] that assms
    by (auto simp: serving_wf_def dir_wf_def far_end_of_def)
  then show "\<forall>(n, st) \<in> set (listing_of (far_end_of s)). rust_str n \<and> length n < 2 ^ 32"
    using fin by (auto simp: listing_of_def)
  show "length (listing_of (far_end_of s)) < 2 ^ 32"
    using length_listing [of "far_end_of s"] assms(2) by simp
qed

section \<open>Refinement\<close>

lemma modified_insert: "modified (d\<lparr>written := bt_insert n t w\<rparr>) = (modified (d\<lparr>written := w\<rparr>))(n := t)"
  by (rule ext) (simp add: modified_def)

lemma modified_remove: "modified (d\<lparr>written := bt_remove n w\<rparr>) = (modified (d\<lparr>written := w\<rparr>))(n := 0)"
  by (rule ext) (simp add: modified_def)

lemma modified_files [simp]: "modified (d\<lparr>files := fs\<rparr>) = modified d"
  by (rule ext) (simp add: modified_def)

lemma modified_heard [simp]: "modified (d\<lparr>heard := hs\<rparr>) = modified d"
  by (rule ext) (simp add: modified_def)

lemma modified_same_written [simp]: "modified (d\<lparr>written := written d\<rparr>) = modified d"
  by simp

lemma modified_no_file: "dir_wf d \<Longrightarrow> bt_get (files d) n = None \<Longrightarrow> modified d n = 0"
  by (auto simp: dir_wf_def modified_def split: option.splits)

text \<open>A write of the directory is a write of the abstract far end.\<close>

lemma far_end_of_write:
  "far_end_of (s\<lparr>dir := touch now n ((dir s)\<lparr>files := bt_insert n b (files (dir s))\<rparr>)\<rparr>) =
     write_file now n b (far_end_of s)"
  by (auto simp: far_end_of_def write_file_def tick_def touch_def Let_def modified_insert fun_eq_iff modified_def)

definition refined :: "ext \<Rightarrow> int \<Rightarrow> request \<Rightarrow> Serving \<Rightarrow> (transport_error + bytes) \<times> Serving \<Rightarrow> bool" where
  "refined X now q s p \<longleftrightarrow> (\<exists>packet s' r. p = (Inr packet, s')
     \<and> far_step (MAX_BODY X) now q (far_end_of s) = (r, far_end_of s') \<and> carries X packet r)"

lemma refinedI:
  "fst p = Inr packet \<Longrightarrow> far_step (MAX_BODY X) now q (far_end_of s) = (r, far_end_of (snd p)) \<Longrightarrow>
     carries X packet r \<Longrightarrow> refined X now q s p"
  by (cases p) (auto simp: refined_def)

lemma far_end_of_simps [simp]:
  "content (far_end_of s) = bt_get (files (dir s))"
  "mtime (far_end_of s) = modified (dir s)"
  "latest (far_end_of s) = newest (dir s)"
  "opened (far_end_of s) = bt_get (handles s)"
  "issued (far_end_of s) = next_handle s"
  "announces (far_end_of s) = told (dir s)"
  "announced (far_end_of s) = heard (dir s)"
  by (simp_all add: far_end_of_def)

lemma far_end_eqI:
  fixes f g :: far_end
  assumes "content f = content g" "mtime f = mtime g" "latest f = latest g" "opened f = opened g"
    "issued f = issued g" "announces f = announces g" "announced f = announced g"
  shows "f = g"
  using assms by simp

lemma modified_touch_fun: "modified (touch now n d) = (modified d)(n := newest (touch now n d))"
  using modified_touch modified_touch_other by (auto simp: fun_eq_iff)

lemma newest_touch_eq: "newest (touch now n d) = max (clock_u32 now) (u32_saturating_add (newest d) 1)"
  by (simp add: touch_def Let_def)

lemma write_file_simps [simp]:
  "content (write_file now n b f) = (content f)(n \<mapsto> b)"
  "mtime (write_file now n b f) = (mtime f)(n := tick now f)"
  "latest (write_file now n b f) = tick now f"
  "opened (write_file now n b f) = opened f"
  "issued (write_file now n b f) = issued f"
  "announces (write_file now n b f) = announces f"
  "announced (write_file now n b f) = announced f"
  by (simp_all add: write_file_def)

context limits
begin

lemma refined_open:
  assumes "name_ok n"
  shows "refined X now (Open rid n flags) s (open_named X now rid n flags s)"
proof -
  let ?h = "''h'' @ decimal (unat (next_handle s))"
  have h: "carries X (handle_reply X rid ?h) (HandleReply rid ?h)"
    by (rule carries_handle) (rule handle_name_ok)
  consider (excl) "flags AND F_WRITE \<noteq> 0" "bt_get (files (dir s)) n \<noteq> None" "flags AND F_EXCL \<noteq> 0"
    | (keep) b where "flags AND F_WRITE \<noteq> 0" "bt_get (files (dir s)) n = Some b"
        "flags AND F_EXCL = 0" "flags AND F_TRUNC = 0"
    | (fresh) "flags AND F_WRITE \<noteq> 0" "bt_get (files (dir s)) n = None \<or> flags AND F_EXCL = 0"
        "bt_get (files (dir s)) n = None \<or> flags AND F_TRUNC \<noteq> 0"
    | (readable) "flags AND F_WRITE = 0" "bt_get (files (dir s)) n \<noteq> None"
    | (missing) "flags AND F_WRITE = 0" "bt_get (files (dir s)) n = None"
    by (cases "bt_get (files (dir s)) n") auto
  then show ?thesis
  proof cases
    case excl
    show ?thesis
      by (rule refinedI [OF _ _ carries_status [of "''the file exists''" rid FAILURE]])
        (use excl in \<open>auto simp: open_named_def Let_def bt_contains_def intro!: far_end_eqI\<close>)
  next
    case (keep b)
    show ?thesis
      by (rule refinedI [OF _ _ h])
        (use keep in \<open>auto simp: open_named_def Let_def bt_contains_def tick_def modified_touch_fun
          newest_touch_eq intro!: far_end_eqI\<close>)
  next
    case fresh
    then have empty: "(case bt_get (files (dir s)) n of None \<Rightarrow> [] | Some b \<Rightarrow> if flags AND F_TRUNC \<noteq> 0 then [] else b) = []"
      by (auto split: option.splits)
    show ?thesis
      by (rule refinedI [OF _ _ h])
        (use fresh empty in \<open>auto simp: open_named_def Let_def bt_contains_def tick_def modified_touch_fun
          newest_touch_eq intro!: far_end_eqI\<close>)
  next
    case readable
    show ?thesis
      by (rule refinedI [OF _ _ h])
        (use readable in \<open>auto simp: open_named_def Let_def bt_contains_def intro!: far_end_eqI\<close>)
  next
    case missing
    show ?thesis
      by (rule refinedI [OF _ _ carries_status [of "''no such file''" rid NO_SUCH_FILE]])
        (use missing in \<open>auto simp: open_named_def Let_def bt_contains_def intro!: far_end_eqI\<close>)
  qed
qed

lemma refined_write:
  shows "refined X now (Write rid h off d) s (write_at X now rid h (unat off) d s)"
proof (cases rule: write_at_cases [of s h "unat off" d now rid])
  case (accepted n)
  show ?thesis
    by (rule refinedI [OF _ _ carries_status [of "''written''" rid OK]])
      (use accepted in \<open>auto simp: far_end_of_write accepted(3)\<close>)
next
  case (refused msg)
  have "far_step (MAX_BODY X) now (Write rid h off d) (far_end_of s) = (StatusReply rid FAILURE, far_end_of s)"
    using refused(2) by (auto split: option.splits Handle.splits)
  then show ?thesis
    by (intro refinedI [OF _ _ carries_status [of msg rid FAILURE]]) (use refused in simp_all)
qed

lemma refined_read:
  assumes "unat want < 2 ^ 30" "dir_bounded X (dir s)"
  shows "refined X now (Read rid h off want) s (read_from X rid h (unat off) (unat want) s)"
proof (cases "\<exists>n. bt_get (handles s) h = Some (ReadHandle n)")
  case True
  then obtain n where n: "bt_get (handles s) h = Some (ReadHandle n)" by blast
  define b where "b = (case bt_get (files (dir s)) n of Some b \<Rightarrow> b | None \<Rightarrow> [])"
  show ?thesis
  proof (cases "unat off < length b")
    case True
    have "length b \<le> MAX_BODY X"
      using assms(2) by (auto simp: b_def dir_bounded_def split: option.splits)
    then have "length b < usize_max" using max_body by simp
    then have "take (min (length b) (usize_saturating_add (unat off) (unat want)) - unat off) (drop (unat off) b)
        = take (unat want) (drop (unat off) b)"
      by (auto simp: usize_saturating_add_def min_def)
    moreover have "carries X (data_reply X rid (take (unat want) (drop (unat off) b)))
        (DataReply rid (take (unat want) (drop (unat off) b)))"
      using assms(1) by (intro carries_data) simp
    ultimately show ?thesis using n True
      by (intro refinedI [where r = "DataReply rid (take (unat want) (drop (unat off) b))"])
        (auto simp: read_from_def Let_def slice_read b_def)
  next
    case False
    then show ?thesis using n
      by (intro refinedI [OF _ _ carries_status [of "''end of file''" rid EOF]])
        (auto simp: read_from_def Let_def b_def)
  qed
next
  case False
  then show ?thesis
    by (intro refinedI [OF _ _ carries_status [of "''a read from a handle not open for reading''" rid FAILURE]])
      (auto simp: read_from_def split: option.splits Handle.splits)
qed

lemma refined_opendir: "refined X now (Opendir rid p) s (open_dir X rid s)"
  by (rule refinedI [OF _ _ carries_handle [OF handle_name_ok(2)]])
    (auto simp: open_dir_def Let_def intro!: far_end_eqI)

lemma refined_readdir:
  assumes "serving_wf s" "listing_size (far_end_of s) < 2 ^ 30"
  shows "refined X now (Readdir rid h) s (list_dir X rid h s)"
proof -
  have names: "carries X (name_reply X rid (dir s)) (NameReply rid (listing_of (far_end_of s)))"
    using assms by (intro carries_names) (auto simp: serving_wf_def)
  consider (first) "bt_get (handles s) h = Some (DirHandle False)"
    | (again) "bt_get (handles s) h = Some (DirHandle True)"
    | (other) "\<forall>b. bt_get (handles s) h \<noteq> Some (DirHandle b)"
    by (metis (full_types))
  then show ?thesis
  proof cases
    case first
    then show ?thesis
      by (intro refinedI [OF _ _ names]) (auto simp: list_dir_def intro!: far_end_eqI)
  next
    case again
    then show ?thesis
      by (intro refinedI [OF _ _ carries_status [of "''end of directory''" rid EOF]])
        (auto simp: list_dir_def)
  next
    case other
    then show ?thesis
      by (intro refinedI [OF _ _ carries_status [of "''a readdir on a handle that is not a directory''" rid FAILURE]])
        (auto simp: list_dir_def split: option.splits Handle.splits)
  qed
qed

lemma refined_close: "refined X now (Close rid h) s (close_handle X rid h s)"
  by (rule refinedI [OF _ _ carries_status [of "''closed''" rid OK]])
    (auto simp: close_handle_def Let_def intro!: far_end_eqI split: option.splits Handle.splits)

lemma refined_remove: "refined X now (Remove rid n) s (remove_named X rid n s)"
proof (cases "bt_get (files (dir s)) n")
  case None
  then show ?thesis
    by (intro refinedI [OF _ _ carries_status [of "''no such file''" rid NO_SUCH_FILE]])
      (auto simp: remove_named_def Let_def bt_contains_def modified_remove intro!: far_end_eqI)
next
  case (Some b)
  then show ?thesis
    by (intro refinedI [OF _ _ carries_status [of "''removed''" rid OK]])
      (auto simp: remove_named_def Let_def bt_contains_def modified_remove intro!: far_end_eqI)
qed

lemma refined_rename:
  assumes "serving_wf s"
  shows "refined X now (Rename rid a b) s (rename_named X rid a b s)"
proof -
  consider (taken) "bt_get (files (dir s)) b \<noteq> None"
    | (missing) "bt_get (files (dir s)) b = None" "bt_get (files (dir s)) a = None"
    | (renamed) x where "bt_get (files (dir s)) b = None" "bt_get (files (dir s)) a = Some x"
    by blast
  then show ?thesis
  proof cases
    case taken
    then show ?thesis
      by (intro refinedI [OF _ _ carries_status [of "''the new name exists''" rid FAILURE]])
        (auto simp: rename_named_def Let_def bt_contains_def)
  next
    case missing
    then show ?thesis
      by (intro refinedI [OF _ _ carries_status [of "''no such file''" rid NO_SUCH_FILE]])
        (auto simp: rename_named_def Let_def bt_contains_def)
  next
    case (renamed x)
    then have "bt_get (written (dir s)) b = None" "a \<noteq> b"
      using assms by (auto simp: serving_wf_def dir_wf_def)
    with renamed show ?thesis
      by (intro refinedI [OF _ _ carries_status [of "''renamed''" rid OK]])
        (auto simp: rename_named_def Let_def bt_contains_def modified_def fun_eq_iff
          intro!: far_end_eqI split: option.splits)
  qed
qed

lemma refined_stat: "refined X now (Stat rid n) s (stat_named X rid n s)"
proof (cases "bt_get (files (dir s)) n")
  case None
  then show ?thesis
    by (intro refinedI [OF _ _ carries_status [of "''no such file''" rid NO_SUCH_FILE]])
      (auto simp: stat_named_def)
next
  case (Some b)
  have "carries X (frame X ATTRS (to_be32 rid @ attributes_bytes (stamped (stamp_of (far_end_of s) n))))
      (AttrsReply rid (stamp_of (far_end_of s) n))"
    by (auto simp: carries_def length_stamped)
  then show ?thesis using Some
    by (intro refinedI [where r = "AttrsReply rid (stamp_of (far_end_of s) n)"])
      (auto simp: stat_named_def Let_def stamp_of_def stamped_bytes)
qed

lemma refined_init: "refined X now Init s (on_init X s)"
  by (rule refinedI [OF _ _ carries_version [of PROTOCOL]]) (auto simp: on_init_def)

text \<open>Every request the client can make is answered as the abstract far end answers it.\<close>

lemma answer_refined:
  assumes "serving_wf s" "dir_bounded X (dir s)" "request_ok q"
    "\<And>rid h. q = Readdir rid h \<Longrightarrow> listing_size (far_end_of s) < 2 ^ 30"
  shows "refined X now q s (answer X now (request_kind q) (request_body q) s)"
  using assms
  by (cases q) (auto simp: answer_def packet_types request_bodies simp del: far_step.simps
      intro: refined_init refined_open refined_write refined_read refined_opendir refined_readdir
        refined_close refined_remove refined_rename refined_stat)

end

section \<open>Properties\<close>

lemma sample_names: "name_ok ''a''" "name_ok ''b''" "name_ok ''c''"
  by (simp_all add: name_ok_def rust_str_ascii)

lemma sample_listing: "listing_size (far_end_of sample) < 2 ^ 30"
  by (simp add: listing_size_def)

text \<open>
  C3. The far end is what it promises: every request a client can make, decoded from its
  bytes, is answered by a packet that carries the reply of the abstract far end (a map of
  names to contents and times with a map of open handles), and the state it leaves is the one
  the abstract far end moves to.
\<close>

theorem answer_refines_far_step:
  assumes "limits X" "serving_wf s" "dir_bounded X (dir s)" "request_ok q"
    "listing_size (far_end_of s) < 2 ^ 30"
  shows "\<exists>packet s' r. answer X now (request_kind q) (request_body q) s = (Inr packet, s')
    \<and> far_step (MAX_BODY X) now q (far_end_of s) = (r, far_end_of s') \<and> carries X packet r"
  using limits.answer_refined [OF assms(1-4), of now] assms(5) by (simp add: refined_def)

theorem answer_refines_far_step_witness:
  "\<exists>packet s' r. answer std_ext 8 (request_kind (Rename 1 ''a'' ''b'')) (request_body (Rename 1 ''a'' ''b'')) sample = (Inr packet, s')
    \<and> far_step (MAX_BODY std_ext) 8 (Rename 1 ''a'' ''b'') (far_end_of sample) = (r, far_end_of s') \<and> carries std_ext packet r"
  by (rule answer_refines_far_step [OF rfc_limits.limits_axioms sample_wf sample_bounded _ sample_listing])
    (simp add: sample_names)

text \<open>
  C26. What READDIR writes, the client's \<open>entries\<close> reads back: every file of the directory in
  name order, each with its length and its time.
\<close>

theorem listing_reads_back:
  assumes "limits X" "serving_wf s" "listing_size (far_end_of s) < 2 ^ 30"
  shows "\<exists>body. name_reply X rid (dir s) = frame X NAME body
    \<and> entries X body = Inr (map (\<lambda>(n, st). (n, Some st)) (listing_of (far_end_of s)))"
proof -
  have w: "wire X" using assms(1) by (rule limits.axioms(1))
  let ?es = "listing_of (far_end_of s)"
  have "length (files (dir s)) = length ?es" using assms(2) by (simp add: listing_entries serving_wf_def)
  moreover have names: "\<forall>(n, st) \<in> set ?es. rust_str n \<and> length n < 2 ^ 32" "length ?es < 2 ^ 32"
    using listing_names [OF assms(2,3)] by auto
  moreover have "\<forall>(n, b) \<in> set (files (dir s)). length n < 2 ^ 32"
    using names(1) assms(2) by (force simp: listing_entries serving_wf_def)
  ultimately have "name_reply X rid (dir s) = frame X NAME
      (to_be32 rid @ to_be32 (of_nat (length ?es)) @ concat (map entry_bytes ?es))"
    using assms(2) wire.fold_name_entry [OF w, of "files (dir s)" "dir s"]
    by (simp add: name_reply_def wire.w_u32 [OF w] listing_entries serving_wf_def comp_def case_prod_unfold)
  then show ?thesis using wire.entries_bytes [OF w names] by blast
qed

theorem listing_reads_back_witness:
  "\<exists>body. name_reply std_ext 4 (dir sample) = frame std_ext NAME body
    \<and> entries std_ext body = Inr (map (\<lambda>(n, st). (n, Some st)) (listing_of (far_end_of sample)))"
  by (rule listing_reads_back) (rule rfc_limits.limits_axioms, rule sample_wf, rule sample_listing)

end
