(* ===== verification/Sharing.thy ===== *)
theory Sharing
  imports Directory_Spec
begin

unbundle bit_operations_syntax

text \<open>
  Several channels over one directory (\<open>Shared\<close> of \<open>directory.rs\<close>, served by \<open>serving\<close> of
  \<open>server.rs\<close>): each request is answered whole under the directory's lock, so a run is a
  sequence of requests of any channels in any order. The steps are a relation; what the
  claim leans on holds of every run.
\<close>

section \<open>Steps\<close>

record Shared =
  s_dir :: Directory
  s_chan :: "nat \<rightharpoonup> (string, Handle) btree \<times> u64"

datatype event =
    Connect nat
  | Request nat int bytes "transport_error + bytes"
  | Hangup nat

fun channel_of :: "event \<Rightarrow> nat" where
  "channel_of (Connect i) = i"
| "channel_of (Request i _ _ _) = i"
| "channel_of (Hangup i) = i"

definition serving_of :: "Shared \<Rightarrow> (string, Handle) btree \<times> u64 \<Rightarrow> Serving" where
  "serving_of g = (\<lambda>(hs, nx). \<lparr>dir = s_dir g, handles = hs, next_handle = nx\<rparr>)"

text \<open>
  A channel opens with no handles; a request is served and the channel goes on, or it ends
  with the error; the client closes the channel.
\<close>

inductive shared_step :: "ext \<Rightarrow> Shared \<Rightarrow> event \<Rightarrow> Shared \<Rightarrow> bool" for X where
  connect: "s_chan g i = None \<Longrightarrow>
    shared_step X g (Connect i) (g\<lparr>s_chan := (s_chan g)(i \<mapsto> ([], 0))\<rparr>)"
| served: "s_chan g i = Some c \<Longrightarrow> serve_request X now p (serving_of g c) = (Inr reply, s) \<Longrightarrow>
    shared_step X g (Request i now p (Inr reply))
      (g\<lparr>s_dir := dir s, s_chan := (s_chan g)(i \<mapsto> (handles s, next_handle s))\<rparr>)"
| failed: "s_chan g i = Some c \<Longrightarrow> serve_request X now p (serving_of g c) = (Inl e, s) \<Longrightarrow>
    shared_step X g (Request i now p (Inl e)) (g\<lparr>s_dir := dir s, s_chan := (s_chan g)(i := None)\<rparr>)"
| hangup: "s_chan g i = Some c \<Longrightarrow>
    shared_step X g (Hangup i) (g\<lparr>s_chan := (s_chan g)(i := None)\<rparr>)"

inductive shared_run :: "ext \<Rightarrow> Shared \<Rightarrow> event list \<Rightarrow> Shared \<Rightarrow> bool" for X where
  idle: "shared_run X g [] g"
| step: "shared_step X g e h \<Longrightarrow> shared_run X h es k \<Longrightarrow> shared_run X g (e # es) k"

inductive_cases request_stepE: "shared_step X g (Request i now p v) h"
inductive_cases connect_stepE: "shared_step X g (Connect i) h"
inductive_cases hangup_stepE: "shared_step X g (Hangup i) h"
inductive_simps run_Nil [simp]: "shared_run X g [] h"
inductive_simps run_Cons: "shared_run X g (e # es) h"

definition shared_start :: "Directory \<Rightarrow> Shared" where
  "shared_start d = \<lparr>s_dir = d, s_chan = Map.empty\<rparr>"

lemma serving_of_simps [simp]:
  "dir (serving_of g c) = s_dir g" "handles (serving_of g c) = fst c" "next_handle (serving_of g c) = snd c"
  by (simp_all add: serving_of_def split: prod.splits)

lemma servedI:
  assumes "s_chan g i = Some c" "answer X now kind body (serving_of g c) = (Inr reply, s)"
    "h = g\<lparr>s_dir := dir s, s_chan := (s_chan g)(i \<mapsto> (handles s, next_handle s))\<rparr>"
  shows "shared_step X g (Request i now (kind # body) (Inr reply)) h"
  unfolding assms(3) by (rule shared_step.served) (use assms(1,2) in \<open>simp_all add: serve_request_def\<close>)

text \<open>A run keeps what every step keeps.\<close>

lemma run_invariant:
  assumes "shared_run X g es h" "I g"
    and "\<And>g e h. shared_step X g e h \<Longrightarrow> e \<in> set es \<Longrightarrow> I g \<Longrightarrow> I h"
  shows "I h"
  using assms
proof (induction rule: shared_run.induct)
  case (step g e h es k)
  have "I h" using step.prems(2) [OF step.hyps(1)] step.prems(1) by simp
  then show ?case by (rule step.IH) (use step.prems(2) in auto)
qed simp

section \<open>One channel's loop is a run\<close>

text \<open>The events of a channel that is served these frames: each request, up to one that fails.\<close>

primrec served_events :: "ext \<Rightarrow> (nat \<Rightarrow> int) \<Rightarrow> nat \<Rightarrow> nat \<Rightarrow> bytes list \<Rightarrow> Serving \<Rightarrow> event list" where
  "served_events X clock i n [] s = []"
| "served_events X clock i n (p # ps) s = (case serve_request X (clock n) p s of
     (v, s') \<Rightarrow> Request i (clock n) p v # (case v of Inl _ \<Rightarrow> [] | Inr _ \<Rightarrow> served_events X clock i (Suc n) ps s'))"

lemma run_append: "shared_run X g es h \<Longrightarrow> shared_run X h fs k \<Longrightarrow> shared_run X g (es @ fs) k"
  by (induction rule: shared_run.induct) (auto simp: run_Cons)

lemma serve_all_run:
  assumes "serve_all X clock n ps s = (r, s')" "s_dir g = dir s" "s_chan g i = Some (handles s, next_handle s)"
  shows "\<exists>h. shared_run X g (served_events X clock i n ps s) h \<and> s_dir h = dir s'
    \<and> s_chan h = (s_chan g)(i := case r of Inl _ \<Rightarrow> None | Inr _ \<Rightarrow> Some (handles s', next_handle s'))"
  using assms
proof (induction ps arbitrary: n s g)
  case Nil
  then show ?case by (auto simp: fun_upd_idem)
next
  case (Cons p ps)
  obtain v s1 where v: "serve_request X (clock n) p s = (v, s1)" by fastforce
  have s: "serving_of g (handles s, next_handle s) = s" using Cons.prems(2) by (simp add: serving_of_def)
  show ?case
  proof (cases v)
    case (Inl e)
    have "shared_step X g (Request i (clock n) p (Inl e)) (g\<lparr>s_dir := dir s1, s_chan := (s_chan g)(i := None)\<rparr>)"
      using Cons.prems(3) v Inl s by (intro shared_step.failed) auto
    with Cons.prems(1) v Inl show ?thesis by (auto simp: run_Cons intro!: exI)
  next
    case (Inr reply)
    let ?g = "g\<lparr>s_dir := dir s1, s_chan := (s_chan g)(i \<mapsto> (handles s1, next_handle s1))\<rparr>"
    have "shared_step X g (Request i (clock n) p (Inr reply)) ?g"
      using Cons.prems(3) v Inr s by (intro shared_step.served) auto
    moreover obtain h where "shared_run X ?g (served_events X clock i (Suc n) ps s1) h" "s_dir h = dir s'"
        "s_chan h = (s_chan ?g)(i := case r of Inl _ \<Rightarrow> None | Inr _ \<Rightarrow> Some (handles s', next_handle s'))"
    proof -
      have "serve_all X clock (Suc n) ps s1 = (r, s')" "s_dir ?g = dir s1" "s_chan ?g i = Some (handles s1, next_handle s1)"
        using Cons.prems(1) v Inr by simp_all
      then show thesis using Cons.IH that by blast
    qed
    ultimately show ?thesis using v Inr by (intro exI [of _ h]) (auto simp: run_Cons)
  qed
qed

text \<open>With its opening and, where it was served to its end, the client's closing it.\<close>

definition channel_events :: "ext \<Rightarrow> (nat \<Rightarrow> int) \<Rightarrow> nat \<Rightarrow> bytes list \<Rightarrow> Directory \<Rightarrow> event list" where
  "channel_events X clock i ps d =
     (let s = \<lparr>dir = d, handles = [], next_handle = 0\<rparr>
      in Connect i # served_events X clock i 0 ps s
           @ (case fst (serve_all X clock 0 ps s) of Inl _ \<Rightarrow> [] | Inr _ \<Rightarrow> [Hangup i]))"

lemma channel_run:
  assumes "serve_all X clock 0 ps \<lparr>dir = s_dir g, handles = [], next_handle = 0\<rparr> = (r, s')" "s_chan g i = None"
  shows "shared_run X g (channel_events X clock i ps (s_dir g)) (g\<lparr>s_dir := dir s'\<rparr>)"
proof -
  let ?s = "\<lparr>dir = s_dir g, handles = [], next_handle = 0\<rparr>" and ?g = "g\<lparr>s_chan := (s_chan g)(i \<mapsto> ([], 0))\<rparr>"
  have c: "shared_step X g (Connect i) ?g" using assms(2) by (rule shared_step.connect)
  obtain h where h: "shared_run X ?g (served_events X clock i 0 ps ?s) h" "s_dir h = dir s'"
      "s_chan h = (s_chan ?g)(i := case r of Inl _ \<Rightarrow> None | Inr _ \<Rightarrow> Some (handles s', next_handle s'))"
    using serve_all_run [OF assms(1), of ?g i] by auto
  show ?thesis
  proof (cases r)
    case (Inl e)
    have "h = g\<lparr>s_dir := dir s'\<rparr>" using h(2,3) Inl assms(2) by (cases h, cases g) (simp add: fun_upd_idem)
    then show ?thesis using c h(1) assms(1) Inl by (auto simp: channel_events_def run_Cons)
  next
    case (Inr u)
    then have "shared_step X h (Hangup i) (h\<lparr>s_chan := (s_chan h)(i := None)\<rparr>)" using h(3) by (intro shared_step.hangup) auto
    moreover have "h\<lparr>s_chan := (s_chan h)(i := None)\<rparr> = g\<lparr>s_dir := dir s'\<rparr>"
      using h(2,3) Inr assms(2) by (cases h, cases g) (simp add: fun_upd_idem)
    ultimately have "shared_run X h [Hangup i] (g\<lparr>s_dir := dir s'\<rparr>)" by (auto simp: run_Cons)
    then show ?thesis using c run_append [OF h(1)] assms(1) Inr by (auto simp: channel_events_def run_Cons)
  qed
qed

section \<open>The state stays well formed\<close>

definition shared_wf :: "ext \<Rightarrow> Shared \<Rightarrow> bool" where
  "shared_wf X g \<longleftrightarrow> dir_wf (s_dir g) \<and> dir_bounded X (s_dir g)
     \<and> (\<forall>i c. s_chan g i = Some c \<longrightarrow> serving_wf (serving_of g c))"

lemma serving_wf_split:
  "serving_wf s \<longleftrightarrow> dir_wf (dir s) \<and> bt_wf (handles s) \<and> (\<forall>h v. bt_get (handles s) h = Some v \<longrightarrow> handle_wf v)"
  by (simp add: serving_wf_def)

lemma shared_step_wf:
  assumes "shared_step X g e h" "limits X" "shared_wf X g"
  shows "shared_wf X h"
  using assms
proof (cases rule: shared_step.cases)
  case (served i c now p reply s)
  have "serving_wf (serving_of g c)" "dir_bounded X (dir (serving_of g c))"
    using assms(3) served(3) by (simp_all only: shared_wf_def serving_of_simps)
  then have "serving_wf s" "dir_bounded X (dir s)"
    using serve_request_wf [of "serving_of g c" X now p] assms(2)
      serve_request_bounded [of X "serving_of g c" now p] served by auto
  then show ?thesis using served assms(3)
    by (auto simp: shared_wf_def serving_wf_split)
next
  case (failed i c now p e' s)
  have "serving_wf (serving_of g c)" "dir_bounded X (dir (serving_of g c))"
    using assms(3) failed(3) by (simp_all only: shared_wf_def serving_of_simps)
  then have "serving_wf s" "dir_bounded X (dir s)"
    using serve_request_wf [of "serving_of g c" X now p] assms(2)
      serve_request_bounded [of X "serving_of g c" now p] failed by auto
  then show ?thesis using failed assms(3)
    by (auto simp: shared_wf_def serving_wf_split split: if_splits)
next
  case (connect i)
  then show ?thesis using assms(3) by (auto simp: shared_wf_def serving_wf_split bt_wf_def)
next
  case (hangup i c)
  then show ?thesis using assms(3) by (auto simp: shared_wf_def serving_wf_split split: if_splits)
qed

lemma shared_run_wf:
  assumes "shared_run X g es h" "limits X" "shared_wf X g"
  shows "shared_wf X h"
  using assms(1,3) by (rule run_invariant) (rule shared_step_wf [OF _ assms(2)])

lemma shared_start_wf: "dir_wf d \<Longrightarrow> dir_bounded X d \<Longrightarrow> shared_wf X (shared_start d)"
  by (simp add: shared_wf_def shared_start_def)

section \<open>What a request can do to a name\<close>

text \<open>The name a request carries after its id, the flags of an OPEN, the new name of a RENAME.\<close>

definition named :: "ext \<Rightarrow> bytes \<Rightarrow> (string \<times> bytes) option" where
  "named X body = (case r_u32_be X body of
     Inr (_, r) \<Rightarrow> (case r_string X r of
       Inr (nm, r) \<Rightarrow> map_option (\<lambda>n. (n, r)) (from_utf8 nm)
     | Inl _ \<Rightarrow> None)
   | Inl _ \<Rightarrow> None)"

definition takes_away :: "ext \<Rightarrow> string \<Rightarrow> bytes \<Rightarrow> bool" where
  "takes_away X n p = (case p of
     [] \<Rightarrow> False
   | kind # body \<Rightarrow> (kind = REMOVE \<or> kind = RENAME) \<and> map_option fst (named X body) = Some n)"

definition opens_to_write :: "ext \<Rightarrow> string \<Rightarrow> bytes \<Rightarrow> bool" where
  "opens_to_write X n p = (case p of
     [] \<Rightarrow> False
   | kind # body \<Rightarrow> kind = OPEN \<and> (case named X body of
       Some (m, r) \<Rightarrow> m = n \<and> (case r_u32_be X r of Inr (flags, _) \<Rightarrow> flags AND F_WRITE \<noteq> 0 | Inl _ \<Rightarrow> False)
     | None \<Rightarrow> False))"

definition renames_to :: "ext \<Rightarrow> string \<Rightarrow> bytes \<Rightarrow> bool" where
  "renames_to X n p = (case p of
     [] \<Rightarrow> False
   | kind # body \<Rightarrow> kind = RENAME \<and> (case named X body of
       Some (_, r) \<Rightarrow> (case r_string X r of Inr (t, _) \<Rightarrow> t = as_bytes n | Inl _ \<Rightarrow> False)
     | None \<Rightarrow> False))"

lemma namedI: "r_u32_be X body = Inr (rid, r1) \<Longrightarrow> r_string X r1 = Inr (as_bytes n, r2) \<Longrightarrow>
    rust_str n \<Longrightarrow> named X body = Some (n, r2)"
  by (simp add: named_def)

text \<open>Only a REMOVE or a RENAME of a file takes it away.\<close>

lemma answer_keeps_file:
  assumes "bt_get (files (dir s)) n \<noteq> None" "\<not> takes_away X n (kind # body)"
  shows "bt_get (files (dir (snd (answer X now kind body s)))) n \<noteq> None"
proof (rule answer_rule [where Q = "\<lambda>p. bt_get (files (dir (snd p))) n \<noteq> None"])
  fix rid m flags
  show "bt_get (files (dir (snd (open_named X now rid m flags s)))) n \<noteq> None"
    using assms(1) by (auto simp: open_named_def Let_def)
next
  fix rid h off data
  show "bt_get (files (dir (snd (write_at X now rid h off data s)))) n \<noteq> None"
    by (cases rule: write_at_state [of X now rid h off data s]) (use assms(1) in auto)
next
  fix rid m r1 r2
  assume "kind = REMOVE" "r_u32_be X body = Inr (rid, r1)" "r_string X r1 = Inr (as_bytes m, r2)" "rust_str m"
  then have "m \<noteq> n" using assms(2) by (auto simp: takes_away_def namedI)
  then show "bt_get (files (dir (snd (remove_named X rid m s)))) n \<noteq> None"
    using assms(1) by (auto simp: remove_named_def Let_def)
next
  fix rid f t r1 r2 r3
  assume "kind = RENAME" "r_u32_be X body = Inr (rid, r1)" "r_string X r1 = Inr (as_bytes f, r2)" "rust_str f"
  then have "f \<noteq> n" using assms(2) by (auto simp: takes_away_def namedI)
  then show "bt_get (files (dir (snd (rename_named X rid f t s)))) n \<noteq> None"
    using assms(1) by (auto simp: rename_named_def Let_def split: option.splits)
qed (use assms in \<open>auto simp: on_init_def open_dir_def list_dir_def close_handle_def Let_def
    split: option.splits Handle.splits bool.splits\<close>)

lemma serve_request_keeps_file:
  "bt_get (files (dir s)) n \<noteq> None \<Longrightarrow> \<not> takes_away X n p \<Longrightarrow>
    bt_get (files (dir (snd (serve_request X now p s)))) n \<noteq> None"
  by (cases p) (simp_all add: serve_request_def answer_keeps_file del: not_None_eq)

text \<open>A run's events, by their packets.\<close>

fun packet_of :: "event \<Rightarrow> bytes" where
  "packet_of (Request i now p v) = p"
| "packet_of _ = []"

lemma step_keeps_file:
  assumes "shared_step X g e h" "\<not> takes_away X n (packet_of e)" "bt_get (files (s_dir g)) n \<noteq> None"
  shows "bt_get (files (s_dir h)) n \<noteq> None"
  using assms(1)
proof (cases rule: shared_step.cases)
  case (served i c now p reply s)
  then show ?thesis
    using serve_request_keeps_file [of "serving_of g c" n X p now] assms(2,3) by (simp del: not_None_eq)
next
  case (failed i c now p e' s)
  then show ?thesis
    using serve_request_keeps_file [of "serving_of g c" n X p now] assms(2,3) by (simp del: not_None_eq)
qed (use assms(3) in simp_all)

lemma run_keeps_file:
  assumes "shared_run X g es h" "\<forall>e \<in> set es. \<not> takes_away X n (packet_of e)" "bt_get (files (s_dir g)) n \<noteq> None"
  shows "bt_get (files (s_dir h)) n \<noteq> None"
  using assms(1,3) by (rule run_invariant) (use assms(2) step_keeps_file in blast)

text \<open>
  A name nobody holds open for writing is opened so by an OPEN alone, and a file of a name
  that is neither there nor open for writing appears by an OPEN for writing or a RENAME.
\<close>

definition unheld :: "string \<Rightarrow> (string, Handle) btree \<Rightarrow> bool" where
  "unheld n hs \<longleftrightarrow> (\<forall>h. bt_get hs h \<noteq> Some (WriteHandle n))"

lemma unheld_Nil [simp]: "unheld n []"
  by (simp add: unheld_def)

lemma opens_to_writeI:
  "r_u32_be X body = Inr (rid, r1) \<Longrightarrow> r_string X r1 = Inr (as_bytes n, r2) \<Longrightarrow> rust_str n \<Longrightarrow>
    r_u32_be X r2 = Inr (flags, r3) \<Longrightarrow> opens_to_write X n (OPEN # body) \<longleftrightarrow> flags AND F_WRITE \<noteq> 0"
  by (simp add: opens_to_write_def namedI)

lemma answer_unheld:
  assumes "unheld n (handles s)" "\<not> opens_to_write X n (kind # body)"
  shows "unheld n (handles (snd (answer X now kind body s)))"
proof (rule answer_rule [where Q = "\<lambda>p. unheld n (handles (snd p))"])
  fix rid m flags r1 r2 r3
  assume "kind = OPEN" "r_u32_be X body = Inr (rid, r1)" "r_string X r1 = Inr (as_bytes m, r2)"
    "r_u32_be X r2 = Inr (flags, r3)" "rust_str m"
  then have "m \<noteq> n \<or> flags AND F_WRITE = 0" using assms(2) by (auto simp: opens_to_writeI)
  then show "unheld n (handles (snd (open_named X now rid m flags s)))"
    using assms(1) by (auto simp: open_named_def Let_def unheld_def)
next
  fix rid h off data
  show "unheld n (handles (snd (write_at X now rid h off data s)))"
    by (cases rule: write_at_state [of X now rid h off data s]) (use assms(1) in auto)
next
  fix rid h
  show "unheld n (handles (snd (list_dir X rid h s)))" "unheld n (handles (snd (close_handle X rid h s)))"
    using assms(1) by (auto simp: list_dir_def close_handle_def Let_def unheld_def
        split: option.splits Handle.splits bool.splits)
next
  fix rid f t m
  show "unheld n (handles (snd (remove_named X rid m s)))" "unheld n (handles (snd (rename_named X rid f t s)))"
    using assms(1) by (auto simp: remove_named_def rename_named_def Let_def split: option.splits)
qed (use assms(1) in \<open>auto simp: on_init_def open_dir_def Let_def unheld_def\<close>)

lemma answer_stays_away:
  assumes "bt_get (files (dir s)) n = None" "unheld n (handles s)"
    "\<not> opens_to_write X n (kind # body)" "\<not> renames_to X n (kind # body)"
  shows "bt_get (files (dir (snd (answer X now kind body s)))) n = None"
proof (rule answer_rule [where Q = "\<lambda>p. bt_get (files (dir (snd p))) n = None"])
  fix rid m flags r1 r2 r3
  assume "kind = OPEN" "r_u32_be X body = Inr (rid, r1)" "r_string X r1 = Inr (as_bytes m, r2)"
    "r_u32_be X r2 = Inr (flags, r3)" "rust_str m"
  then have "m \<noteq> n \<or> flags AND F_WRITE = 0" using assms(3) by (auto simp: opens_to_writeI)
  then show "bt_get (files (dir (snd (open_named X now rid m flags s)))) n = None"
    using assms(1) by (auto simp: open_named_def Let_def)
next
  fix rid h off data
  show "bt_get (files (dir (snd (write_at X now rid h off data s)))) n = None"
    by (cases rule: write_at_state [of X now rid h off data s]) (use assms(1,2) in \<open>auto simp: unheld_def\<close>)
next
  fix rid f t r1 r2 r3
  assume "kind = RENAME" "r_u32_be X body = Inr (rid, r1)" "r_string X r1 = Inr (as_bytes f, r2)"
    "r_string X r2 = Inr (as_bytes t, r3)" "rust_str f"
  then have "t \<noteq> n" using assms(4) by (auto simp: renames_to_def namedI)
  then show "bt_get (files (dir (snd (rename_named X rid f t s)))) n = None"
    using assms(1) by (auto simp: rename_named_def Let_def split: option.splits)
qed (use assms(1) in \<open>auto simp: on_init_def open_dir_def list_dir_def close_handle_def remove_named_def Let_def
    split: option.splits Handle.splits bool.splits\<close>)

lemma serve_request_gone:
  assumes "bt_get (files (dir s)) n = None" "unheld n (handles s)"
    "\<not> opens_to_write X n p" "\<not> renames_to X n p"
  shows "bt_get (files (dir (snd (serve_request X now p s)))) n = None"
    "unheld n (handles (snd (serve_request X now p s)))"
  using assms by (cases p; simp add: serve_request_def answer_stays_away answer_unheld)+

lemma serve_request_unheld:
  "unheld n (handles s) \<Longrightarrow> \<not> opens_to_write X n p \<Longrightarrow> unheld n (handles (snd (serve_request X now p s)))"
  by (cases p) (simp_all add: serve_request_def answer_unheld)

definition all_unheld :: "string \<Rightarrow> Shared \<Rightarrow> bool" where
  "all_unheld n g \<longleftrightarrow> (\<forall>i hs nx. s_chan g i = Some (hs, nx) \<longrightarrow> unheld n hs)"

definition gone :: "string \<Rightarrow> Shared \<Rightarrow> bool" where
  "gone n g \<longleftrightarrow> bt_get (files (s_dir g)) n = None"

lemma all_unheldD: "all_unheld n g \<Longrightarrow> s_chan g i = Some c \<Longrightarrow> unheld n (handles (serving_of g c))"
  by (cases c) (auto simp: all_unheld_def)

lemma step_unheld:
  assumes "shared_step X g e h" "\<not> opens_to_write X n (packet_of e)" "all_unheld n g"
  shows "all_unheld n h"
  using assms(1)
proof (cases rule: shared_step.cases)
  case (served i c now p reply s)
  then have "unheld n (handles s)"
    using serve_request_unheld [OF all_unheldD [OF assms(3)], of i c X p now] assms(2) by simp
  with served assms(3) show ?thesis by (auto simp: all_unheld_def)
qed (use assms(3) in \<open>auto simp: all_unheld_def split: if_splits\<close>)

lemma step_gone:
  assumes "shared_step X g e h" "\<not> opens_to_write X n (packet_of e)" "\<not> renames_to X n (packet_of e)"
    "all_unheld n g" "gone n g"
  shows "gone n h"
  using assms(1)
proof (cases rule: shared_step.cases)
  case (served i c now p reply s)
  then show ?thesis
    using serve_request_gone(1) [of "serving_of g c" n X p now] all_unheldD [OF assms(4)] assms(2,3,5)
    by (simp add: gone_def)
next
  case (failed i c now p e' s)
  then show ?thesis
    using serve_request_gone(1) [of "serving_of g c" n X p now] all_unheldD [OF assms(4)] assms(2,3,5)
    by (simp add: gone_def)
qed (use assms(5) in \<open>simp_all add: gone_def\<close>)

section \<open>What happens at most once in a run\<close>

text \<open>An event that only happens before some fact, and brings it about for good.\<close>

lemma at_most_once:
  assumes "shared_run X g es h" "J g"
    and "\<And>g e h. shared_step X g e h \<Longrightarrow> e \<in> set es \<Longrightarrow> J g \<Longrightarrow> J h"
    and "\<And>g e h. shared_step X g e h \<Longrightarrow> e \<in> set es \<Longrightarrow> J g \<Longrightarrow> D g \<Longrightarrow> D h"
    and "\<And>g e h. shared_step X g e h \<Longrightarrow> e \<in> set es \<Longrightarrow> J g \<Longrightarrow> P e \<Longrightarrow> \<not> D g \<and> D h"
  shows "length (filter P es) \<le> (if D g then 0 else 1)"
  using assms
proof (induction rule: shared_run.induct)
  case (step g e h es k)
  note keeps = step.prems(2-4)
  have "J h" using keeps(1) [OF step.hyps(1)] step.prems(1) by simp
  then have IH: "length (filter P es) \<le> (if D h then 0 else 1)"
    by (rule step.IH) (use keeps in \<open>auto 4 3\<close>)
  show ?case
    using IH keeps(2,3) [OF step.hyps(1)] step.prems(1) by (auto split: if_splits)
qed simp

text \<open>The status a reply carries, as a client reads it off the packet.\<close>

definition status_in :: "ext \<Rightarrow> bytes \<Rightarrow> u32 option" where
  "status_in X reply = (case drop 4 reply of
     kind # body \<Rightarrow> (if kind = STATUS then (case code X body of Inr c \<Rightarrow> Some c | Inl _ \<Rightarrow> None) else None)
   | [] \<Rightarrow> None)"

fun rename_won :: "ext \<Rightarrow> string \<Rightarrow> event \<Rightarrow> bool" where
  "rename_won X n (Request i now (kind # body) (Inr reply)) \<longleftrightarrow>
     kind = RENAME \<and> map_option fst (named X body) = Some n \<and> status_in X reply = Some OK"
| "rename_won X n _ \<longleftrightarrow> False"

fun turn_won :: "ext \<Rightarrow> string \<Rightarrow> event \<Rightarrow> bool" where
  "turn_won X n (Request i now (kind # body) (Inr reply)) \<longleftrightarrow>
     kind = OPEN \<and> status_in X reply = None \<and> (case named X body of
       Some (m, r) \<Rightarrow> m = n \<and> (case r_u32_be X r of
           Inr (flags, _) \<Rightarrow> flags AND F_WRITE \<noteq> 0 \<and> flags AND F_EXCL \<noteq> 0 | Inl _ \<Rightarrow> False)
     | None \<Rightarrow> False)"
| "turn_won X n _ \<longleftrightarrow> False"

lemma rename_wonE:
  assumes "rename_won X n e"
  obtains i now body reply where "e = Request i now (RENAME # body) (Inr reply)"
    "map_option fst (named X body) = Some n" "status_in X reply = Some OK"
  using assms by (cases "(X, n, e)" rule: rename_won.cases) auto

lemma turn_wonE:
  assumes "turn_won X n e"
  obtains i now body reply r flags r' where "e = Request i now (OPEN # body) (Inr reply)"
    "named X body = Some (n, r)" "r_u32_be X r = Inr (flags, r')" "flags AND F_WRITE \<noteq> 0"
    "flags AND F_EXCL \<noteq> 0" "status_in X reply = None"
proof (cases "(X, n, e)" rule: turn_won.cases)
  case (1 X' n' i now kind body reply)
  then obtain m r where "named X body = Some (m, r)" using assms by (auto split: option.splits)
  moreover obtain flags r' where "r_u32_be X r = Inr (flags, r')"
    using assms 1 calculation by (cases "r_u32_be X r") auto
  ultimately show ?thesis using assms 1 that by auto
qed (use assms in auto)

lemma namedE:
  assumes "named X body = Some (n, r2)"
  obtains rid r1 where "r_u32_be X body = Inr (rid, r1)" "r_string X r1 = Inr (as_bytes n, r2)" "rust_str n"
  using assms by (auto simp: named_def from_utf8_Some split: sum.splits)

context wire
begin

lemma status_in_status: "length m < 2 ^ 32 \<Longrightarrow> status_in X (status X rid c m) = Some c"
  by (simp add: status_in_def status_def frame_bytes)

lemma rename_named_won:
  assumes "rename_named X rid f t s = (Inr reply, s')" "status_in X reply = Some OK"
  shows "bt_get (files (dir s)) f \<noteq> None" "bt_get (files (dir s')) f = None"
    "bt_get (files (dir s')) t = bt_get (files (dir s)) f"
  using assms
  by (auto simp: rename_named_def Let_def status_in_status status_codes bt_contains_def
      split: if_splits option.splits)

lemma on_rename_won:
  assumes "on_rename X body s = (Inr reply, s')" "status_in X reply = Some OK" "named X body = Some (n, r2)"
  shows "bt_get (files (dir s)) n \<noteq> None" "bt_get (files (dir s')) n = None"
proof -
  obtain rid r1 where n: "r_u32_be X body = Inr (rid, r1)" "r_string X r1 = Inr (as_bytes n, r2)" "rust_str n"
    using assms(3) by (rule namedE)
  with assms(1) obtain t where "rename_named X rid n t s = (Inr reply, s')"
    by (auto simp: on_rename_def attempt_Inr_conv)
  then show "bt_get (files (dir s)) n \<noteq> None" "bt_get (files (dir s')) n = None"
    using rename_named_won assms(2) by blast+
qed

lemma on_open_exclusive:
  assumes "named X body = Some (n, r)" "r_u32_be X r = Inr (flags, r')" "flags AND F_WRITE \<noteq> 0"
    "flags AND F_EXCL \<noteq> 0"
  shows "bt_get (files (dir s)) n \<noteq> None \<Longrightarrow> status_in X reply = None \<Longrightarrow> on_open X now body s \<noteq> (Inr reply, s')"
    "on_open X now body s = (Inr reply, s') \<Longrightarrow> bt_get (files (dir s')) n \<noteq> None"
proof -
  obtain rid r1 where n: "r_u32_be X body = Inr (rid, r1)" "r_string X r1 = Inr (as_bytes n, r)" "rust_str n"
    using assms(1) by (rule namedE)
  have run: "on_open X now body s = open_named X now rid n flags s"
    using n assms(2) by (simp add: on_open_def)
  show "on_open X now body s \<noteq> (Inr reply, s')" if "bt_get (files (dir s)) n \<noteq> None" "status_in X reply = None"
    using that assms(3,4) by (auto simp: run open_named_def Let_def bt_contains_def status_in_status)
  show "bt_get (files (dir s')) n \<noteq> None" if "on_open X now body s = (Inr reply, s')"
    using that assms(3,4) by (auto simp: run open_named_def Let_def bt_contains_def split: if_splits)
qed

lemma step_rename_won:
  assumes "shared_step X g e h" "rename_won X n e"
  shows "\<not> gone n g \<and> gone n h"
proof -
  obtain i now body reply where e: "e = Request i now (RENAME # body) (Inr reply)"
      "map_option fst (named X body) = Some n" "status_in X reply = Some OK"
    using assms(2) by (rule rename_wonE)
  then obtain r2 where n: "named X body = Some (n, r2)" by auto
  from assms(1) e(1) obtain c s where "serve_request X now (RENAME # body) (serving_of g c) = (Inr reply, s)"
      "s_dir h = dir s"
    by (auto elim: request_stepE)
  moreover from this have "on_rename X body (serving_of g c) = (Inr reply, s)"
    by (simp add: serve_request_def answer_def packet_types)
  ultimately show ?thesis using on_rename_won [OF _ e(3) n] by (force simp: gone_def)
qed

lemma step_turn_won:
  assumes "shared_step X g e h" "turn_won X n e"
  shows "gone n g \<and> \<not> gone n h"
proof -
  obtain i now body reply r flags r' where e: "e = Request i now (OPEN # body) (Inr reply)"
    "named X body = Some (n, r)" "r_u32_be X r = Inr (flags, r')" "flags AND F_WRITE \<noteq> 0"
    "flags AND F_EXCL \<noteq> 0" "status_in X reply = None"
    using assms(2) by (rule turn_wonE)
  from assms(1) e(1) obtain c s where s: "serve_request X now (OPEN # body) (serving_of g c) = (Inr reply, s)"
      "s_dir h = dir s"
    by (auto elim: request_stepE)
  then have "on_open X now body (serving_of g c) = (Inr reply, s)"
    by (simp add: serve_request_def answer_def packet_types)
  then show ?thesis
    using on_open_exclusive [OF e(2-5), where s = "serving_of g c" and reply = reply and now = now and s' = s] e(6) s(2) by (cases "bt_get (files (s_dir g)) n") (auto simp: gone_def)
qed

end

section \<open>Properties\<close>

text \<open>Two channels on the sample directory, and what they ask.\<close>

definition ask_rename :: "nat \<Rightarrow> string \<Rightarrow> string \<Rightarrow> u32 \<Rightarrow> string \<Rightarrow> event" where
  "ask_rename i from to c m = Request i 0 (RENAME # request_body (Rename 7 from to)) (Inr (status std_ext 7 c m))"

definition ask_turn :: "nat \<Rightarrow> string \<Rightarrow> bytes \<Rightarrow> event" where
  "ask_turn i n reply = Request i 0 (OPEN # request_body (Open 7 n (F_WRITE OR F_CREAT OR F_EXCL))) (Inr reply)"

definition two_channels :: "Directory \<Rightarrow> Shared" where
  "two_channels d = \<lparr>s_dir = d, s_chan = [0 \<mapsto> ([], 0), 1 \<mapsto> ([], 0)]\<rparr>"

lemma named_sample: "name_ok n \<Longrightarrow> named std_ext (to_be32 rid @ str n @ rest) = Some (n, rest)"
  by (rule namedI [where rid = rid]) (auto simp: name_ok_def)

lemma opens_sample [simp]: "\<not> opens_to_write X n (RENAME # body)" "\<not> opens_to_write X n []"
  by (simp_all add: opens_to_write_def packet_types)

lemma ask_rename_step:
  assumes "s_chan g i = Some c" "name_ok from" "name_ok to"
    "rename_named std_ext 7 from to (serving_of g c) = (Inr (status std_ext 7 v m), s)"
    "h = g\<lparr>s_dir := dir s, s_chan := (s_chan g)(i \<mapsto> (handles s, next_handle s))\<rparr>"
  shows "shared_step std_ext g (ask_rename i from to v m) h"
  unfolding ask_rename_def
  by (rule servedI [OF assms(1) _ assms(5)]) (use assms(2-4) in \<open>simp add: answer_def packet_types rfc.on_rename_body\<close>)

lemma rename_run:
  "\<exists>h. shared_run std_ext (two_channels (dir sample))
     [ask_rename 0 ''a'' ''b'' OK ''renamed'', ask_rename 1 ''a'' ''c'' NO_SUCH_FILE ''no such file''] h"
proof -
  let ?d = "directory_new [(''b'', [1, 2])]"
  have "shared_step std_ext (two_channels (dir sample)) (ask_rename 0 ''a'' ''b'' OK ''renamed'') (two_channels ?d)"
    by (rule ask_rename_step [where c = "([], 0)" and s = "\<lparr>dir = ?d, handles = [], next_handle = 0\<rparr>"])
      (simp_all add: sample_names two_channels_def rename_named_def Let_def bt_contains_def bt_remove_def
        directory_new_def serving_of_def sample_def fun_eq_iff)
  moreover have "shared_step std_ext (two_channels ?d) (ask_rename 1 ''a'' ''c'' NO_SUCH_FILE ''no such file'') (two_channels ?d)"
    by (rule ask_rename_step [where c = "([], 0)" and s = "\<lparr>dir = ?d, handles = [], next_handle = 0\<rparr>"])
      (simp_all add: sample_names two_channels_def rename_named_def Let_def bt_contains_def bt_remove_def
        directory_new_def serving_of_def fun_eq_iff)
  ultimately show ?thesis by (blast intro: shared_run.intros)
qed

text \<open>
  A claim is won once. In any interleaving of any number of channels over one directory, as
  long as nobody opens the name for writing, holds it open so, or renames onto it, at most one
  RENAME of the file is answered OK.
\<close>

lemma claim_is_won_once:
  assumes "limits X" "shared_run X g es h" "all_unheld n g"
    "\<forall>e \<in> set es. \<not> opens_to_write X n (packet_of e) \<and> \<not> renames_to X n (packet_of e)"
  shows "length (filter (rename_won X n) es) \<le> 1"
proof -
  have w: "wire X" using assms(1) by (rule limits.axioms(1))
  have "length (filter (rename_won X n) es) \<le> (if gone n g then 0 else 1)"
    using assms(2,3)
  proof (rule at_most_once [where J = "all_unheld n"])
    fix g e h
    assume "shared_step X g e h" "e \<in> set es" "all_unheld n g"
    then show "all_unheld n h" "gone n g \<Longrightarrow> gone n h" "rename_won X n e \<Longrightarrow> \<not> gone n g \<and> gone n h"
      using assms(4) step_unheld step_gone wire.step_rename_won [OF w] by blast+
  qed
  then show ?thesis by (simp split: if_splits)
qed

text \<open>
  A turn is taken once. In any interleaving, as long as nobody removes the turn's file or
  renames it, at most one exclusive OPEN of it is given a handle: of the nodes that race for
  the turn, one has it.
\<close>

lemma turn_is_taken_once:
  assumes "limits X" "shared_run X g es h" "\<forall>e \<in> set es. \<not> takes_away X n (packet_of e)"
  shows "length (filter (turn_won X n) es) \<le> 1"
proof -
  have w: "wire X" using assms(1) by (rule limits.axioms(1))
  have "length (filter (turn_won X n) es) \<le> (if \<not> gone n g then 0 else 1)"
    using assms(2) TrueI
  proof (rule at_most_once [where J = "\<lambda>_. True" and D = "\<lambda>g. \<not> gone n g"])
    fix g e h
    assume step: "shared_step X g e h" "e \<in> set es"
    show "\<not> gone n h" if "\<not> gone n g"
      using step_keeps_file [OF step(1)] assms(3) step(2) that by (simp add: gone_def)
    show "\<not> \<not> gone n g \<and> \<not> gone n h" if "turn_won X n e"
      using wire.step_turn_won [OF w step(1) that] by simp
  qed simp
  then show ?thesis by (simp split: if_splits)
qed

lemma ask_turn_step:
  assumes "s_chan g i = Some c" "name_ok n"
    "open_named std_ext 0 7 n (F_WRITE OR F_CREAT OR F_EXCL) (serving_of g c) = (Inr reply, s)"
    "h = g\<lparr>s_dir := dir s, s_chan := (s_chan g)(i \<mapsto> (handles s, next_handle s))\<rparr>"
  shows "shared_step std_ext g (ask_turn i n reply) h"
  unfolding ask_turn_def
  by (rule servedI [OF assms(1) _ assms(4)]) (use assms(2,3) in \<open>simp add: answer_def packet_types rfc.on_open_body\<close>)

lemma turn_run:
  "shared_run std_ext (two_channels (dir sample))
     [ask_turn 0 ''b'' (handle_reply std_ext 7 ''h0''), ask_turn 1 ''b'' (status std_ext 7 FAILURE ''the file exists'')]
     \<lparr>s_dir = touch 0 ''b'' (directory_new [(''a'', [1, 2]), (''b'', [])]),
       s_chan = [0 \<mapsto> ([(''h0'', WriteHandle ''b'')], 1), 1 \<mapsto> ([], 1)]\<rparr>"
proof -
  let ?d = "touch 0 ''b'' (directory_new [(''a'', [1, 2]), (''b'', [])])"
  let ?h = "\<lparr>s_dir = ?d, s_chan = [0 \<mapsto> ([(''h0'', WriteHandle ''b'')], 1), 1 \<mapsto> ([], 0)]\<rparr>"
  have "shared_step std_ext (two_channels (dir sample)) (ask_turn 0 ''b'' (handle_reply std_ext 7 ''h0'')) ?h"
    by (rule ask_turn_step [where c = "([], 0)" and s = "\<lparr>dir = ?d, handles = [(''h0'', WriteHandle ''b'')], next_handle = 1\<rparr>"])
      (simp_all add: sample_names two_channels_def open_named_def Let_def bt_contains_def open_flags
        directory_new_def serving_of_def sample_def fun_eq_iff)
  moreover have "shared_step std_ext ?h (ask_turn 1 ''b'' (status std_ext 7 FAILURE ''the file exists''))
      (?h\<lparr>s_chan := [0 \<mapsto> ([(''h0'', WriteHandle ''b'')], 1), 1 \<mapsto> ([], 1)]\<rparr>)"
    by (rule ask_turn_step [where c = "([], 0)" and s = "\<lparr>dir = ?d, handles = [], next_handle = 1\<rparr>"])
      (simp_all add: sample_names open_named_def Let_def bt_contains_def open_flags
        directory_new_def serving_of_def fun_eq_iff)
  ultimately show ?thesis by (auto simp: run_Cons)
qed

text \<open>
  C21. However channels open, interleave their requests, fail and hang up over one directory, the
  directory and every channel's handles stay well formed and every file under the ceiling.
\<close>

theorem shared_runs_keep_wf:
  assumes "limits X" "dir_wf d" "dir_bounded X d" "shared_run X (shared_start d) es h"
  shows "shared_wf X h"
  using assms(4,1) shared_start_wf [OF assms(2,3)] by (rule shared_run_wf)

theorem shared_runs_keep_wf_witness:
  "shared_wf std_ext (shared_start (dir sample)\<lparr>s_chan := [0 \<mapsto> ([], 0)]\<rparr>)"
proof (rule shared_runs_keep_wf [OF rfc_limits.limits_axioms])
  show "dir_wf (dir sample)" "dir_bounded std_ext (dir sample)"
    using sample_wf sample_bounded by (simp_all add: serving_wf_def)
  have "shared_step std_ext (shared_start (dir sample)) (Connect 0) (shared_start (dir sample)\<lparr>s_chan := [0 \<mapsto> ([], 0)]\<rparr>)"
    using shared_step.connect [of "shared_start (dir sample)" 0 std_ext] by (simp add: shared_start_def)
  then show "shared_run std_ext (shared_start (dir sample)) [Connect 0] (shared_start (dir sample)\<lparr>s_chan := [0 \<mapsto> ([], 0)]\<rparr>)"
    by (blast intro: shared_run.intros)
qed

end
