(* ===== verification/Subsystem.thy ===== *)
theory Subsystem
  imports Directory_Spec
begin

unbundle bit_operations_syntax

text \<open>
  The client's side of the subsystem (\<open>Sftp\<close> of \<open>subsystem.rs\<close>), over a channel that is an
  argument (\<open>'c channel\<close>). An operation returns \<open>None\<close> only where a loop of it never ends.
  The body a put sends is read by \<open>Outgoing::pieces\<close> of the transport capability, an
  argument too: it is given the piece size and the callback.
\<close>

section \<open>State and exchange\<close>

record 'c Sftp =
  chan :: 'c
  next_id :: u32

definition sftp_new :: "'c \<Rightarrow> 'c Sftp" where
  "sftp_new c = \<lparr>chan = c, next_id = 1\<rparr>"

definition sftp_id :: "('c Sftp, u32) act" where
  "sftp_id s = Some (Inr (next_id s), s\<lparr>next_id := next_id s + 1\<rparr>)"

definition sftp_send :: "ext \<Rightarrow> 'c channel \<Rightarrow> u8 \<Rightarrow> bytes \<Rightarrow> ('c Sftp, unit) act" where
  "sftp_send X K kind body s =
     (case ch_write K (chan s) (frame X kind body) of (r, c) \<Rightarrow> Some (r, s\<lparr>chan := c\<rparr>))"

definition sftp_read_exact :: "'c channel \<Rightarrow> usize \<Rightarrow> ('c Sftp, bytes) act" where
  "sftp_read_exact K n s =
     (case ch_read_exact K (chan s) n of (r, c) \<Rightarrow> Some (r, s\<lparr>chan := c\<rparr>))"

definition sftp_recv :: "'c channel \<Rightarrow> ('c Sftp, u8 \<times> bytes) act" where
  "sftp_recv K =
     bind_act (sftp_read_exact K 4) (\<lambda>l.
     bind_act (case l of a # b # c # d # _ \<Rightarrow> return_act (unat (from_be32 a b c d)) | _ \<Rightarrow> fail_act Panic) (\<lambda>n.
     bind_act (sftp_read_exact K n) (\<lambda>body. case body of
       [] \<Rightarrow> fail_act (ProtocolError ''an SFTP packet with no type'')
     | kind # rest \<Rightarrow> return_act (kind, rest))))"

definition sftp_request :: "ext \<Rightarrow> 'c channel \<Rightarrow> u8 \<Rightarrow> bytes \<Rightarrow> string \<Rightarrow> ('c Sftp, unit) act" where
  "sftp_request X K kind body what =
     bind_act (sftp_send X K kind body) (\<lambda>_.
     bind_act (sftp_recv K) (\<lambda>(reply, body).
       if reply = STATUS then
         bind_act (lift_act (code X body)) (\<lambda>c.
           if c = OK then return_act () else fail_act (status_error X body what))
       else fail_act (ProtocolError (''a reply where a status for '' @ what @ '' was due''))))"

definition sftp_expect_handle :: "ext \<Rightarrow> 'c channel \<Rightarrow> ('c Sftp, string) act" where
  "sftp_expect_handle X K =
     bind_act (sftp_recv K) (\<lambda>(kind, body).
       if kind = HANDLE then
         bind_act (lift_act (r_u32_be X body)) (\<lambda>(_, reader).
         bind_act (lift_act (r_string X reader)) (\<lambda>(h, _). case from_utf8 h of
           Some s \<Rightarrow> return_act s
         | None \<Rightarrow> fail_act (ProtocolError ''a handle that is not UTF-8'')))
       else if kind = STATUS then fail_act (status_error X body ''the open'')
       else fail_act (ProtocolError ''a reply where a handle was due''))"

section \<open>Operations\<close>

definition sftp_start :: "ext \<Rightarrow> 'c channel \<Rightarrow> ('c Sftp, unit) act" where
  "sftp_start X K =
     bind_act (sftp_send X K INIT (w_u32_be X [] PROTOCOL)) (\<lambda>_.
     bind_act (sftp_recv K) (\<lambda>(kind, body).
       if kind \<noteq> VERSION then fail_act (ProtocolError ''a server that does not speak SFTP version 3'')
       else bind_act (lift_act (r_u32_be X body)) (\<lambda>(v, _).
         if v \<noteq> PROTOCOL then fail_act (ProtocolError ''a server that does not speak SFTP version 3'')
         else return_act ())))"

definition sftp_open :: "ext \<Rightarrow> 'c channel \<Rightarrow> string \<Rightarrow> u32 \<Rightarrow> ('c Sftp, string) act" where
  "sftp_open X K name flags =
     bind_act sftp_id (\<lambda>rid.
     bind_act (sftp_send X K OPEN
       (w_u32_be X (w_u32_be X (w_string X (w_u32_be X [] rid) (as_bytes name)) flags) 0)) (\<lambda>_.
     sftp_expect_handle X K))"

definition sftp_close :: "ext \<Rightarrow> 'c channel \<Rightarrow> string \<Rightarrow> ('c Sftp, unit) act" where
  "sftp_close X K handle =
     bind_act sftp_id (\<lambda>rid.
     sftp_request X K CLOSE (w_string X (w_u32_be X [] rid) (as_bytes handle)) ''the close'')"

text \<open>
  The callback of a put: one piece is one \<open>WRITE\<close> at the offset, which moves on behind it.
  Its state is the connection and the offset it captures.
\<close>

definition write_piece :: "ext \<Rightarrow> 'c channel \<Rightarrow> string \<Rightarrow> bytes \<Rightarrow> ('c Sftp \<times> u64, unit) act" where
  "write_piece X K handle chunk = (\<lambda>(s, offset).
     case bind_act sftp_id (\<lambda>rid. sftp_request X K WRITE
            (w_string X (w_u64_be X (w_string X (w_u32_be X [] rid) (as_bytes handle)) offset) chunk)
            ''the write'') s of
       None \<Rightarrow> None
     | Some (Inl e, s) \<Rightarrow> Some (Inl e, (s, offset))
     | Some (Inr _, s) \<Rightarrow> Some (Inr (), (s, offset + of_nat (length chunk))))"

type_synonym 's pieces = "usize \<Rightarrow> (bytes \<Rightarrow> ('s, unit) act) \<Rightarrow> ('s, unit) act"

definition sftp_put ::
  "ext \<Rightarrow> 'c channel \<Rightarrow> string \<Rightarrow> ('c Sftp \<times> u64) pieces \<Rightarrow> ('c Sftp, unit) act" where
  "sftp_put X K name pieces =
     bind_act (sftp_open X K name (F_WRITE OR F_CREAT OR F_TRUNC)) (\<lambda>handle.
     bind_act (\<lambda>s. map_option (\<lambda>(r, (s, _)). (r, s)) (pieces CHUNK (write_piece X K handle) (s, 0))) (\<lambda>_.
     sftp_close X K handle))"

definition sftp_open_for_reading :: "ext \<Rightarrow> 'c channel \<Rightarrow> string \<Rightarrow> ('c Sftp, string) act" where
  "sftp_open_for_reading X K name = sftp_open X K name F_READ"

definition sftp_read_at :: "ext \<Rightarrow> 'c channel \<Rightarrow> string \<Rightarrow> u64 \<Rightarrow> ('c Sftp, bytes option) act" where
  "sftp_read_at X K handle offset =
     bind_act sftp_id (\<lambda>rid.
     bind_act (sftp_send X K READ
       (w_u32_be X (w_u64_be X (w_string X (w_u32_be X [] rid) (as_bytes handle)) offset)
          (u32_of_usize CHUNK))) (\<lambda>_.
     bind_act (sftp_recv K) (\<lambda>(kind, body).
       if kind = DATA then
         bind_act (lift_act (r_u32_be X body)) (\<lambda>(_, reader).
         bind_act (lift_act (r_string X reader)) (\<lambda>(d, _). return_act (Some d)))
       else if kind = STATUS then
         bind_act (lift_act (code X body)) (\<lambda>c.
           if c = EOF then return_act None else fail_act (status_error X body ''the read''))
       else fail_act (ProtocolError ''a reply that was neither data nor status''))))"

definition sftp_readdir :: "ext \<Rightarrow> 'c channel \<Rightarrow> string \<Rightarrow> ('c Sftp, u8 \<times> bytes) act" where
  "sftp_readdir X K handle =
     bind_act sftp_id (\<lambda>rid.
     bind_act (sftp_send X K READDIR (w_string X (w_u32_be X [] rid) (as_bytes handle))) (\<lambda>_.
     sftp_recv K))"

partial_function (option) list_loop ::
  "ext \<Rightarrow> 'c channel \<Rightarrow> string \<Rightarrow> Listed list \<Rightarrow> 'c Sftp
     \<Rightarrow> ((transport_error + Listed list) \<times> 'c Sftp) option" where
  "list_loop X K handle names s =
     (case sftp_readdir X K handle s of
        None \<Rightarrow> None
      | Some (r, s) \<Rightarrow>
          (case r of
             Inl e \<Rightarrow> Some (Inl e, s)
           | Inr (kind, body) \<Rightarrow>
               if kind = NAME then
                 (case entries X body of
                    Inl e \<Rightarrow> Some (Inl e, s)
                  | Inr es \<Rightarrow> list_loop X K handle (names @ es) s)
               else if kind = STATUS then
                 (case code X body of
                    Inl e \<Rightarrow> Some (Inl e, s)
                  | Inr c \<Rightarrow> if c = EOF then Some (Inr names, s)
                             else Some (Inl (status_error X body ''the listing''), s))
               else Some (Inl (ProtocolError ''a reply that was neither names nor status''), s)))"

definition sftp_list :: "ext \<Rightarrow> 'c channel \<Rightarrow> ('c Sftp, Listed list) act" where
  "sftp_list X K =
     bind_act sftp_id (\<lambda>rid.
     bind_act (sftp_send X K OPENDIR (w_string X (w_u32_be X [] rid) (as_bytes ''.''))) (\<lambda>_.
     bind_act (sftp_expect_handle X K) (\<lambda>handle.
     bind_act (list_loop X K handle []) (\<lambda>names.
     bind_act (sftp_close X K handle) (\<lambda>_.
     return_act (filter (\<lambda>(name, _). name \<noteq> ''.'' \<and> name \<noteq> ''..'') names))))))"

definition sftp_remove :: "ext \<Rightarrow> 'c channel \<Rightarrow> string \<Rightarrow> ('c Sftp, unit) act" where
  "sftp_remove X K name =
     bind_act sftp_id (\<lambda>rid.
     sftp_request X K REMOVE (w_string X (w_u32_be X [] rid) (as_bytes name)) ''the remove'')"

section \<open>A body read in pieces\<close>

text \<open>
  \<open>Outgoing::pieces(n, f)\<close> as its documentation has it: the callback on each piece in order,
  at most \<open>n\<close> bytes each, the first error returned; an empty body is one empty piece.
\<close>

primrec each_piece :: "(bytes \<Rightarrow> ('s, unit) act) \<Rightarrow> bytes list \<Rightarrow> ('s, unit) act" where
  "each_piece f [] = return_act ()"
| "each_piece f (c # cs) = bind_act (f c) (\<lambda>_. each_piece f cs)"

definition streams :: "'s pieces \<Rightarrow> bytes \<Rightarrow> bool" where
  "streams P body \<longleftrightarrow> (\<forall>n f. 0 < n \<longrightarrow> (\<exists>chunks. chunks \<noteq> [] \<and> concat chunks = body
     \<and> (\<forall>c \<in> set chunks. length c \<le> n) \<and> P n f = each_piece f chunks))"

text \<open>Bytes held in memory, cut into pieces.\<close>

function cut :: "usize \<Rightarrow> bytes \<Rightarrow> bytes list" where
  "cut n b = (if n = 0 \<or> length b \<le> n then [b] else take n b # cut n (drop n b))"
  by pat_completeness auto
termination
  by (relation "measure (\<lambda>(n, b). length b)") auto

declare cut.simps [simp del]

definition held :: "bytes \<Rightarrow> 's pieces" where
  "held b n f = each_piece f (cut n b)"

lemma cut_not_Nil: "cut n b \<noteq> []"
  by (subst cut.simps) simp

lemma concat_cut: "concat (cut n b) = b"
proof (induction n b rule: cut.induct)
  case (1 n b)
  then show ?case by (subst cut.simps) auto
qed

lemma length_cut: "0 < n \<Longrightarrow> c \<in> set (cut n b) \<Longrightarrow> length c \<le> n"
proof (induction n b rule: cut.induct)
  case (1 n b)
  then show ?case by (subst (asm) (2) cut.simps) (auto split: if_splits)
qed

lemma streams_held: "streams (held b) b"
  unfolding streams_def held_def using cut_not_Nil concat_cut length_cut by blast

section \<open>What a write changes\<close>

definition rewritten :: "string \<Rightarrow> bytes \<Rightarrow> far_end \<Rightarrow> far_end \<Rightarrow> bool" where
  "rewritten n b f f' \<longleftrightarrow> content f' = (content f)(n \<mapsto> b) \<and> (\<forall>m. m \<noteq> n \<longrightarrow> mtime f' m = mtime f m)
     \<and> opened f' = opened f \<and> issued f' = issued f \<and> announces f' = announces f
     \<and> announced f' = announced f \<and> latest f \<le> latest f'"

lemma latest_tick: "latest f \<le> tick now f"
proof (cases "latest f < u32_max")
  case True
  then have "latest f \<le> u32_saturating_add (latest f) 1"
    by (rule less_imp_le [OF u32_saturating_add_gt])
  then show ?thesis by (simp add: tick_def le_max_iff_disj)
next
  case False
  then have "latest f = u32_max" using u32_le_max [of "latest f"] by (simp add: not_less)
  then show ?thesis by (simp add: tick_def le_max_iff_disj)
qed

lemma rewritten_write_file: "rewritten n b f (write_file now n b f)"
  by (simp add: rewritten_def latest_tick)

lemma rewritten_trans: "rewritten n b f f' \<Longrightarrow> rewritten n c f' f'' \<Longrightarrow> rewritten n c f f''"
  by (auto simp: rewritten_def)

lemma rewritten_refl: "content f n = Some b \<Longrightarrow> rewritten n b f f"
  by (auto simp: rewritten_def)

section \<open>A channel to a far end\<close>

text \<open>
  What the client relies on of its channel where the far end serves it: a packet written is
  one frame the far end reads and answers (at some reading of its clock), its reply is what
  the client reads next, in order and whole. \<open>linked c s p\<close>: the far end behind \<open>c\<close> is in
  state \<open>s\<close>, and \<open>p\<close> is what it wrote and the client has not read.
\<close>

definition ready :: "ext \<Rightarrow> ('c \<Rightarrow> Serving \<Rightarrow> bytes \<Rightarrow> bool) \<Rightarrow> 'c Sftp \<Rightarrow> Serving \<Rightarrow> bool" where
  "ready X linked t s \<longleftrightarrow> linked (chan t) s [] \<and> serving_wf s \<and> dir_bounded X (dir s)"

locale session = limits X for X :: ext +
  fixes K :: "'c channel"
    and linked :: "'c \<Rightarrow> Serving \<Rightarrow> bytes \<Rightarrow> bool"
  assumes write_link: "linked c s p \<Longrightarrow> length body + 1 < 2 ^ 32 \<Longrightarrow>
      \<exists>now. \<forall>reply s'. serve_request X now (kind # body) s = (Inr reply, s') \<longrightarrow>
        (\<exists>c'. ch_write K c (frame X kind body) = (Inr (), c') \<and> linked c' s' (p @ reply))"
    and read_link: "linked c s p \<Longrightarrow> n \<le> length p \<Longrightarrow>
      \<exists>c'. ch_read_exact K c n = (Inr (take n p), c') \<and> linked c' s (drop n p)"
begin

lemma length_request_body: "request_ok q \<Longrightarrow> length (request_body q) + 1 < 2 ^ 32"
  by (cases q) (auto simp: name_ok_def)

lemma recv_frame:
  assumes "linked (chan t) s (frame X kind body)" "length body + 1 < 2 ^ 32"
  obtains t' where "sftp_recv K t = Some (Inr (kind, body), t')" "linked (chan t') s []"
    "next_id t' = next_id t"
proof -
  have fb: "frame X kind body = to_be32 (of_nat (length body + 1)) @ kind # body"
    using assms(2) by (simp add: frame_bytes)
  obtain c1 where c1: "ch_read_exact K (chan t) 4 = (Inr (to_be32 (of_nat (length body + 1))), c1)"
      "linked c1 s (kind # body)"
    using read_link [OF assms(1), of 4] by (auto simp: fb)
  obtain c2 where c2: "ch_read_exact K c1 (length body + 1) = (Inr (kind # body), c2)" "linked c2 s []"
    using read_link [OF c1(2), of "length body + 1"] by auto
  have "sftp_read_exact K 4 t = Some (Inr (to_be32 (of_nat (length body + 1))), t\<lparr>chan := c1\<rparr>)"
    using c1 by (simp add: sftp_read_exact_def)
  moreover have "(case to_be32 (of_nat (length body + 1)) of
       a # b # c # d # _ \<Rightarrow> return_act (unat (from_be32 a b c d)) | _ \<Rightarrow> fail_act Panic) (t\<lparr>chan := c1\<rparr>)
     = Some (Inr (length body + 1), t\<lparr>chan := c1\<rparr>)"
    using unat_of_nat_u32 [OF assms(2)] by (simp add: to_be32_def)
  moreover have "sftp_read_exact K (length body + 1) (t\<lparr>chan := c1\<rparr>) = Some (Inr (kind # body), t\<lparr>chan := c2\<rparr>)"
    using c2 by (simp add: sftp_read_exact_def)
  ultimately have "sftp_recv K t = Some (Inr (kind, body), t\<lparr>chan := c2\<rparr>)"
    by (simp add: sftp_recv_def)
  with c2 show ?thesis using that [of "t\<lparr>chan := c2\<rparr>"] by simp
qed

text \<open>One request and its reply, as the abstract far end gives it.\<close>

lemma exchange:
  assumes "ready X linked t s" "request_ok q"
    "\<And>rid h. q = Readdir rid h \<Longrightarrow> listing_size (far_end_of s) < 2 ^ 30"
  obtains now r body t1 t' s' where
    "sftp_send X K (request_kind q) (request_body q) t = Some (Inr (), t1)"
    "sftp_recv K t1 = Some (Inr (reply_kind r, body), t')"
    "reply_body r body"
    "far_step (MAX_BODY X) now q (far_end_of s) = (r, far_end_of s')"
    "ready X linked t' s'" "next_id t' = next_id t"
proof -
  from assms(1) have l: "linked (chan t) s []" "serving_wf s" "dir_bounded X (dir s)"
    by (auto simp: ready_def)
  obtain now where now: "\<And>reply s'. serve_request X now (request_kind q # request_body q) s = (Inr reply, s') \<Longrightarrow>
      \<exists>c'. ch_write K (chan t) (frame X (request_kind q) (request_body q)) = (Inr (), c') \<and> linked c' s' reply"
    using write_link [OF l(1) length_request_body [OF assms(2)]] by fastforce
  have "refined X now q s (answer X now (request_kind q) (request_body q) s)"
    using l assms by (intro answer_refined) auto
  then obtain packet s' r where a: "answer X now (request_kind q) (request_body q) s = (Inr packet, s')"
      "far_step (MAX_BODY X) now q (far_end_of s) = (r, far_end_of s')" "carries X packet r"
    by (auto simp: refined_def)
  then obtain c' where c': "ch_write K (chan t) (frame X (request_kind q) (request_body q)) = (Inr (), c')"
      "linked c' s' packet"
    using now by (auto simp: serve_request_def)
  from a(3) obtain body where body: "packet = frame X (reply_kind r) body" "reply_body r body"
      "length body + 1 < 2 ^ 32"
    by (auto simp: carries_def)
  have wf: "serving_wf s'" "dir_bounded X (dir s')"
    using answer_wf [OF l(2), of X now "request_kind q" "request_body q"]
      answer_bounded [OF l(3), of now "request_kind q" "request_body q"] a(1) by auto
  have send: "sftp_send X K (request_kind q) (request_body q) t = Some (Inr (), t\<lparr>chan := c'\<rparr>)"
    using c' by (simp add: sftp_send_def)
  have "linked (chan (t\<lparr>chan := c'\<rparr>)) s' (frame X (reply_kind r) body)"
    using c'(2) body(1) by simp
  then obtain t' where "sftp_recv K (t\<lparr>chan := c'\<rparr>) = Some (Inr (reply_kind r, body), t')"
      "linked (chan t') s' []" "next_id t' = next_id (t\<lparr>chan := c'\<rparr>)"
    using body(3) by (rule recv_frame)
  with send body a(2) wf show ?thesis
    using that [of "t\<lparr>chan := c'\<rparr>" r body t' now s'] by (simp add: ready_def)
qed

lemma ready_id [simp]: "ready X linked (t\<lparr>next_id := i\<rparr>) s = ready X linked t s"
  by (simp add: ready_def)

lemma run_id [simp]: "bind_act sftp_id k t = k (next_id t) (t\<lparr>next_id := next_id t + 1\<rparr>)"
  by (simp add: sftp_id_def)

text \<open>A request answered by a status.\<close>

lemma request_status:
  assumes "ready X linked t s" "request_ok q" "\<And>rid h. q \<noteq> Readdir rid h"
    and "\<And>now. \<exists>rid c. fst (far_step (MAX_BODY X) now q (far_end_of s)) = StatusReply rid c"
  obtains now rid c t' s' where
    "sftp_request X K (request_kind q) (request_body q) what t = Some (if c = OK then Inr ()
       else Inl (ProtocolError (''the server refused '' @ what @ '' with SFTP status '' @ decimal (unat c))), t')"
    "far_step (MAX_BODY X) now q (far_end_of s) = (StatusReply rid c, far_end_of s')"
    "ready X linked t' s'" "next_id t' = next_id t"
proof -
  obtain now r body t1 t' s' where e:
    "sftp_send X K (request_kind q) (request_body q) t = Some (Inr (), t1)"
    "sftp_recv K t1 = Some (Inr (reply_kind r, body), t')" "reply_body r body"
    "far_step (MAX_BODY X) now q (far_end_of s) = (r, far_end_of s')"
    "ready X linked t' s'" "next_id t' = next_id t"
    using assms(1,2) by (rule exchange) (use assms(3) in auto)
  with assms(4) [of now] obtain rid c where r: "r = StatusReply rid c" by auto
  with e(3) obtain rest where "body = to_be32 rid @ to_be32 c @ rest" by auto
  then have "sftp_request X K (request_kind q) (request_body q) what t = Some (if c = OK then Inr ()
       else Inl (ProtocolError (''the server refused '' @ what @ '' with SFTP status '' @ decimal (unat c))), t')"
    using e(1,2) by (simp add: sftp_request_def r status_error_status)
  with e r that show ?thesis by blast
qed

lemma open_reply:
  assumes "ready X linked t s" "name_ok n"
  obtains now r t' s' where
    "far_step (MAX_BODY X) now (Open (next_id t) n flags) (far_end_of s) = (r, far_end_of s')"
    "ready X linked t' s'" "next_id t' = next_id t + 1"
    "\<And>rid h. r = HandleReply rid h \<Longrightarrow> sftp_open X K n flags t = Some (Inr h, t')"
    "\<And>rid c. r = StatusReply rid c \<Longrightarrow> \<exists>e. sftp_open X K n flags t = Some (Inl e, t')"
proof -
  let ?t = "t\<lparr>next_id := next_id t + 1\<rparr>" and ?q = "Open (next_id t) n flags"
  have "ready X linked ?t s" "request_ok ?q" using assms by simp_all
  then obtain now r body t1 t' s' where e:
    "sftp_send X K (request_kind ?q) (request_body ?q) ?t = Some (Inr (), t1)"
    "sftp_recv K t1 = Some (Inr (reply_kind r, body), t')" "reply_body r body"
    "far_step (MAX_BODY X) now ?q (far_end_of s) = (r, far_end_of s')"
    "ready X linked t' s'" "next_id t' = next_id ?t"
    by (rule exchange) simp
  have run: "sftp_open X K n flags t = sftp_expect_handle X K t1"
    using e(1) assms(2) by (simp add: sftp_open_def name_ok_def)
  have h: "name_ok h" if "r = HandleReply rid h" for rid h
    using e(4) that handle_name_ok(1) by (auto simp: Let_def split: if_splits)
  have "sftp_open X K n flags t = Some (Inr h, t')" if r: "r = HandleReply rid h" for rid h
    using e(2,3) h [OF r] by (simp add: run sftp_expect_handle_def r name_ok_def)
  moreover have "\<exists>e. sftp_open X K n flags t = Some (Inl e, t')" if r: "r = StatusReply rid c" for rid c
    using e(2) by (simp add: run sftp_expect_handle_def r packet_types)
  ultimately show ?thesis using e(4-6) that by auto
qed

lemma close_reply:
  assumes "ready X linked t s" "name_ok h"
  obtains t' s' where "sftp_close X K h t = Some (Inr (), t')" "ready X linked t' s'"
    "next_id t' = next_id t + 1"
    "far_end_of s' = (far_end_of s)\<lparr>opened := (opened (far_end_of s))(h := None),
       announced := announced (far_end_of s) @ (case opened (far_end_of s) h of
          Some (WriteHandle n) \<Rightarrow> if announces (far_end_of s) then [n] else [] | _ \<Rightarrow> [])\<rparr>"
proof -
  let ?t = "t\<lparr>next_id := next_id t + 1\<rparr>" and ?q = "Close (next_id t) h"
  have "ready X linked ?t s" "request_ok ?q" using assms by simp_all
  then obtain now rid c t' s' where e:
    "sftp_request X K (request_kind ?q) (request_body ?q) ''the close'' ?t = Some (if c = OK then Inr ()
       else Inl (ProtocolError (''the server refused '' @ ''the close'' @ '' with SFTP status '' @ decimal (unat c))), t')"
    "far_step (MAX_BODY X) now ?q (far_end_of s) = (StatusReply rid c, far_end_of s')"
    "ready X linked t' s'" "next_id t' = next_id ?t"
    by (rule request_status) auto
  then have "sftp_close X K h t = Some (Inr (), t')"
    using assms(2) by (simp add: sftp_close_def name_ok_def)
  then show ?thesis using e(3)
    by (rule that) (use e(2,4) in auto)
qed

lemma remove_reply:
  assumes "ready X linked t s" "name_ok n"
  obtains r t' s' where "sftp_remove X K n t = Some (r, t')" "ready X linked t' s'"
    "r = Inr () \<longleftrightarrow> content (far_end_of s) n \<noteq> None"
    "far_end_of s' = (far_end_of s)\<lparr>content := (content (far_end_of s))(n := None),
       mtime := (mtime (far_end_of s))(n := 0)\<rparr>"
proof -
  let ?t = "t\<lparr>next_id := next_id t + 1\<rparr>" and ?q = "Remove (next_id t) n"
  have "ready X linked ?t s" "request_ok ?q" using assms by simp_all
  then obtain now rid c t' s' where e:
    "sftp_request X K (request_kind ?q) (request_body ?q) ''the remove'' ?t = Some (if c = OK then Inr ()
       else Inl (ProtocolError (''the server refused '' @ ''the remove'' @ '' with SFTP status '' @ decimal (unat c))), t')"
    "far_step (MAX_BODY X) now ?q (far_end_of s) = (StatusReply rid c, far_end_of s')"
    "ready X linked t' s'" "next_id t' = next_id ?t"
    by (rule request_status) auto
  have run: "sftp_remove X K n t = Some (if c = OK then Inr ()
       else Inl (ProtocolError (''the server refused '' @ ''the remove'' @ '' with SFTP status '' @ decimal (unat c))), t')"
    using e(1) assms(2) by (simp add: sftp_remove_def name_ok_def)
  show ?thesis
    by (rule that [OF run e(3)]) (use e(2) in \<open>auto simp: status_codes split: if_splits\<close>)
qed

lemma write_reply:
  assumes "ready X linked t s" "name_ok h" "length d < 2 ^ 30"
    "opened (far_end_of s) h = Some (WriteHandle n)" "unat off + length d \<le> MAX_BODY X"
  obtains now t' s' where
    "write_piece X K h d (t, off) = Some (Inr (), (t', off + of_nat (length d)))"
    "ready X linked t' s'"
    "far_end_of s' = write_file now n (overwrite
       (case content (far_end_of s) n of Some b \<Rightarrow> b | None \<Rightarrow> []) (unat off) d) (far_end_of s)"
proof -
  let ?t = "t\<lparr>next_id := next_id t + 1\<rparr>" and ?q = "Write (next_id t) h off d"
  have "ready X linked ?t s" "request_ok ?q" using assms by simp_all
  then obtain now rid c t' s' where e:
    "sftp_request X K (request_kind ?q) (request_body ?q) ''the write'' ?t = Some (if c = OK then Inr ()
       else Inl (ProtocolError (''the server refused '' @ ''the write'' @ '' with SFTP status '' @ decimal (unat c))), t')"
    "far_step (MAX_BODY X) now ?q (far_end_of s) = (StatusReply rid c, far_end_of s')"
    "ready X linked t' s'" "next_id t' = next_id ?t"
    by (rule request_status) (use assms in auto)
  have "c = OK" using e(2) assms(4,5) by auto
  then have "write_piece X K h d (t, off) = Some (Inr (), (t', off + of_nat (length d)))"
    using e(1) assms(2,3) by (simp add: write_piece_def name_ok_def)
  then show ?thesis using e(3)
    by (rule that [of t' s' now]) (use e(2) assms(4,5) in auto)
qed

lemma read_reply:
  assumes "ready X linked t s" "name_ok h" "opened (far_end_of s) h = Some (ReadHandle n)"
  defines "b \<equiv> (case content (far_end_of s) n of Some b \<Rightarrow> b | None \<Rightarrow> [])"
  obtains t' s' where
    "sftp_read_at X K h off t = Some (Inr (if unat off < length b
       then Some (take CHUNK (drop (unat off) b)) else None), t')"
    "ready X linked t' s'" "far_end_of s' = far_end_of s" "next_id t' = next_id t + 1"
proof -
  let ?t = "t\<lparr>next_id := next_id t + 1\<rparr>" and ?q = "Read (next_id t) h off (u32_of_usize CHUNK)"
  have want: "unat (u32_of_usize CHUNK) = CHUNK" by (simp add: CHUNK_def)
  have "ready X linked ?t s" "request_ok ?q" using assms by (simp_all add: want) (simp add: CHUNK_def)
  then obtain now r body t1 t' s' where e:
    "sftp_send X K (request_kind ?q) (request_body ?q) ?t = Some (Inr (), t1)"
    "sftp_recv K t1 = Some (Inr (reply_kind r, body), t')" "reply_body r body"
    "far_step (MAX_BODY X) now ?q (far_end_of s) = (r, far_end_of s')"
    "ready X linked t' s'" "next_id t' = next_id ?t"
    by (rule exchange) simp
  have same: "far_end_of s' = far_end_of s"
    and r: "r = (if unat off < length b then DataReply (next_id t) (take CHUNK (drop (unat off) b))
      else StatusReply (next_id t) EOF)"
    using e(4) assms(3) by (auto simp: b_def want Let_def split: if_splits)
  have "length (take CHUNK (drop (unat off) b)) < 2 ^ 32" by (simp add: CHUNK_def)
  then have "sftp_read_at X K h off t = Some (Inr (if unat off < length b
       then Some (take CHUNK (drop (unat off) b)) else None), t')"
    using e(1-3) assms(2)
    by (cases "unat off < length b") (auto simp: sftp_read_at_def name_ok_def r packet_types)
  then show ?thesis using e(5) same e(6) by (intro that [of t' s']) auto
qed

text \<open>The pieces of a body, written one after another, leave the file they make up.\<close>

lemma pieces_written:
  assumes "ready X linked t s" "name_ok h" "opened (far_end_of s) h = Some (WriteHandle n)"
    "content (far_end_of s) n = Some b" "length b + length (concat chunks) \<le> MAX_BODY X"
    "\<forall>c \<in> set chunks. length c \<le> CHUNK"
  shows "\<exists>t' s'. each_piece (write_piece X K h) chunks (t, of_nat (length b)) =
      Some (Inr (), (t', of_nat (length b + length (concat chunks))))
    \<and> ready X linked t' s' \<and> rewritten n (b @ concat chunks) (far_end_of s) (far_end_of s')"
  using assms
proof (induction chunks arbitrary: t s b)
  case Nil
  then show ?case by (intro exI [of _ t] exI [of _ s]) (simp add: rewritten_refl)
next
  case (Cons c cs)
  have "length b < 2 ^ 64"
    using Cons.prems(5) max_body by (simp add: usize_max_def)
  then have off: "unat (of_nat (length b) :: u64) = length b" by (rule unat_of_nat_u64)
  have "length c < 2 ^ 30" "unat (of_nat (length b) :: u64) + length c \<le> MAX_BODY X"
    using Cons.prems(5,6) by (simp_all add: CHUNK_def off)
  then obtain now t1 s1 where w:
    "write_piece X K h c (t, of_nat (length b)) = Some (Inr (), (t1, of_nat (length b) + of_nat (length c)))"
    "ready X linked t1 s1"
    "far_end_of s1 = write_file now n (overwrite (case content (far_end_of s) n of Some b \<Rightarrow> b | None \<Rightarrow> [])
      (unat (of_nat (length b) :: u64)) c) (far_end_of s)"
    by (rule write_reply [OF Cons.prems(1,2) _ Cons.prems(3)])
  have s1: "rewritten n (b @ c) (far_end_of s) (far_end_of s1)"
    using rewritten_write_file [of n "b @ c"] Cons.prems(4) by (simp add: w(3) off overwrite_append)
  then have "opened (far_end_of s1) h = Some (WriteHandle n)" "content (far_end_of s1) n = Some (b @ c)"
    using Cons.prems(3) by (auto simp: rewritten_def)
  with Cons.IH [OF w(2) Cons.prems(2), of "b @ c"] Cons.prems(5,6)
  obtain t' s' where "each_piece (write_piece X K h) cs (t1, of_nat (length (b @ c))) =
      Some (Inr (), (t', of_nat (length (b @ c) + length (concat cs))))" "ready X linked t' s'"
    "rewritten n ((b @ c) @ concat cs) (far_end_of s1) (far_end_of s')"
    by auto
  with w(1) s1 show ?case by (auto simp: add.assoc intro: rewritten_trans)
qed

lemma put_stores:
  assumes "ready X linked t s" "name_ok n" "streams P body" "length body \<le> MAX_BODY X"
  obtains t' s' where "sftp_put X K n P t = Some (Inr (), t')" "ready X linked t' s'"
    "content (far_end_of s') = (content (far_end_of s))(n \<mapsto> body)"
    "\<forall>m. m \<noteq> n \<longrightarrow> mtime (far_end_of s') m = mtime (far_end_of s) m"
    "opened (far_end_of s') = (opened (far_end_of s))(''h'' @ decimal (unat (issued (far_end_of s))) := None)"
    "issued (far_end_of s') = issued (far_end_of s) + 1"
    "announces (far_end_of s') = announces (far_end_of s)"
    "announced (far_end_of s') = announced (far_end_of s) @ (if announces (far_end_of s) then [n] else [])"
proof -
  let ?f = "far_end_of s" and ?h = "''h'' @ decimal (unat (issued (far_end_of s)))"
  have flags: "(F_WRITE OR F_CREAT OR F_TRUNC) AND F_WRITE \<noteq> 0"
    "(F_WRITE OR F_CREAT OR F_TRUNC) AND F_EXCL = 0" "(F_WRITE OR F_CREAT OR F_TRUNC) AND F_TRUNC \<noteq> 0"
    by (simp_all add: open_flags)
  obtain now r t1 s1 where o:
    "far_step (MAX_BODY X) now (Open (next_id t) n (F_WRITE OR F_CREAT OR F_TRUNC)) ?f = (r, far_end_of s1)"
    "ready X linked t1 s1" "next_id t1 = next_id t + 1"
    "\<And>rid h. r = HandleReply rid h \<Longrightarrow>
       sftp_open X K n (F_WRITE OR F_CREAT OR F_TRUNC) t = Some (Inr h, t1)"
    using open_reply [OF assms(1,2), of "F_WRITE OR F_CREAT OR F_TRUNC"] by metis
  have empty: "(case bt_get (files (dir s)) n of None \<Rightarrow> [] | Some b \<Rightarrow>
      if (F_WRITE OR F_CREAT OR F_TRUNC) AND F_TRUNC \<noteq> 0 then [] else b) = []"
    using flags(3) by (auto split: option.splits)
  have r: "r = HandleReply (next_id t) ?h"
    and f1: "far_end_of s1 = (write_file now n [] (?f\<lparr>issued := issued ?f + 1\<rparr>))
      \<lparr>opened := (opened ?f)(?h \<mapsto> WriteHandle n)\<rparr>"
    using o(1) flags empty by (auto simp: Let_def)
  have h: "name_ok ?h" by (rule handle_name_ok)
  obtain chunks where ch: "concat chunks = body" "\<forall>c \<in> set chunks. length c \<le> CHUNK"
      "P CHUNK (write_piece X K ?h) = each_piece (write_piece X K ?h) chunks"
    using assms(3) unfolding streams_def by (metis CHUNK_def zero_less_numeral)
  obtain t2 s2 where p: "each_piece (write_piece X K ?h) chunks (t1, 0) =
      Some (Inr (), (t2, of_nat (length body)))" "ready X linked t2 s2"
      "rewritten n body (far_end_of s1) (far_end_of s2)"
    using pieces_written [OF o(2) h, of n "[]" chunks] ch assms(4) f1 by auto
  obtain t' s' where c: "sftp_close X K ?h t2 = Some (Inr (), t')" "ready X linked t' s'"
      "far_end_of s' = (far_end_of s2)\<lparr>opened := (opened (far_end_of s2))(?h := None),
       announced := announced (far_end_of s2) @ (case opened (far_end_of s2) ?h of
          Some (WriteHandle n) \<Rightarrow> if announces (far_end_of s2) then [n] else [] | _ \<Rightarrow> [])\<rparr>"
    using close_reply [OF p(2) h] by metis
  have "sftp_put X K n P t = Some (Inr (), t')"
    using o(4) [OF r] ch(3) p(1) c(1) by (simp add: sftp_put_def)
  then show ?thesis using c(2)
    by (rule that) (use c(3) p(3) f1 in \<open>auto simp: rewritten_def\<close>)
qed

lemma readdir_reply:
  assumes "ready X linked t s" "name_ok h" "listing_size (far_end_of s) < 2 ^ 30"
  obtains r body t' s' now where
    "sftp_readdir X K h t = Some (Inr (reply_kind r, body), t')" "reply_body r body"
    "far_step (MAX_BODY X) now (Readdir (next_id t) h) (far_end_of s) = (r, far_end_of s')"
    "ready X linked t' s'" "next_id t' = next_id t + 1"
proof -
  let ?t = "t\<lparr>next_id := next_id t + 1\<rparr>" and ?q = "Readdir (next_id t) h"
  have "ready X linked ?t s" "request_ok ?q" using assms by simp_all
  then obtain now r body t1 t' s' where e:
    "sftp_send X K (request_kind ?q) (request_body ?q) ?t = Some (Inr (), t1)"
    "sftp_recv K t1 = Some (Inr (reply_kind r, body), t')" "reply_body r body"
    "far_step (MAX_BODY X) now ?q (far_end_of s) = (r, far_end_of s')"
    "ready X linked t' s'" "next_id t' = next_id ?t"
    by (rule exchange) (use assms in auto)
  have "sftp_readdir X K h t = Some (Inr (reply_kind r, body), t')"
    using e(1,2) assms(2) by (simp add: sftp_readdir_def name_ok_def)
  then show ?thesis using e(3-6) by (intro that) auto
qed

text \<open>The loop ends after the second request: the whole listing, then the end.\<close>

lemma list_loop_returns:
  assumes "ready X linked t s" "name_ok h" "listing_size (far_end_of s) < 2 ^ 30"
    "opened (far_end_of s) h = Some (DirHandle False)"
  obtains t' s' where
    "list_loop X K h [] t = Some (Inr (map (\<lambda>(n, st). (n, Some st)) (listing_of (far_end_of s))), t')"
    "ready X linked t' s'"
    "far_end_of s' = (far_end_of s)\<lparr>opened := (opened (far_end_of s))(h \<mapsto> DirHandle True)\<rparr>"
proof -
  obtain r1 body1 t1 s1 now1 where one:
    "sftp_readdir X K h t = Some (Inr (reply_kind r1, body1), t1)" "reply_body r1 body1"
    "far_step (MAX_BODY X) now1 (Readdir (next_id t) h) (far_end_of s) = (r1, far_end_of s1)"
    "ready X linked t1 s1"
    using assms(1-3) by (rule readdir_reply)
  have r1: "r1 = NameReply (next_id t) (listing_of (far_end_of s))"
    and f1: "far_end_of s1 = (far_end_of s)\<lparr>opened := (opened (far_end_of s))(h \<mapsto> DirHandle True)\<rparr>"
    using one(3) assms(4) by auto
  have "listing_size (far_end_of s1) < 2 ^ 30"
    using assms(3) by (simp add: f1 listing_size_def)
  then obtain r2 body2 t2 s2 now2 where two:
    "sftp_readdir X K h t1 = Some (Inr (reply_kind r2, body2), t2)" "reply_body r2 body2"
    "far_step (MAX_BODY X) now2 (Readdir (next_id t1) h) (far_end_of s1) = (r2, far_end_of s2)"
    "ready X linked t2 s2"
    using one(4) assms(2) readdir_reply by metis
  have "opened (far_end_of s1) h = Some (DirHandle True)" by (simp add: f1 del: far_end_of_simps)
  then have r2: "r2 = StatusReply (next_id t1) EOF" and f2: "far_end_of s2 = far_end_of s1"
    using two(3) by (auto simp del: far_end_of_simps)
  have "serving_wf s" using assms(1) by (simp add: ready_def)
  then have es: "entries X body1 = Inr (map (\<lambda>(n, st). (n, Some st)) (listing_of (far_end_of s)))"
    using one(2) assms(3) listing_names [of s] by (simp add: r1 entries_bytes)
  have "code X body2 = Inr EOF" using two(2) by (auto simp: r2)
  with one(1) two(1) es have
    "list_loop X K h [] t = Some (Inr (map (\<lambda>(n, st). (n, Some st)) (listing_of (far_end_of s))), t2)"
    by (simp add: list_loop.simps [of X K h "[]" t] list_loop.simps [of X K h _ t1] r1 r2 packet_types)
  then show ?thesis using two(4) by (rule that) (simp add: f1 f2)
qed

lemma list_returns:
  assumes "ready X linked t s" "listing_size (far_end_of s) < 2 ^ 30"
  obtains t' s' where
    "sftp_list X K t = Some (Inr (filter (\<lambda>(n, _). n \<noteq> ''.'' \<and> n \<noteq> ''..'')
       (map (\<lambda>(n, st). (n, Some st)) (listing_of (far_end_of s)))), t')"
    "ready X linked t' s'"
    "far_end_of s' = (far_end_of s)\<lparr>issued := issued (far_end_of s) + 1,
       opened := (opened (far_end_of s))(''d'' @ decimal (unat (issued (far_end_of s))) := None)\<rparr>"
proof -
  let ?h = "''d'' @ decimal (unat (issued (far_end_of s)))"
  let ?t = "t\<lparr>next_id := next_id t + 1\<rparr>" and ?q = "Opendir (next_id t) (as_bytes ''.'')"
  have "ready X linked ?t s" "request_ok ?q" using assms by simp_all
  then obtain now r body t1 t2 s2 where e:
    "sftp_send X K (request_kind ?q) (request_body ?q) ?t = Some (Inr (), t1)"
    "sftp_recv K t1 = Some (Inr (reply_kind r, body), t2)" "reply_body r body"
    "far_step (MAX_BODY X) now ?q (far_end_of s) = (r, far_end_of s2)"
    "ready X linked t2 s2" "next_id t2 = next_id ?t"
    by (rule exchange) simp
  have r: "r = HandleReply (next_id t) ?h"
    and f2: "far_end_of s2 = (far_end_of s)\<lparr>issued := issued (far_end_of s) + 1,
      opened := (opened (far_end_of s))(?h \<mapsto> DirHandle False)\<rparr>"
    using e(4) by (auto simp: Let_def)
  have h: "name_ok ?h" by (rule handle_name_ok)
  have handle: "sftp_expect_handle X K t1 = Some (Inr ?h, t2)"
    using e(2,3) h by (simp add: sftp_expect_handle_def r name_ok_def)
  have same: "listing_of (far_end_of s2) = listing_of (far_end_of s)"
    "listing_size (far_end_of s2) = listing_size (far_end_of s)"
    by (simp_all add: f2 listing_of_def listing_size_def stamp_of_def del: far_end_of_simps)
  have "listing_size (far_end_of s2) < 2 ^ 30" using assms(2) by (simp only: same)
  moreover have "opened (far_end_of s2) ?h = Some (DirHandle False)"
    by (simp add: f2 del: far_end_of_simps)
  moreover note e(5) h
  ultimately obtain t3 s3 where l:
    "list_loop X K ?h [] t2 = Some (Inr (map (\<lambda>(n, st). (n, Some st)) (listing_of (far_end_of s2))), t3)"
    "ready X linked t3 s3"
    "far_end_of s3 = (far_end_of s2)\<lparr>opened := (opened (far_end_of s2))(?h \<mapsto> DirHandle True)\<rparr>"
    using list_loop_returns by metis
  obtain t' s' where c: "sftp_close X K ?h t3 = Some (Inr (), t')" "ready X linked t' s'"
      "far_end_of s' = (far_end_of s3)\<lparr>opened := (opened (far_end_of s3))(?h := None),
       announced := announced (far_end_of s3) @ (case opened (far_end_of s3) ?h of
          Some (WriteHandle n) \<Rightarrow> if announces (far_end_of s3) then [n] else [] | _ \<Rightarrow> [])\<rparr>"
    using close_reply [OF l(2) h] by metis
  have "sftp_list X K t = Some (Inr (filter (\<lambda>(n, _). n \<noteq> ''.'' \<and> n \<noteq> ''..'')
       (map (\<lambda>(n, st). (n, Some st)) (listing_of (far_end_of s)))), t')"
    using e(1) handle l(1) c(1) by (simp add: sftp_list_def same)
  then show ?thesis using c(2)
    by (rule that) (simp add: c(3) l(3) f2 del: far_end_of_simps)
qed

lemma start_ok:
  assumes "linked c s []" "serving_wf s" "dir_bounded X (dir s)"
  obtains t' s' where "sftp_start X K (sftp_new c) = Some (Inr (), t')" "ready X linked t' s'"
    "far_end_of s' = far_end_of s"
proof -
  have "ready X linked (sftp_new c) s" using assms by (simp add: ready_def sftp_new_def)
  then obtain now r body t1 t' s' where e:
    "sftp_send X K (request_kind Init) (request_body Init) (sftp_new c) = Some (Inr (), t1)"
    "sftp_recv K t1 = Some (Inr (reply_kind r, body), t')" "reply_body r body"
    "far_step (MAX_BODY X) now Init (far_end_of s) = (r, far_end_of s')"
    "ready X linked t' s'" "next_id t' = next_id (sftp_new c)"
    by (rule exchange [where q = Init]) simp_all
  then have "sftp_start X K (sftp_new c) = Some (Inr (), t')"
    by (auto simp: sftp_start_def)
  then show ?thesis using e(5) by (rule that) (use e(4) in auto)
qed

end

section \<open>The far end at the other side of the channel\<close>

text \<open>
  The two sides put together with nothing between them: what the client writes is read as a
  frame, served by \<open>serve_request\<close>, and the reply is left for the client to read.
\<close>

record direct =
  d_serving :: Serving
  d_unread :: bytes

definition direct_write :: "ext \<Rightarrow> int \<Rightarrow> direct \<Rightarrow> bytes \<Rightarrow> (transport_error + unit) \<times> direct" where
  "direct_write X now c b = (case r_string X b of
     Inr (packet, []) \<Rightarrow>
       (case serve_request X now packet (d_serving c) of
          (Inr reply, s) \<Rightarrow> (Inr (), \<lparr>d_serving = s, d_unread = d_unread c @ reply\<rparr>)
        | (Inl e, s) \<Rightarrow> (Inl e, \<lparr>d_serving = s, d_unread = d_unread c\<rparr>))
   | _ \<Rightarrow> (Inl (Foreign ''not one packet''), c))"

definition direct_read :: "direct \<Rightarrow> usize \<Rightarrow> (transport_error + bytes) \<times> direct" where
  "direct_read c n =
     (if n \<le> length (d_unread c)
      then (Inr (take n (d_unread c)), c\<lparr>d_unread := drop n (d_unread c)\<rparr>)
      else (Inl (Foreign ''the channel ended''), c))"

definition direct_channel :: "ext \<Rightarrow> int \<Rightarrow> direct channel" where
  "direct_channel X now = \<lparr>ch_write = direct_write X now, ch_read_exact = direct_read,
     ch_read_frame = (\<lambda>c. (Inr None, c))\<rparr>"

definition direct_linked :: "direct \<Rightarrow> Serving \<Rightarrow> bytes \<Rightarrow> bool" where
  "direct_linked c s p \<longleftrightarrow> c = \<lparr>d_serving = s, d_unread = p\<rparr>"

lemma direct_session:
  assumes "limits X"
  shows "session X (direct_channel X now) direct_linked"
proof -
  have "wire X" using assms by (rule limits.axioms(1))
  have packet: "r_string X (frame X kind body) = Inr (kind # body, [])" if "length body + 1 < 2 ^ 32" for kind body
    using that by (simp add: wire.frame_bytes [OF \<open>wire X\<close>] wire.r_string [OF \<open>wire X\<close>] ssh_string_def)
  show ?thesis
  proof (rule session.intro [OF assms], unfold_locales)
    fix c s p kind and body :: bytes
    assume "direct_linked c s p" "length body + 1 < 2 ^ 32"
    then show "\<exists>now'. \<forall>reply s'. serve_request X now' (kind # body) s = (Inr reply, s') \<longrightarrow>
        (\<exists>c'. ch_write (direct_channel X now) c (frame X kind body) = (Inr (), c') \<and> direct_linked c' s' (p @ reply))"
      by (intro exI [of _ now]) (simp add: direct_linked_def direct_channel_def direct_write_def packet)
  qed (simp add: direct_linked_def direct_channel_def direct_read_def)
qed

interpretation direct: session "rfc4251 67108864" "direct_channel (rfc4251 67108864) now" direct_linked
  by (rule direct_session) (rule rfc_limits.limits_axioms)

section \<open>Properties\<close>

abbreviation std_channel :: "direct channel" where
  "std_channel \<equiv> direct_channel std_ext 0"

definition sample_client :: "direct Sftp" where
  "sample_client = sftp_new \<lparr>d_serving = sample, d_unread = []\<rparr>"

lemma sample_ready: "ready std_ext direct_linked sample_client sample"
  by (simp add: ready_def sample_client_def sftp_new_def direct_linked_def sample_wf sample_bounded)

lemma std_session: "session std_ext std_channel direct_linked"
  by (rule direct.session_axioms)

text \<open>
  C11. A put leaves the file with exactly the body sent, whatever the pieces it was read in and
  whatever was under the name before; every other file and time is as it was, the handle is
  closed again, and the owner is told of the name once.
\<close>

theorem put_stores_the_body:
  assumes "session X K linked" "ready X linked t s" "name_ok n" "streams P body" "length body \<le> MAX_BODY X"
  shows "\<exists>t' s'. sftp_put X K n P t = Some (Inr (), t') \<and> ready X linked t' s'
    \<and> content (far_end_of s') = (content (far_end_of s))(n \<mapsto> body)
    \<and> (\<forall>m. m \<noteq> n \<longrightarrow> mtime (far_end_of s') m = mtime (far_end_of s) m)
    \<and> opened (far_end_of s') = (opened (far_end_of s))(''h'' @ decimal (unat (issued (far_end_of s))) := None)
    \<and> announced (far_end_of s') = announced (far_end_of s) @ (if announces (far_end_of s) then [n] else [])"
  using session.put_stores [OF assms] by (metis (no_types, lifting))

theorem put_stores_the_body_witness:
  "\<exists>t' s'. sftp_put std_ext std_channel ''b'' (held [7, 8]) sample_client = Some (Inr (), t')
    \<and> ready std_ext direct_linked t' s' \<and> content (far_end_of s') = [''a'' \<mapsto> [1, 2], ''b'' \<mapsto> [7, 8]]"
  using put_stores_the_body [OF std_session sample_ready sample_names(2) streams_held [of "[7, 8]"]]
  by (auto simp: rfc4251_def)

text \<open>
  C12. A listing returns: the loop ends, and what it gives is every file of the directory but
  the dot entries, in order of name, each with its length and its time; no file changes and
  the directory's handle is closed.
\<close>

theorem list_returns_the_directory:
  assumes "session X K linked" "ready X linked t s" "listing_size (far_end_of s) < 2 ^ 30"
  shows "\<exists>t' s'. sftp_list X K t = Some (Inr (filter (\<lambda>(n, _). n \<noteq> ''.'' \<and> n \<noteq> ''..'')
       (map (\<lambda>(n, st). (n, Some st)) (listing_of (far_end_of s)))), t')
    \<and> ready X linked t' s'
    \<and> far_end_of s' = (far_end_of s)\<lparr>issued := issued (far_end_of s) + 1,
       opened := (opened (far_end_of s))(''d'' @ decimal (unat (issued (far_end_of s))) := None)\<rparr>"
  using session.list_returns [OF assms] by (metis (no_types, lifting))

theorem list_returns_the_directory_witness:
  "\<exists>t' s'. sftp_list std_ext std_channel sample_client =
     Some (Inr [(''a'', Some \<lparr>stamp_length = 2, stamp_modified = 0\<rparr>)], t') \<and> ready std_ext direct_linked t' s'"
  using list_returns_the_directory [OF std_session sample_ready sample_listing]
  by (auto simp: listing_of_def stamp_of_def modified_def)

text \<open>
  The session starts only with a server that says version 3: where it succeeds, the reply to
  INIT was a VERSION packet whose version is 3.
\<close>

lemma start_needs_version_3:
  assumes "sftp_start X K t = Some (Inr (), t')"
  shows "\<exists>t1 body rest. sftp_send X K INIT (w_u32_be X [] PROTOCOL) t = Some (Inr (), t1)
    \<and> sftp_recv K t1 = Some (Inr (VERSION, body), t') \<and> r_u32_be X body = Inr (PROTOCOL, rest)"
  using assms
  by (auto simp: sftp_start_def bind_act_def fail_act_def return_act_def lift_act_def
      split: option.splits prod.splits sum.splits if_splits)

end
