(* ===== verification/Site.thy ===== *)
theory Site
  imports Subsystem
begin

unbundle bit_operations_syntax

text \<open>
  The directory as the claim sees one (\<open>site.rs\<close>): the claim's requests of \<open>Sftp\<close>, and the
  operations \<open>SftpSite\<close> gives the transport capability's claim (\<open>transport::claim\<close>), which
  is not modelled: its \<open>is_turn\<close> is an argument.
\<close>

section \<open>The claim's requests\<close>

definition status_of :: "ext \<Rightarrow> 'c channel \<Rightarrow> u8 \<Rightarrow> bytes \<Rightarrow> string \<Rightarrow> ('c Sftp, u32) act" where
  "status_of X K kind body what =
     bind_act (sftp_send X K kind body) (\<lambda>_.
     bind_act (sftp_recv K) (\<lambda>(reply, body).
       if reply = STATUS then lift_act (code X body)
       else fail_act (ProtocolError (''a reply where a status for '' @ what @ '' was due''))))"

definition sftp_rename :: "ext \<Rightarrow> 'c channel \<Rightarrow> string \<Rightarrow> string \<Rightarrow> ('c Sftp, u32) act" where
  "sftp_rename X K from to =
     bind_act sftp_id (\<lambda>rid.
     status_of X K RENAME (w_string X (w_string X (w_u32_be X [] rid) (as_bytes from)) (as_bytes to))
       ''the rename'')"

definition sftp_removed :: "ext \<Rightarrow> 'c channel \<Rightarrow> string \<Rightarrow> ('c Sftp, u32) act" where
  "sftp_removed X K name =
     bind_act sftp_id (\<lambda>rid.
     status_of X K REMOVE (w_string X (w_u32_be X [] rid) (as_bytes name)) ''the remove'')"

definition sftp_stat :: "ext \<Rightarrow> 'c channel \<Rightarrow> string \<Rightarrow> ('c Sftp, Stamp option) act" where
  "sftp_stat X K name =
     bind_act sftp_id (\<lambda>rid.
     bind_act (sftp_send X K STAT (w_string X (w_u32_be X [] rid) (as_bytes name))) (\<lambda>_.
     bind_act (sftp_recv K) (\<lambda>(kind, body).
       if kind = ATTRS then
         bind_act (lift_act (r_u32_be X body)) (\<lambda>(_, reader).
         bind_act (lift_act (stamp X reader)) (\<lambda>(st, _). return_act st))
       else if kind = STATUS then
         bind_act (lift_act (code X body)) (\<lambda>c.
           if c = NO_SUCH_FILE then return_act None else fail_act (status_error X body ''the stat''))
       else fail_act (ProtocolError ''a reply where attributes were due''))))"

definition create_exclusive :: "ext \<Rightarrow> 'c channel \<Rightarrow> string \<Rightarrow> bytes \<Rightarrow> ('c Sftp, bool) act" where
  "create_exclusive X K name b =
     bind_act sftp_id (\<lambda>rid.
     bind_act (sftp_send X K OPEN
       (w_u32_be X (w_u32_be X (w_string X (w_u32_be X [] rid) (as_bytes name))
          (F_WRITE OR F_CREAT OR F_EXCL)) 0)) (\<lambda>_.
     bind_act (sftp_recv K) (\<lambda>(kind, body).
       if kind = STATUS then return_act False
       else if kind \<noteq> HANDLE then fail_act (ProtocolError ''a reply where a handle was due'')
       else
         bind_act (lift_act (r_u32_be X body)) (\<lambda>(_, reader).
         bind_act (lift_act (r_string X reader)) (\<lambda>(h, _).
         bind_act (case from_utf8 h of Some s \<Rightarrow> return_act s
                   | None \<Rightarrow> fail_act (ProtocolError ''a handle that is not UTF-8'')) (\<lambda>handle.
         bind_act sftp_id (\<lambda>rid.
         bind_act (sftp_request X K WRITE
           (w_string X (w_u64_be X (w_string X (w_u32_be X [] rid) (as_bytes handle)) 0) b) ''the write'') (\<lambda>_.
         bind_act (sftp_close X K handle) (\<lambda>_. return_act True)))))))))"

partial_function (option) read_loop ::
  "ext \<Rightarrow> 'c channel \<Rightarrow> string \<Rightarrow> bytes \<Rightarrow> 'c Sftp
     \<Rightarrow> ((transport_error + bytes) \<times> 'c Sftp) option" where
  "read_loop X K handle whole s =
     (case sftp_read_at X K handle (of_nat (length whole)) s of
        None \<Rightarrow> None
      | Some (r, s) \<Rightarrow>
          (case r of
             Inl e \<Rightarrow> Some (Inl e, s)
           | Inr None \<Rightarrow> Some (Inr whole, s)
           | Inr (Some chunk) \<Rightarrow> read_loop X K handle (whole @ chunk) s))"

definition read_small :: "ext \<Rightarrow> 'c channel \<Rightarrow> string \<Rightarrow> ('c Sftp, bytes option) act" where
  "read_small X K name =
     catch_act (sftp_open_for_reading X K name) (\<lambda>r. case r of
       Inl _ \<Rightarrow> return_act None
     | Inr handle \<Rightarrow>
         bind_act (read_loop X K handle []) (\<lambda>whole.
         bind_act (sftp_close X K handle) (\<lambda>_. return_act (Some whole))))"

section \<open>The site\<close>

datatype Restore = Back | Gone | Kept string

definition site_listed :: "ext \<Rightarrow> 'c channel \<Rightarrow> ('c Sftp, Listed list) act" where
  "site_listed X K = sftp_list X K"

definition site_turns :: "ext \<Rightarrow> 'c channel \<Rightarrow> (string \<Rightarrow> bool) \<Rightarrow> ('c Sftp, string list) act" where
  "site_turns X K is_turn =
     bind_act (site_listed X K) (\<lambda>es. return_act (filter is_turn (map fst es)))"

definition site_stamp :: "ext \<Rightarrow> 'c channel \<Rightarrow> string \<Rightarrow> ('c Sftp, Stamp option) act" where
  "site_stamp X K name = sftp_stat X K name"

definition take_turn :: "ext \<Rightarrow> 'c channel \<Rightarrow> string \<Rightarrow> string \<Rightarrow> ('c Sftp, bool) act" where
  "take_turn X K turn claimant = create_exclusive X K turn (as_bytes claimant)"

definition holder :: "ext \<Rightarrow> 'c channel \<Rightarrow> string \<Rightarrow> ('c Sftp, string option) act" where
  "holder X K turn =
     bind_act (read_small X K turn) (\<lambda>r. return_act (case r of Some h \<Rightarrow> from_utf8 h | None \<Rightarrow> None))"

definition site_delete :: "ext \<Rightarrow> 'c channel \<Rightarrow> string \<Rightarrow> ('c Sftp, unit) act" where
  "site_delete X K name =
     bind_act (sftp_removed X K name) (\<lambda>c.
       if c = OK \<or> c = NO_SUCH_FILE then return_act ()
       else fail_act (ProtocolError (''the server refused the remove of '' @ name
         @ '' with SFTP status '' @ decimal (unat c))))"

definition drop_turn :: "ext \<Rightarrow> 'c channel \<Rightarrow> string \<Rightarrow> string \<Rightarrow> ('c Sftp, unit) act" where
  "drop_turn X K turn claimant = site_delete X K turn"

definition site_rename :: "ext \<Rightarrow> 'c channel \<Rightarrow> string \<Rightarrow> string \<Rightarrow> ('c Sftp, bool) act" where
  "site_rename X K from to = bind_act (sftp_rename X K from to) (\<lambda>c. return_act (c = OK))"

definition restore :: "ext \<Rightarrow> 'c channel \<Rightarrow> string \<Rightarrow> string \<Rightarrow> ('c Sftp, Restore) act" where
  "restore X K claimed dropped =
     bind_act (sftp_rename X K claimed dropped) (\<lambda>c.
       if c = OK then return_act Back
       else
         bind_act (sftp_stat X K claimed) (\<lambda>here.
           if here = None then return_act Gone
           else
             bind_act (sftp_stat X K dropped) (\<lambda>there. return_act (Kept (
               if there \<noteq> None then ''returning '' @ dropped @ '': a file of that name was dropped since''
               else ''returning '' @ dropped @ '': the server answered SFTP status '' @ decimal (unat c))))))"

section \<open>Over a session\<close>

context session
begin

lemma status_of_reply:
  assumes "ready X linked t s" "request_ok q" "\<And>rid h. q \<noteq> Readdir rid h"
    and "\<And>now. \<exists>rid c. fst (far_step (MAX_BODY X) now q (far_end_of s)) = StatusReply rid c"
  obtains now rid c t' s' where
    "status_of X K (request_kind q) (request_body q) what t = Some (Inr c, t')"
    "far_step (MAX_BODY X) now q (far_end_of s) = (StatusReply rid c, far_end_of s')"
    "ready X linked t' s'" "next_id t' = next_id t"
proof -
  obtain now r body t1 t' s' where e:
    "sftp_send X K (request_kind q) (request_body q) t = Some (Inr (), t1)"
    "sftp_recv K t1 = Some (Inr (reply_kind r, body), t')" "reply_body r body"
    "far_step (MAX_BODY X) now q (far_end_of s) = (r, far_end_of s')"
    "ready X linked t' s'" "next_id t' = next_id t"
    using assms(1,2) by (rule exchange) (use assms(3) in auto)
  with assms(4) [of now] obtain rid c where r: "r = StatusReply rid c" by auto
  with e(3) obtain rest where "body = to_be32 rid @ to_be32 c @ rest" by auto
  then have "status_of X K (request_kind q) (request_body q) what t = Some (Inr c, t')"
    using e(1,2) by (simp add: status_of_def r)
  with e r that show ?thesis by blast
qed

lemma rename_reply:
  assumes "ready X linked t s" "name_ok a" "name_ok b"
  obtains now rid c t' s' where "sftp_rename X K a b t = Some (Inr c, t')" "ready X linked t' s'"
    "far_step (MAX_BODY X) now (Rename rid a b) (far_end_of s) = (StatusReply rid c, far_end_of s')"
proof -
  let ?t = "t\<lparr>next_id := next_id t + 1\<rparr>" and ?q = "Rename (next_id t) a b"
  have "ready X linked ?t s" "request_ok ?q" using assms by simp_all
  then obtain now rid c t' s' where e:
    "status_of X K (request_kind ?q) (request_body ?q) ''the rename'' ?t = Some (Inr c, t')"
    "far_step (MAX_BODY X) now ?q (far_end_of s) = (StatusReply rid c, far_end_of s')"
    "ready X linked t' s'" "next_id t' = next_id ?t"
    by (rule status_of_reply) (auto split: option.splits)
  have "sftp_rename X K a b t = Some (Inr c, t')"
    using e(1) assms(2,3) by (simp add: sftp_rename_def name_ok_def)
  moreover have "rid = next_id t" using e(2) by (auto split: if_splits option.splits)
  ultimately show ?thesis using e(2,3) that by blast
qed

lemma removed_reply:
  assumes "ready X linked t s" "name_ok n"
  obtains t' s' where
    "sftp_removed X K n t = Some (Inr (if content (far_end_of s) n \<noteq> None then OK else NO_SUCH_FILE), t')"
    "ready X linked t' s'"
    "far_end_of s' = (far_end_of s)\<lparr>content := (content (far_end_of s))(n := None),
       mtime := (mtime (far_end_of s))(n := 0)\<rparr>"
proof -
  let ?t = "t\<lparr>next_id := next_id t + 1\<rparr>" and ?q = "Remove (next_id t) n"
  have "ready X linked ?t s" "request_ok ?q" using assms by simp_all
  then obtain now rid c t' s' where e:
    "status_of X K (request_kind ?q) (request_body ?q) ''the remove'' ?t = Some (Inr c, t')"
    "far_step (MAX_BODY X) now ?q (far_end_of s) = (StatusReply rid c, far_end_of s')"
    "ready X linked t' s'" "next_id t' = next_id ?t"
    by (rule status_of_reply) auto
  then have "sftp_removed X K n t = Some (Inr (if content (far_end_of s) n \<noteq> None then OK else NO_SUCH_FILE), t')"
    using assms(2) by (simp add: sftp_removed_def name_ok_def)
  then show ?thesis using e(3) by (rule that) (use e(2) in auto)
qed

lemma stat_reply:
  assumes "ready X linked t s" "name_ok n"
  obtains t' s' where
    "sftp_stat X K n t = Some (Inr (if content (far_end_of s) n \<noteq> None
       then Some (stamp_of (far_end_of s) n) else None), t')"
    "ready X linked t' s'" "far_end_of s' = far_end_of s"
proof -
  let ?t = "t\<lparr>next_id := next_id t + 1\<rparr>" and ?q = "Stat (next_id t) n"
  have "ready X linked ?t s" "request_ok ?q" using assms by simp_all
  then obtain now r body t1 t' s' where e:
    "sftp_send X K (request_kind ?q) (request_body ?q) ?t = Some (Inr (), t1)"
    "sftp_recv K t1 = Some (Inr (reply_kind r, body), t')" "reply_body r body"
    "far_step (MAX_BODY X) now ?q (far_end_of s) = (r, far_end_of s')"
    "ready X linked t' s'" "next_id t' = next_id ?t"
    by (rule exchange) simp
  have same: "far_end_of s' = far_end_of s"
    and r: "r = (if content (far_end_of s) n \<noteq> None then AttrsReply (next_id t) (stamp_of (far_end_of s) n)
      else StatusReply (next_id t) NO_SUCH_FILE)"
    using e(4) by (auto split: if_splits)
  have st: "stamp X (attributes_bytes (stamped (stamp_of (far_end_of s) n))) =
      Inr (Some (stamp_of (far_end_of s) n), [])"
    using stamp_attributes_bytes [of "stamped (stamp_of (far_end_of s) n)" "[]"] by simp
  have "sftp_stat X K n t = Some (Inr (if content (far_end_of s) n \<noteq> None
       then Some (stamp_of (far_end_of s) n) else None), t')"
  proof (cases "content (far_end_of s) n = None")
    case True
    with e(1-3) assms(2) show ?thesis
      by (auto simp: sftp_stat_def name_ok_def r packet_types simp del: far_end_of_simps)
  next
    case False
    with e(1-3) assms(2) st show ?thesis
      by (auto simp: sftp_stat_def name_ok_def r packet_types simp del: far_end_of_simps)
  qed
  then show ?thesis using e(5) same by (intro that [of t' s']) auto
qed

text \<open>
  A turn: refused, nothing but the handle counter moved, where the name exists; created
  holding the bytes where it does not.
\<close>

lemma create_exclusive_refused:
  assumes "ready X linked t s" "name_ok n" "content (far_end_of s) n \<noteq> None"
  obtains t' s' where "create_exclusive X K n b t = Some (Inr False, t')" "ready X linked t' s'"
    "far_end_of s' = (far_end_of s)\<lparr>issued := issued (far_end_of s) + 1\<rparr>"
proof -
  let ?t = "t\<lparr>next_id := next_id t + 1\<rparr>" and ?fl = "F_WRITE OR F_CREAT OR F_EXCL"
  let ?q = "Open (next_id t) n ?fl"
  have "ready X linked ?t s" "request_ok ?q" using assms by simp_all
  then obtain now r body t1 t' s' where e:
    "sftp_send X K (request_kind ?q) (request_body ?q) ?t = Some (Inr (), t1)"
    "sftp_recv K t1 = Some (Inr (reply_kind r, body), t')" "reply_body r body"
    "far_step (MAX_BODY X) now ?q (far_end_of s) = (r, far_end_of s')"
    "ready X linked t' s'" "next_id t' = next_id ?t"
    by (rule exchange) simp
  have "?fl AND F_WRITE \<noteq> 0" "?fl AND F_EXCL \<noteq> 0" by (simp_all add: open_flags)
  then have r: "r = StatusReply (next_id t) FAILURE"
    and f: "far_end_of s' = (far_end_of s)\<lparr>issued := issued (far_end_of s) + 1\<rparr>"
    using e(4) assms(3) by (simp_all add: Let_def del: far_end_of_simps)
  have "create_exclusive X K n b t = Some (Inr False, t')"
    using e(1,2) assms(2) by (simp add: create_exclusive_def name_ok_def r)
  then show ?thesis using e(5) f by (rule that)
qed

lemma create_exclusive_created:
  assumes "ready X linked t s" "name_ok n" "content (far_end_of s) n = None"
    "length b < 2 ^ 30" "length b \<le> MAX_BODY X"
  obtains t' s' where "create_exclusive X K n b t = Some (Inr True, t')" "ready X linked t' s'"
    "content (far_end_of s') = (content (far_end_of s))(n \<mapsto> b)"
    "\<forall>m. m \<noteq> n \<longrightarrow> mtime (far_end_of s') m = mtime (far_end_of s) m"
proof -
  let ?f = "far_end_of s" and ?h = "''h'' @ decimal (unat (issued (far_end_of s)))"
  let ?t = "t\<lparr>next_id := next_id t + 1\<rparr>" and ?fl = "F_WRITE OR F_CREAT OR F_EXCL"
  let ?q = "Open (next_id t) n ?fl"
  have "ready X linked ?t s" "request_ok ?q" using assms by simp_all
  then obtain now r body t1 t2 s2 where e:
    "sftp_send X K (request_kind ?q) (request_body ?q) ?t = Some (Inr (), t1)"
    "sftp_recv K t1 = Some (Inr (reply_kind r, body), t2)" "reply_body r body"
    "far_step (MAX_BODY X) now ?q ?f = (r, far_end_of s2)"
    "ready X linked t2 s2" "next_id t2 = next_id ?t"
    by (rule exchange) simp
  have "?fl AND F_WRITE \<noteq> 0" by (simp add: open_flags)
  then have r: "r = HandleReply (next_id t) ?h"
    and f2: "far_end_of s2 = (write_file now n [] (?f\<lparr>issued := issued ?f + 1\<rparr>))
      \<lparr>opened := (opened ?f)(?h \<mapsto> WriteHandle n)\<rparr>"
    using e(4) assms(3) by (simp_all add: Let_def del: far_end_of_simps)
  have h: "name_ok ?h" by (rule handle_name_ok)
  have o2: "opened (far_end_of s2) ?h = Some (WriteHandle n)" "content (far_end_of s2) n = Some []"
    by (simp_all add: f2 del: far_end_of_simps)
  have "unat (0 :: u64) + length b \<le> MAX_BODY X" using assms(5) by simp
  then obtain later t3 s3 where w:
    "write_piece X K ?h b (t2, 0) = Some (Inr (), (t3, 0 + of_nat (length b)))" "ready X linked t3 s3"
    "far_end_of s3 = write_file later n (overwrite (case content (far_end_of s2) n of Some b \<Rightarrow> b | None \<Rightarrow> [])
      (unat (0 :: u64)) b) (far_end_of s2)"
    using write_reply [OF e(5) h assms(4) o2(1), of 0] by metis
  have written_bytes: "bind_act sftp_id (\<lambda>rid. sftp_request X K WRITE
      (w_string X (w_u64_be X (w_string X (w_u32_be X [] rid) (as_bytes ?h)) 0) b) ''the write'') t2 = Some (Inr (), t3)"
    using w(1) by (auto simp: write_piece_def split: option.splits prod.splits sum.splits)
  obtain t' s' where c: "sftp_close X K ?h t3 = Some (Inr (), t')" "ready X linked t' s'"
      "far_end_of s' = (far_end_of s3)\<lparr>opened := (opened (far_end_of s3))(?h := None),
       announced := announced (far_end_of s3) @ (case opened (far_end_of s3) ?h of
          Some (WriteHandle n) \<Rightarrow> if announces (far_end_of s3) then [n] else [] | _ \<Rightarrow> [])\<rparr>"
    using close_reply [OF w(2) h] by metis
  have "create_exclusive X K n b t = Some (Inr True, t')"
    using e(1-3) assms(2) h written_bytes c(1)
    by (simp add: create_exclusive_def name_ok_def r packet_types)
  moreover have "content (far_end_of s') = (content ?f)(n \<mapsto> b)"
    "\<forall>m. m \<noteq> n \<longrightarrow> mtime (far_end_of s') m = mtime ?f m"
    using o2(2) overwrite_append [of "[]" b] by (simp_all add: c(3) w(3) f2 del: far_end_of_simps)
  ultimately show ?thesis using c(2) by (intro that)
qed

text \<open>The read loop ends at the file's end with the whole of it.\<close>

lemma read_loop_returns:
  assumes "ready X linked t s" "name_ok h" "opened (far_end_of s) h = Some (ReadHandle n)"
    "content (far_end_of s) n = Some b" "i \<le> length b"
  shows "\<exists>t' s'. read_loop X K h (take i b) t = Some (Inr b, t')
    \<and> ready X linked t' s' \<and> far_end_of s' = far_end_of s"
  using assms(1,3-)
proof (induction "length b - i" arbitrary: i t s rule: less_induct)
  case less
  have "length b \<le> MAX_BODY X"
    using less.prems(1,3) by (auto simp: ready_def dir_bounded_def)
  then have "i < 2 ^ 64" using less.prems(4) max_body by (simp add: usize_max_def)
  then have off: "unat (of_nat (length (take i b)) :: u64) = i"
    using less.prems(4) by (simp add: min_def)
  obtain t1 s1 where r:
    "sftp_read_at X K h (of_nat (length (take i b))) t = Some (Inr (if i < length b
       then Some (take CHUNK (drop i b)) else None), t1)"
    "ready X linked t1 s1" "far_end_of s1 = far_end_of s"
    using read_reply [OF less.prems(1) assms(2) less.prems(2), of "of_nat (length (take i b))"]
    unfolding off less.prems(3) option.case by metis
  show ?case
  proof (cases "i < length b")
    case False
    with r less.prems(4) show ?thesis
      by (intro exI [of _ t1] exI [of _ s1]) (simp add: read_loop.simps)
  next
    case True
    let ?j = "min (length b) (i + CHUNK)"
    have "length b - ?j < length b - i" "?j \<le> length b" using True by (auto simp: CHUNK_def min_def)
    moreover have "opened (far_end_of s1) h = Some (ReadHandle n)" "content (far_end_of s1) n = Some b"
      using less.prems(2,3) by (simp_all only: r(3))
    ultimately obtain t' s' where l: "read_loop X K h (take ?j b) t1 = Some (Inr b, t')"
        "ready X linked t' s'" "far_end_of s' = far_end_of s1"
      using less.hyps [of ?j t1 s1] r(2) by blast
    have "take i b @ take CHUNK (drop i b) = take ?j b"
      by (cases "i + CHUNK \<le> length b") (simp_all add: take_add min_def)
    with l r True show ?thesis
      by (intro exI [of _ t'] exI [of _ s']) (simp add: read_loop.simps [of X K h "take i b" t])
  qed
qed

lemma read_small_returns:
  assumes "ready X linked t s" "name_ok n"
  obtains t' s' where "read_small X K n t = Some (Inr (content (far_end_of s) n), t')"
    "ready X linked t' s'" "content (far_end_of s') = content (far_end_of s)"
    "mtime (far_end_of s') = mtime (far_end_of s)"
proof -
  let ?f = "far_end_of s" and ?h = "''h'' @ decimal (unat (issued (far_end_of s)))"
  obtain now r t1 s1 where o:
    "far_step (MAX_BODY X) now (Open (next_id t) n F_READ) ?f = (r, far_end_of s1)"
    "ready X linked t1 s1" "next_id t1 = next_id t + 1"
    "\<And>rid h. r = HandleReply rid h \<Longrightarrow> sftp_open X K n F_READ t = Some (Inr h, t1)"
    "\<And>rid c. r = StatusReply rid c \<Longrightarrow> \<exists>e. sftp_open X K n F_READ t = Some (Inl e, t1)"
    using open_reply [OF assms, of F_READ] by metis
  have flag: "F_READ AND F_WRITE = 0" by (simp add: open_flags)
  show ?thesis
  proof (cases "content ?f n")
    case None
    then have "r = StatusReply (next_id t) NO_SUCH_FILE" "far_end_of s1 = ?f\<lparr>issued := issued ?f + 1\<rparr>"
      using o(1) flag by (auto simp: Let_def)
    moreover from this obtain e where "sftp_open X K n F_READ t = Some (Inl e, t1)" using o(5) by blast
    ultimately show ?thesis using o(2) None
      by (intro that [of t1 s1]) (simp_all add: read_small_def sftp_open_for_reading_def del: far_end_of_simps)
  next
    case (Some b)
    then have r: "r = HandleReply (next_id t) ?h"
      and f1: "far_end_of s1 = ?f\<lparr>issued := issued ?f + 1, opened := (opened ?f)(?h \<mapsto> ReadHandle n)\<rparr>"
      using o(1) flag by (auto simp: Let_def)
    have h: "name_ok ?h" by (rule handle_name_ok)
    have "opened (far_end_of s1) ?h = Some (ReadHandle n)" "content (far_end_of s1) n = Some b"
      using Some by (simp_all add: f1 del: far_end_of_simps)
    then obtain t2 s2 where l: "read_loop X K ?h [] t1 = Some (Inr b, t2)" "ready X linked t2 s2"
        "far_end_of s2 = far_end_of s1"
      using read_loop_returns [OF o(2) h, of n b 0] by auto
    obtain t' s' where c: "sftp_close X K ?h t2 = Some (Inr (), t')" "ready X linked t' s'"
        "far_end_of s' = (far_end_of s2)\<lparr>opened := (opened (far_end_of s2))(?h := None),
         announced := announced (far_end_of s2) @ (case opened (far_end_of s2) ?h of
            Some (WriteHandle n) \<Rightarrow> if announces (far_end_of s2) then [n] else [] | _ \<Rightarrow> [])\<rparr>"
      using close_reply [OF l(2) h] by metis
    have "read_small X K n t = Some (Inr (Some b), t')"
      using o(4) [OF r] l(1) c(1) by (simp add: read_small_def sftp_open_for_reading_def)
    then show ?thesis using Some c(2)
      by (intro that [of t' s']) (simp_all add: c(3) l(3) f1 del: far_end_of_simps)
  qed
qed

lemma holder_returns:
  assumes "ready X linked t s" "name_ok n"
  obtains t' s' where "holder X K n t = Some (Inr (case content (far_end_of s) n of
      Some b \<Rightarrow> from_utf8 b | None \<Rightarrow> None), t')"
    "ready X linked t' s'" "content (far_end_of s') = content (far_end_of s)"
    "mtime (far_end_of s') = mtime (far_end_of s)"
proof -
  obtain t' s' where "read_small X K n t = Some (Inr (content (far_end_of s) n), t')"
    "ready X linked t' s'" "content (far_end_of s') = content (far_end_of s)"
    "mtime (far_end_of s') = mtime (far_end_of s)"
    using assms by (rule read_small_returns)
  then show ?thesis by (intro that [of t' s']) (simp_all add: holder_def)
qed

lemma site_delete_returns:
  assumes "ready X linked t s" "name_ok n"
  obtains t' s' where "site_delete X K n t = Some (Inr (), t')" "ready X linked t' s'"
    "far_end_of s' = (far_end_of s)\<lparr>content := (content (far_end_of s))(n := None),
       mtime := (mtime (far_end_of s))(n := 0)\<rparr>"
proof -
  obtain t' s' where r:
    "sftp_removed X K n t = Some (Inr (if content (far_end_of s) n \<noteq> None then OK else NO_SUCH_FILE), t')"
    "ready X linked t' s'"
    "far_end_of s' = (far_end_of s)\<lparr>content := (content (far_end_of s))(n := None),
       mtime := (mtime (far_end_of s))(n := 0)\<rparr>"
    using assms by (rule removed_reply)
  then have "site_delete X K n t = Some (Inr (), t')" by (simp add: site_delete_def)
  then show ?thesis using r(2,3) by (rule that)
qed

text \<open>A rename, told by what the directory held.\<close>

lemma rename_moves:
  assumes "ready X linked t s" "name_ok a" "name_ok b"
    "content (far_end_of s) a = Some x" "content (far_end_of s) b = None"
  obtains t' s' where "sftp_rename X K a b t = Some (Inr OK, t')" "ready X linked t' s'"
    "far_end_of s' = (far_end_of s)\<lparr>content := (content (far_end_of s))(a := None, b \<mapsto> x),
       mtime := (mtime (far_end_of s))(a := 0, b := mtime (far_end_of s) a)\<rparr>"
proof -
  obtain now rid c t' s' where r: "sftp_rename X K a b t = Some (Inr c, t')" "ready X linked t' s'"
    "far_step (MAX_BODY X) now (Rename rid a b) (far_end_of s) = (StatusReply rid c, far_end_of s')"
    using assms(1-3) by (rule rename_reply)
  with assms(4,5) have "c = OK" by (auto simp del: far_end_of_simps)
  then show ?thesis using r assms(4,5) by (intro that [of t' s']) (auto simp del: far_end_of_simps)
qed

lemma rename_refused:
  assumes "ready X linked t s" "name_ok a" "name_ok b"
    "content (far_end_of s) a = None \<or> content (far_end_of s) b \<noteq> None"
  obtains c t' s' where "sftp_rename X K a b t = Some (Inr c, t')" "c \<noteq> OK" "ready X linked t' s'"
    "far_end_of s' = far_end_of s"
proof -
  obtain now rid c t' s' where r: "sftp_rename X K a b t = Some (Inr c, t')" "ready X linked t' s'"
    "far_step (MAX_BODY X) now (Rename rid a b) (far_end_of s) = (StatusReply rid c, far_end_of s')"
    using assms(1-3) by (rule rename_reply)
  with assms(4) have "c \<noteq> OK" "far_end_of s' = far_end_of s"
    by (auto simp: status_codes split: if_splits simp del: far_end_of_simps)
  then show ?thesis using r by (intro that [of c t' s'])
qed

lemma restore_returns:
  assumes "ready X linked t s" "name_ok claimed" "name_ok dropped"
  obtains t' s' where
    "restore X K claimed dropped t = Some (Inr (
       if content (far_end_of s) claimed = None then Gone
       else if content (far_end_of s) dropped = None then Back
       else Kept (''returning '' @ dropped @ '': a file of that name was dropped since'')), t')"
    "ready X linked t' s'"
    "far_end_of s' = (if content (far_end_of s) claimed \<noteq> None \<and> content (far_end_of s) dropped = None
       then (far_end_of s)\<lparr>content := (content (far_end_of s))(claimed := None, dropped := content (far_end_of s) claimed),
         mtime := (mtime (far_end_of s))(claimed := 0, dropped := mtime (far_end_of s) claimed)\<rparr>
       else far_end_of s)"
proof (cases "content (far_end_of s) claimed \<noteq> None \<and> content (far_end_of s) dropped = None")
  case True
  then obtain x where x: "content (far_end_of s) claimed = Some x" by auto
  with True obtain t' s' where "sftp_rename X K claimed dropped t = Some (Inr OK, t')" "ready X linked t' s'"
    "far_end_of s' = (far_end_of s)\<lparr>content := (content (far_end_of s))(claimed := None, dropped \<mapsto> x),
       mtime := (mtime (far_end_of s))(claimed := 0, dropped := mtime (far_end_of s) claimed)\<rparr>"
    using rename_moves [OF assms x] by metis
  with True x show ?thesis by (intro that [of t' s']) (simp_all add: restore_def del: far_end_of_simps)
next
  case False
  then obtain c t1 s1 where r: "sftp_rename X K claimed dropped t = Some (Inr c, t1)" "c \<noteq> OK"
      "ready X linked t1 s1" "far_end_of s1 = far_end_of s"
    using rename_refused [OF assms] by metis
  obtain t2 s2 where st: "sftp_stat X K claimed t1 = Some (Inr (if content (far_end_of s1) claimed \<noteq> None
       then Some (stamp_of (far_end_of s1) claimed) else None), t2)"
      "ready X linked t2 s2" "far_end_of s2 = far_end_of s1"
    using r(3) assms(2) by (rule stat_reply)
  obtain t3 s3 where st2: "sftp_stat X K dropped t2 = Some (Inr (if content (far_end_of s2) dropped \<noteq> None
       then Some (stamp_of (far_end_of s2) dropped) else None), t3)"
      "ready X linked t3 s3" "far_end_of s3 = far_end_of s2"
    using st(2) assms(3) by (rule stat_reply)
  show ?thesis
  proof (cases "content (far_end_of s) claimed = None")
    case True
    with r st show ?thesis
      by (intro that [of t2 s2]) (simp_all add: restore_def del: far_end_of_simps)
  next
    case here: False
    with False r st st2 show ?thesis
      by (intro that [of t3 s3]) (auto simp add: restore_def simp del: far_end_of_simps)
  qed
qed

end

section \<open>Properties\<close>

text \<open>
  C13. Returning a claimed file never replaces one: it goes back, content and time, only where the
  dropped name is free; where it is taken nothing changes and the file is kept with the reason;
  a claimed file that is gone is told so.
\<close>

theorem restore_never_replaces:
  assumes "session X K linked" "ready X linked t s" "name_ok from" "name_ok back"
  shows "\<exists>t' s'. restore X K from back t = Some (Inr (
       if content (far_end_of s) from = None then Gone
       else if content (far_end_of s) back = None then Back
       else Kept (''returning '' @ back @ '': a file of that name was dropped since'')), t')
    \<and> ready X linked t' s'
    \<and> far_end_of s' = (if content (far_end_of s) from \<noteq> None \<and> content (far_end_of s) back = None
       then (far_end_of s)\<lparr>content := (content (far_end_of s))(from := None, back := content (far_end_of s) from),
         mtime := (mtime (far_end_of s))(from := 0, back := mtime (far_end_of s) from)\<rparr>
       else far_end_of s)"
  by (rule session.restore_returns [OF assms]) blast

theorem restore_never_replaces_witness:
  "\<exists>t' s'. restore std_ext std_channel ''a'' ''b'' sample_client = Some (Inr Back, t') \<and> ready std_ext direct_linked t' s'
    \<and> content (far_end_of s') = [''b'' \<mapsto> [1, 2]]"
  using restore_never_replaces [OF std_session sample_ready sample_names(1,2)]
  by (fastforce dest: arg_cong [of _ _ content])

text \<open>
  Deleting is repeatable: it succeeds whether or not the file is there, and leaves the
  directory without that name and every other as it was.
\<close>

lemma delete_succeeds_either_way:
  assumes "session X K linked" "ready X linked t s" "name_ok n"
  shows "\<exists>t' s'. site_delete X K n t = Some (Inr (), t') \<and> ready X linked t' s'
    \<and> far_end_of s' = (far_end_of s)\<lparr>content := (content (far_end_of s))(n := None),
       mtime := (mtime (far_end_of s))(n := 0)\<rparr>"
  using session.site_delete_returns [OF assms] by (metis (no_types, lifting))

text \<open>
  C30. The claim's rename tells the winner: it is \<open>True\<close> exactly where the file was there and the
  new name was free, and then the file is under the new name with its content and its time;
  otherwise nothing changed.
\<close>

theorem rename_tells_the_winner:
  assumes "session X K linked" "ready X linked t s" "name_ok a" "name_ok b"
  shows "\<exists>t' s'. site_rename X K a b t =
      Some (Inr (content (far_end_of s) a \<noteq> None \<and> content (far_end_of s) b = None), t') \<and> ready X linked t' s'
    \<and> far_end_of s' = (if content (far_end_of s) a \<noteq> None \<and> content (far_end_of s) b = None
       then (far_end_of s)\<lparr>content := (content (far_end_of s))(a := None, b := content (far_end_of s) a),
         mtime := (mtime (far_end_of s))(a := 0, b := mtime (far_end_of s) a)\<rparr>
       else far_end_of s)"
proof (cases "content (far_end_of s) a \<noteq> None \<and> content (far_end_of s) b = None")
  case True
  then obtain x where x: "content (far_end_of s) a = Some x" by auto
  then obtain t' s' where "sftp_rename X K a b t = Some (Inr OK, t')" "ready X linked t' s'"
    "far_end_of s' = (far_end_of s)\<lparr>content := (content (far_end_of s))(a := None, b \<mapsto> x),
       mtime := (mtime (far_end_of s))(a := 0, b := mtime (far_end_of s) a)\<rparr>"
    using session.rename_moves [OF assms x] True by (metis (no_types, lifting))
  with True x show ?thesis
    by (intro exI [of _ t'] exI [of _ s']) (simp add: site_rename_def del: far_end_of_simps)
next
  case False
  then obtain c t' s' where "sftp_rename X K a b t = Some (Inr c, t')" "c \<noteq> OK" "ready X linked t' s'"
      "far_end_of s' = far_end_of s"
    using session.rename_refused [OF assms] by metis
  with False show ?thesis
    by (intro exI [of _ t'] exI [of _ s']) (auto simp add: site_rename_def simp del: far_end_of_simps)
qed

theorem rename_tells_the_winner_witness:
  "\<exists>t' s'. site_rename std_ext std_channel ''a'' ''b'' sample_client = Some (Inr True, t')
    \<and> ready std_ext direct_linked t' s' \<and> content (far_end_of s') = [''b'' \<mapsto> [1, 2]]"
  using rename_tells_the_winner [OF std_session sample_ready sample_names(1,2)]
  by (fastforce dest: arg_cong [of _ _ content])

text \<open>
  C40. A claimed file reads as gone where the server gives no stamp: the rename back refused, a
  STAT answered by attributes without both the length and the modification time makes \<open>restore\<close>
  report the file gone, though the server just described it.
\<close>

theorem unstamped_file_reads_as_gone:
  assumes "wire X" "attributes_fit a" "attributes_stamp a = None"
    "sftp_rename X K from back t = Some (Inr c, u)" "c \<noteq> OK"
    "sftp_send X K STAT (w_string X (w_u32_be X [] (next_id u)) (as_bytes from)) (u\<lparr>next_id := next_id u + 1\<rparr>) = Some (Inr (), v)"
    "sftp_recv K v = Some (Inr (ATTRS, to_be32 rid @ attributes_bytes a), w)"
  shows "restore X K from back t = Some (Inr Gone, w)"
proof -
  have "stamp X (attributes_bytes a) = Inr (None, [])"
    using wire.stamp_attributes_bytes [OF assms(1,2), of "[]"] assms(3) by simp
  then have "sftp_stat X K from u = Some (Inr None, w)"
    using assms(6,7) by (simp add: sftp_stat_def sftp_id_def wire.read_u32 [OF assms(1)])
  then show ?thesis using assms(4,5) by (simp add: restore_def)
qed

text \<open>A channel that takes whatever is written and gives the bytes of a script.\<close>

definition replies :: "bytes channel" where
  "replies = \<lparr>ch_write = (\<lambda>c b. (Inr (), c)), ch_read_exact = (\<lambda>c n. (Inr (take n c), drop n c)),
     ch_read_frame = (\<lambda>c. (Inr None, c))\<rparr>"

lemma replies_recv:
  assumes "length body < 2 ^ 31"
  shows "sftp_recv replies \<lparr>chan = frame std_ext kind body @ rest, next_id = i\<rparr> = Some (Inr (kind, body), \<lparr>chan = rest, next_id = i\<rparr>)"
proof -
  have n: "length body + 1 < 2 ^ 32" using assms by simp
  have "frame std_ext kind body @ rest = to_be32 (of_nat (length body + 1)) @ kind # body @ rest"
    using n by (simp add: rfc.frame_bytes)
  moreover have "(case to_be32 x of a # b # c # d # _ \<Rightarrow> return_act (unat (from_be32 a b c d)) | _ \<Rightarrow> fail_act Panic) s
      = Some (Inr (unat x), s)" for x and s :: "bytes Sftp"
    by (simp add: to_be32_def)
  ultimately show ?thesis using unat_of_nat_u32 [OF n]
    by (simp add: sftp_recv_def sftp_read_exact_def replies_def)
qed

definition unstamped :: attributes where
  "unstamped = \<lparr>at_flags = 0, at_size = 0, at_uid = 0, at_gid = 0, at_permissions = 0, at_atime = 0, at_mtime = 0, at_extended = []\<rparr>"

theorem unstamped_file_reads_as_gone_witness:
  "\<exists>w. restore std_ext replies ''a'' ''b''
     \<lparr>chan = status std_ext 1 FAILURE ''no'' @ frame std_ext ATTRS (to_be32 2 @ attributes_bytes unstamped), next_id = 1\<rparr> =
     Some (Inr Gone, w)"
proof -
  let ?attrs = "frame std_ext ATTRS (to_be32 2 @ attributes_bytes unstamped)"
  let ?body = "to_be32 1 @ to_be32 FAILURE @ str ''no'' @ ssh_string []"
  have "status std_ext 1 FAILURE ''no'' = frame std_ext STATUS ?body" by (simp add: status_def)
  then have "sftp_rename std_ext replies ''a'' ''b'' \<lparr>chan = status std_ext 1 FAILURE ''no'' @ ?attrs, next_id = 1\<rparr> =
      Some (Inr FAILURE, \<lparr>chan = ?attrs, next_id = 2\<rparr>)"
    using replies_recv [of ?body STATUS ?attrs 2]
    by (simp add: sftp_rename_def status_of_def sftp_id_def sftp_send_def replies_def)
  moreover have "sftp_recv replies \<lparr>chan = ?attrs, next_id = 3\<rparr> =
      Some (Inr (ATTRS, to_be32 2 @ attributes_bytes unstamped), \<lparr>chan = [], next_id = 3\<rparr>)"
    using replies_recv [of "to_be32 2 @ attributes_bytes unstamped" ATTRS "[]" 3]
    by (simp add: attributes_bytes_def unstamped_def)
  moreover have "sftp_send std_ext replies STAT b \<lparr>chan = ?attrs, next_id = 3\<rparr> = Some (Inr (), \<lparr>chan = ?attrs, next_id = 3\<rparr>)" for b
    by (simp add: sftp_send_def replies_def)
  ultimately show ?thesis
    using unstamped_file_reads_as_gone [OF rfc.wire_axioms, of unstamped 67108864 replies "''a''" "''b''"]
    by (fastforce simp: unstamped_def attributes_fit_def attributes_stamp_def status_codes)
qed

end
