(* ===== verification/Racing.thy ===== *)
theory Racing
  imports Sharing Site
begin

unbundle bit_operations_syntax

text \<open>
  Nodes that race at one server (\<open>site.rs\<close> over \<open>directory.rs\<close>): each runs the claim's own
  operations over its channel, and the server answers their requests in any interleaving. A
  node sees of a run the requests and replies of its own channel, in order; what its
  operations return is decided by them.
\<close>

section \<open>A run as one of its clients sees it\<close>

fun transcript :: "nat \<Rightarrow> event list \<Rightarrow> (bytes \<times> bytes) list" where
  "transcript i [] = []"
| "transcript i (Request j now p (Inr reply) # es) =
     (if j = i then (p, reply) # transcript i es else transcript i es)"
| "transcript i (_ # es) = transcript i es"

lemma in_transcript:
  assumes "(p, reply) \<in> set (transcript i es)"
  obtains now where "Request i now p (Inr reply) \<in> set es"
  using assms by (induction i es rule: transcript.induct) (auto split: if_splits)

text \<open>
  The channel of that client: the next request written is the next of the run's, and its reply
  is left to be read.
\<close>

record replayed =
  to_come :: "(bytes \<times> bytes) list"
  unread :: bytes

definition replay_write :: "ext \<Rightarrow> replayed \<Rightarrow> bytes \<Rightarrow> (transport_error + unit) \<times> replayed" where
  "replay_write X c b = (case (r_string X b, to_come c) of
     (Inr (packet, []), (p, reply) # rest) \<Rightarrow>
       (if packet = p then (Inr (), \<lparr>to_come = rest, unread = unread c @ reply\<rparr>)
        else (Inl (Foreign ''another request''), c))
   | _ \<Rightarrow> (Inl (Foreign ''the channel ended''), c))"

definition replay_read :: "replayed \<Rightarrow> usize \<Rightarrow> (transport_error + bytes) \<times> replayed" where
  "replay_read c n =
     (if n \<le> length (unread c)
      then (Inr (take n (unread c)), c\<lparr>unread := drop n (unread c)\<rparr>)
      else (Inl (Foreign ''the channel ended''), c))"

definition replay :: "ext \<Rightarrow> replayed channel" where
  "replay X = \<lparr>ch_write = replay_write X, ch_read_exact = replay_read, ch_read_frame = (\<lambda>c. (Inr None, c))\<rparr>"

text \<open>The client of channel \<open>i\<close> at some point of its part in the run, nothing unread.\<close>

definition attends :: "nat \<Rightarrow> event list \<Rightarrow> replayed Sftp \<Rightarrow> bool" where
  "attends i es t \<longleftrightarrow> (\<exists>past. transcript i es = past @ to_come (chan t)) \<and> unread (chan t) = []"

context wire
begin

lemma replay_send:
  assumes "sftp_send X (replay X) kind body t = Some (Inr (), t')" "length body + 1 < 2 ^ 32"
  obtains reply where "(kind # body, reply) \<in> set (to_come (chan t))" "unread (chan t') = unread (chan t) @ reply"
proof -
  have "r_string X (frame X kind body) = Inr (kind # body, [])"
    using assms(2) by (simp add: frame_bytes r_string ssh_string_def)
  then obtain reply rest where "to_come (chan t) = (kind # body, reply) # rest"
      "chan t' = \<lparr>to_come = rest, unread = unread (chan t) @ reply\<rparr>"
    using assms(1) by (auto simp: sftp_send_def replay_def replay_write_def split: list.splits if_splits)
  then show ?thesis by (intro that [of reply]) auto
qed

lemma replay_recv:
  assumes "sftp_recv (replay X) t = Some (Inr (kind, body), t')"
  obtains rest where "drop 4 (unread (chan t)) = kind # body @ rest"
proof -
  obtain n where "take n (drop 4 (unread (chan t))) = kind # body"
    using assms by (auto simp: sftp_recv_def sftp_read_exact_def replay_def replay_read_def bind_act_def
        return_act_def fail_act_def split: if_splits list.splits)
  then have "drop 4 (unread (chan t)) = (kind # body) @ drop n (drop 4 (unread (chan t)))"
    by (metis append_take_drop_id)
  then show ?thesis by (intro that) simp
qed

lemma replay_answers:
  assumes "chan t = \<lparr>to_come = (kind # body, frame X k b) # rest, unread = []\<rparr>" "length body + 1 < 2 ^ 32" "length b + 1 < 2 ^ 32"
  obtains t1 where "sftp_send X (replay X) kind body t = Some (Inr (), t1)"
    "sftp_recv (replay X) t1 = Some (Inr (k, b), t\<lparr>chan := \<lparr>to_come = rest, unread = []\<rparr>\<rparr>)"
proof -
  have "r_string X (frame X kind body) = Inr (kind # body, [])"
    using assms(2) by (simp add: frame_bytes r_string ssh_string_def)
  then have "sftp_send X (replay X) kind body t = Some (Inr (), t\<lparr>chan := \<lparr>to_come = rest, unread = frame X k b\<rparr>\<rparr>)"
    using assms(1) by (simp add: sftp_send_def replay_def replay_write_def)
  moreover have "sftp_recv (replay X) (t\<lparr>chan := \<lparr>to_come = rest, unread = frame X k b\<rparr>\<rparr>) =
      Some (Inr (k, b), t\<lparr>chan := \<lparr>to_come = rest, unread = []\<rparr>\<rparr>)"
    using assms(3) unat_of_nat_u32 [OF assms(3)]
    by (simp add: sftp_recv_def sftp_read_exact_def replay_def replay_read_def frame_bytes to_be32_def)
  ultimately show ?thesis by (rule that)
qed

lemma replay_asks:
  assumes "chan t = \<lparr>to_come = (kind # body, frame X k b) # rest, unread = []\<rparr>" "length body + 1 < 2 ^ 32" "length b + 1 < 2 ^ 32"
  shows "bind_act (sftp_send X (replay X) kind body) (\<lambda>_. bind_act (sftp_recv (replay X)) m) t =
    m (k, b) (t\<lparr>chan := \<lparr>to_come = rest, unread = []\<rparr>\<rparr>)"
  by (rule replay_answers [OF assms]) (simp add: bind_act_def)

lemma code_prefix: "code X body = Inr c \<Longrightarrow> code X (body @ rest) = Inr c"
  by (auto simp: code_def rbind_def r_u32 split: sum.splits)

text \<open>A request of the client, and the reply it reads to it, are an event of the run.\<close>

lemma replay_exchange:
  assumes "attends i es t" "bind_act (sftp_send X (replay X) kind body) (\<lambda>_. sftp_recv (replay X)) t = Some (Inr (k, b), t')"
    "length body + 1 < 2 ^ 32"
  obtains now reply rest where "Request i now (kind # body) (Inr reply) \<in> set es" "drop 4 reply = k # b @ rest"
proof -
  obtain t1 where t1: "sftp_send X (replay X) kind body t = Some (Inr (), t1)"
      "sftp_recv (replay X) t1 = Some (Inr (k, b), t')"
    using assms(2) by (auto simp: bind_act_def split: option.splits sum.splits)
  obtain reply where r: "(kind # body, reply) \<in> set (to_come (chan t))" "unread (chan t1) = unread (chan t) @ reply"
    using t1(1) assms(3) by (rule replay_send)
  obtain rest where "drop 4 (unread (chan t1)) = k # b @ rest" using t1(2) by (rule replay_recv)
  moreover obtain now where "Request i now (kind # body) (Inr reply) \<in> set es"
    using assms(1) r(1) in_transcript by (metis attends_def in_set_conv_decomp append_assoc)
  ultimately show ?thesis using r(2) assms(1) that by (auto simp: attends_def)
qed

lemma won_is_answered_OK:
  assumes "attends i es t" "site_rename X (replay X) n to t = Some (Inr True, t')" "name_ok n" "name_ok to"
  obtains e where "e \<in> set es" "channel_of e = i" "rename_won X n e"
proof -
  let ?t = "t\<lparr>next_id := next_id t + 1\<rparr>" and ?body = "to_be32 (next_id t) @ str n @ str to"
  obtain body where b: "bind_act (sftp_send X (replay X) RENAME ?body) (\<lambda>_. sftp_recv (replay X)) ?t = Some (Inr (STATUS, body), t')"
      "code X body = Inr OK"
    using assms(2-4)
    by (auto simp: site_rename_def sftp_rename_def status_of_def sftp_id_def bind_act_def lift_act_def return_act_def fail_act_def
        name_ok_def split: option.splits sum.splits prod.splits if_splits)
  have "attends i es ?t" using assms(1) by (simp add: attends_def)
  then obtain now reply rest where e: "Request i now (RENAME # ?body) (Inr reply) \<in> set es" "drop 4 reply = STATUS # body @ rest"
    using b(1) by (rule replay_exchange) (use assms(3,4) in \<open>simp add: name_ok_def\<close>)
  have "named X ?body = Some (n, str to)"
    by (rule namedI [where rid = "next_id t"]) (use assms(3) in \<open>auto simp: name_ok_def\<close>)
  then have "rename_won X n (Request i now (RENAME # ?body) (Inr reply))"
    using e(2) code_prefix [OF b(2)] by (simp add: status_in_def)
  with e(1) show ?thesis by (intro that) auto
qed

lemma taken_is_given_a_handle:
  assumes "attends i es t" "take_turn X (replay X) n who t = Some (Inr True, t')" "name_ok n"
  obtains e where "e \<in> set es" "channel_of e = i" "turn_won X n e"
proof -
  let ?flags = "F_WRITE OR F_CREAT OR F_EXCL"
  let ?t = "t\<lparr>next_id := next_id t + 1\<rparr>" and ?body = "to_be32 (next_id t) @ str n @ to_be32 ?flags @ to_be32 0"
  obtain body t1 where b: "bind_act (sftp_send X (replay X) OPEN ?body) (\<lambda>_. sftp_recv (replay X)) ?t = Some (Inr (HANDLE, body), t1)"
    using assms(2,3)
    by (auto simp: take_turn_def create_exclusive_def sftp_id_def bind_act_def return_act_def fail_act_def
        name_ok_def split: option.splits sum.splits prod.splits if_splits)
  have "attends i es ?t" using assms(1) by (simp add: attends_def)
  then obtain now reply rest where e: "Request i now (OPEN # ?body) (Inr reply) \<in> set es" "drop 4 reply = HANDLE # body @ rest"
    using b by (rule replay_exchange) (use assms(3) in \<open>simp add: name_ok_def\<close>)
  have "named X ?body = Some (n, to_be32 ?flags @ to_be32 0)"
    by (rule namedI [where rid = "next_id t"]) (use assms(3) in \<open>auto simp: name_ok_def\<close>)
  then have "turn_won X n (Request i now (OPEN # ?body) (Inr reply))"
    using e(2) by (simp add: status_in_def packet_types open_flags)
  with e(1) show ?thesis by (intro that) auto
qed

end

section \<open>Properties\<close>

lemma one_channel_won:
  assumes "length (filter W es) \<le> 1" "e \<in> set es" "W e" "f \<in> set es" "W f"
  shows "channel_of e = channel_of f"
proof -
  have "e \<in> set (filter W es)" "f \<in> set (filter W es)" using assms by auto
  with assms(1) have "e = f" by (cases "filter W es") auto
  then show ?thesis by simp
qed

text \<open>
  C6. Of the nodes that race for a file, one is told it has it. However the server interleaves the
  requests of any number of channels, as long as nobody opens the name for writing, holds it open
  so, or renames onto it: two clients whose \<open>rename\<close> of the file, to whatever names, returned
  true, at whatever points of their sessions, are the same client.
\<close>

theorem claim_goes_to_one_node:
  assumes "limits X" "shared_run X g es h" "all_unheld n g"
    "\<forall>e \<in> set es. \<not> opens_to_write X n (packet_of e) \<and> \<not> renames_to X n (packet_of e)"
    "name_ok n" "name_ok a" "name_ok b"
    "attends i es t" "site_rename X (replay X) n a t = Some (Inr True, t')"
    "attends j es u" "site_rename X (replay X) n b u = Some (Inr True, u')"
  shows "i = j"
proof -
  have w: "wire X" using assms(1) by (rule limits.axioms(1))
  obtain e where e: "e \<in> set es" "channel_of e = i" "rename_won X n e"
    using wire.won_is_answered_OK [OF w assms(8,9,5,6)] .
  obtain f where f: "f \<in> set es" "channel_of f = j" "rename_won X n f"
    using wire.won_is_answered_OK [OF w assms(10,11,5,7)] .
  have "length (filter (rename_won X n) es) \<le> 1" using assms(1-4) by (rule claim_is_won_once)
  from one_channel_won [OF this e(1,3) f(1,3)] show ?thesis using e(2) f(2) by simp
qed

text \<open>The client of a channel of the sample runs, about to make its request.\<close>

definition node :: "nat \<Rightarrow> event list \<Rightarrow> replayed Sftp" where
  "node i es = \<lparr>chan = \<lparr>to_come = transcript i es, unread = []\<rparr>, next_id = 7\<rparr>"

lemma attends_node: "attends i es (node i es)"
  by (simp add: attends_def node_def)

abbreviation rename_race :: "event list" where
  "rename_race \<equiv> [ask_rename 0 ''a'' ''b'' OK ''renamed'', ask_rename 1 ''a'' ''c'' NO_SUCH_FILE ''no such file'']"

lemma first_node_wins: "\<exists>t'. site_rename std_ext (replay std_ext) ''a'' ''b'' (node 0 rename_race) = Some (Inr True, t')"
  by (simp add: site_rename_def sftp_rename_def status_of_def sftp_id_def node_def ask_rename_def status_def code_def
      rfc.replay_asks)

theorem claim_goes_to_one_node_witness:
  "(\<exists>t'. site_rename std_ext (replay std_ext) ''a'' ''b'' (node 0 rename_race) = Some (Inr True, t'))
    \<and> \<not> (\<exists>u'. site_rename std_ext (replay std_ext) ''a'' ''c'' (node 1 rename_race) = Some (Inr True, u'))"
proof -
  obtain h where run: "shared_run std_ext (two_channels (dir sample)) rename_race h" using rename_run by blast
  obtain t' where won: "site_rename std_ext (replay std_ext) ''a'' ''b'' (node 0 rename_race) = Some (Inr True, t')"
    using first_node_wins by blast
  have "(0 :: nat) = 1" if "site_rename std_ext (replay std_ext) ''a'' ''c'' (node 1 rename_race) = Some (Inr True, u')" for u'
    by (rule claim_goes_to_one_node [OF rfc_limits.limits_axioms run _ _ sample_names(1,2,3) attends_node won attends_node that])
      (auto simp: all_unheld_def two_channels_def ask_rename_def renames_to_def named_sample sample_names split: if_splits)
  with won show ?thesis by auto
qed

text \<open>
  C7. Of the nodes that race for a turn, one has it. However requests interleave, as long as nobody
  removes the turn's file or renames it, two clients whose \<open>take_turn\<close> returned true are the same
  client.
\<close>

theorem turn_goes_to_one_node:
  assumes "limits X" "shared_run X g es h" "\<forall>e \<in> set es. \<not> takes_away X n (packet_of e)" "name_ok n"
    "attends i es t" "take_turn X (replay X) n who t = Some (Inr True, t')"
    "attends j es u" "take_turn X (replay X) n other u = Some (Inr True, u')"
  shows "i = j"
proof -
  have w: "wire X" using assms(1) by (rule limits.axioms(1))
  obtain e where e: "e \<in> set es" "channel_of e = i" "turn_won X n e"
    using wire.taken_is_given_a_handle [OF w assms(5,6,4)] .
  obtain f where f: "f \<in> set es" "channel_of f = j" "turn_won X n f"
    using wire.taken_is_given_a_handle [OF w assms(7,8,4)] .
  have "length (filter (turn_won X n) es) \<le> 1" using assms(1-3) by (rule turn_is_taken_once)
  from one_channel_won [OF this e(1,3) f(1,3)] show ?thesis using e(2) f(2) by simp
qed

text \<open>Two nodes ask for a turn; the first writes its name and closes the file.\<close>

definition ask_write :: "nat \<Rightarrow> string \<Rightarrow> bytes \<Rightarrow> event" where
  "ask_write i h d = Request i 0 (WRITE # to_be32 8 @ str h @ to_be64 0 @ ssh_string d) (Inr (status std_ext 8 OK ''written''))"

definition ask_close :: "nat \<Rightarrow> string \<Rightarrow> event" where
  "ask_close i h = Request i 0 (CLOSE # to_be32 9 @ str h) (Inr (status std_ext 9 OK ''closed''))"

abbreviation turn_race :: "event list" where
  "turn_race \<equiv> [ask_turn 0 ''b'' (handle_reply std_ext 7 ''h0''),
     ask_turn 1 ''b'' (status std_ext 7 FAILURE ''the file exists''), ask_write 0 ''h0'' (as_bytes ''n''), ask_close 0 ''h0'']"

lemma handle_name: "name_ok ''h0''"
  by (simp add: name_ok_def rust_str_ascii)

lemma turn_race_run: "\<exists>h. shared_run std_ext (two_channels (dir sample)) turn_race h"
proof -
  let ?d = "touch 0 ''b'' (directory_new [(''a'', [1, 2]), (''b'', [])])"
  let ?open = "\<lparr>s_dir = ?d, s_chan = [0 \<mapsto> ([(''h0'', WriteHandle ''b'')], 1), 1 \<mapsto> ([], 1)]\<rparr>"
  have most: "MAX_BODY std_ext = 67108864" by (simp add: rfc4251_def)
  let ?w = "touch 0 ''b'' (?d\<lparr>files := [(''a'', [1, 2]), (''b'', as_bytes ''n'')]\<rparr>)"
  have "shared_step std_ext ?open (ask_write 0 ''h0'' (as_bytes ''n'')) (?open\<lparr>s_dir := ?w\<rparr>)"
    unfolding ask_write_def
    by (rule servedI [where c = "([(''h0'', WriteHandle ''b'')], 1)" and s = "\<lparr>dir = ?w, handles = [(''h0'', WriteHandle ''b'')], next_handle = 1\<rparr>"])
      (simp_all add: serving_of_def answer_def packet_types rfc.on_write_body handle_name rfc_limits.write_at_accepts overwrite_def
        touch_def Let_def directory_new_def fun_eq_iff most)
  moreover have "shared_step std_ext (?open\<lparr>s_dir := ?w\<rparr>) (ask_close 0 ''h0'') (?open\<lparr>s_dir := ?w, s_chan := [0 \<mapsto> ([], 1), 1 \<mapsto> ([], 1)]\<rparr>)"
    unfolding ask_close_def
    by (rule servedI [where c = "([(''h0'', WriteHandle ''b'')], 1)" and s = "\<lparr>dir = ?w, handles = [], next_handle = 1\<rparr>"])
      (simp_all add: serving_of_def answer_def packet_types rfc.on_close_body handle_name close_handle_def Let_def touch_def directory_new_def
        bt_remove_def fun_eq_iff)
  ultimately have "shared_run std_ext ?open [ask_write 0 ''h0'' (as_bytes ''n''), ask_close 0 ''h0''] (?open\<lparr>s_dir := ?w, s_chan := [0 \<mapsto> ([], 1), 1 \<mapsto> ([], 1)]\<rparr>)"
    by (blast intro: shared_run.intros)
  with turn_run show ?thesis using run_append by fastforce
qed

lemma first_node_has_the_turn: "\<exists>t'. take_turn std_ext (replay std_ext) ''b'' ''n'' (node 0 turn_race) = Some (Inr True, t')"
  by (simp add: take_turn_def create_exclusive_def sftp_request_def sftp_close_def sftp_id_def node_def ask_turn_def ask_write_def
      ask_close_def handle_reply_def status_def code_def packet_types rust_str_ascii rfc.replay_asks)

theorem turn_goes_to_one_node_witness:
  "(\<exists>t'. take_turn std_ext (replay std_ext) ''b'' ''n'' (node 0 turn_race) = Some (Inr True, t'))
    \<and> \<not> (\<exists>u'. take_turn std_ext (replay std_ext) ''b'' ''m'' (node 1 turn_race) = Some (Inr True, u'))"
proof -
  obtain h where run: "shared_run std_ext (two_channels (dir sample)) turn_race h" using turn_race_run by blast
  obtain t' where won: "take_turn std_ext (replay std_ext) ''b'' ''n'' (node 0 turn_race) = Some (Inr True, t')"
    using first_node_has_the_turn by blast
  have "(0 :: nat) = 1" if "take_turn std_ext (replay std_ext) ''b'' ''m'' (node 1 turn_race) = Some (Inr True, u')" for u'
    by (rule turn_goes_to_one_node [OF rfc_limits.limits_axioms run _ sample_names(2) attends_node won attends_node that])
      (simp add: ask_turn_def ask_write_def ask_close_def takes_away_def packet_types)
  with won show ?thesis by auto
qed

end
