(* ===== verification/Client.thy ===== *)
theory Client
  imports Subsystem
begin

unbundle bit_operations_syntax

text \<open>
  The client of \<open>client.rs\<close>: what it presents, how it connects, and the subsystem run over
  a channel of its own. The SSH library, the sockets, the pins and the login checks are other
  crates': they are the record \<open>ssh\<close>, over the state \<open>'c\<close> of one connection and the state \<open>'w\<close> of
  everything else (the network, the pins). A call of theirs may never return.
\<close>

section \<open>The libraries the client calls\<close>

type_synonym duration = nat

record exchanged =
  host_key :: bytes
  session_id :: bytes

record ('w, 'stream, 'c, 'pub, 'key, 'pins) ssh =
  connect_tcp :: "string \<Rightarrow> duration option \<Rightarrow> ('w, 'stream) act"
  settle :: "'stream \<Rightarrow> duration option \<Rightarrow> ('w, unit) act"
  conn_new :: "'stream \<Rightarrow> ('w, 'c) act"
  banner :: "bytes \<Rightarrow> ('c, bytes) act"
  kex_client :: "bytes \<Rightarrow> bytes \<Rightarrow> ('c, exchanged) act"
  parse_key :: "bytes \<Rightarrow> transport_error + 'pub"
  fingerprint :: "'pub \<Rightarrow> string"
  request_service :: "('c, unit) act"
  auth_password :: "string \<Rightarrow> string \<Rightarrow> ('c, unit) act"
  auth_public_key :: "string \<Rightarrow> 'key \<Rightarrow> bytes \<Rightarrow> ('c, unit) act"
  auth_none :: "string \<Rightarrow> ('c, unit) act"
  IDENTIFICATION :: bytes
  pins_hold :: "'pins \<Rightarrow> string \<Rightarrow> string \<Rightarrow> ('w, unit) act"

text \<open>\<open>net::login\<close>: the checks a far end is handed.\<close>

record ('check, 'key) login =
  only :: "string \<Rightarrow> string \<Rightarrow> 'check"
  only_key :: "string \<Rightarrow> bytes \<Rightarrow> 'check"
  nobody :: 'check
  verifying_blob :: "'key \<Rightarrow> bytes"

section \<open>Credentials\<close>

datatype 'key Credential = Password string | PublicKey 'key

fun admitted_as :: "('check, 'key) login \<Rightarrow> 'key Credential \<Rightarrow> string \<Rightarrow> 'check" where
  "admitted_as L (Password secret) user = only L user secret"
| "admitted_as L (PublicKey key) user = only_key L user (verifying_blob L key)"

section \<open>Connecting\<close>

definition authenticate ::
  "('w, 'stream, 'c, 'pub, 'key, 'pins) ssh \<Rightarrow> string \<Rightarrow> 'key Credential option \<Rightarrow> bytes \<Rightarrow> ('c, unit) act" where
  "authenticate S user credential sid = (case credential of
     Some (Password secret) \<Rightarrow> auth_password S user secret
   | Some (PublicKey key) \<Rightarrow> auth_public_key S user key sid
   | None \<Rightarrow> auth_none S user)"

text \<open>On the connection made: the keys, the pin, and only then the login.\<close>

definition handshake ::
  "('w, 'stream, 'c, 'pub, 'key, 'pins) ssh \<Rightarrow> string \<Rightarrow> string \<Rightarrow> 'key Credential option \<Rightarrow> 'pins \<Rightarrow> ('c \<times> 'w, unit) act" where
  "handshake S address user credential pins =
     bind_act (beside (banner S (IDENTIFICATION S))) (\<lambda>peer.
     bind_act (beside (kex_client S (IDENTIFICATION S) peer)) (\<lambda>ex.
     bind_act (lift_act (parse_key S (host_key ex))) (\<lambda>host.
     bind_act (alongside (pins_hold S pins (''sftp://'' @ address) (fingerprint S host))) (\<lambda>_.
     bind_act (beside (request_service S)) (\<lambda>_.
     beside (authenticate S user credential (session_id ex)))))))"

definition connect ::
  "('w, 'stream, 'c, 'pub, 'key, 'pins) ssh \<Rightarrow> string \<Rightarrow> string \<Rightarrow> 'key Credential option
     \<Rightarrow> duration option \<times> 'pins \<Rightarrow> ('w, 'c) act" where
  "connect S address user credential = (\<lambda>(timeout, pins).
     bind_act (connect_tcp S address timeout) (\<lambda>stream.
     bind_act (settle S stream timeout) (\<lambda>_.
     bind_act (conn_new S stream) (\<lambda>conn w.
       map_option (\<lambda>(r, (conn, w)). (rbind r (\<lambda>_. Inr conn), w))
         (handshake S address user credential pins (conn, w))))))"

section \<open>The subsystem over a channel\<close>

text \<open>
  A connection whose channels are opened, accepted and closed one at a time: the channel's
  state is the connection's, the channel borrowing it.
\<close>

record 'c conns =
  ch :: "'c channel"
  ch_open :: "string \<Rightarrow> ('c, unit) act"
  ch_accept :: "string \<Rightarrow> ('c, unit) act"
  ch_close :: "('c, unit) act"

text \<open>
  \<open>Sftp::start\<close> on the channel, then the work, beside what the work has captured; the
  channel as the two left it.
\<close>

definition on_sftp :: "ext \<Rightarrow> 'c channel \<Rightarrow> ('c Sftp \<times> 'o, 'a) act \<Rightarrow> ('c \<times> 'o, 'a) act" where
  "on_sftp X K work = (\<lambda>(c, o'). map_option (\<lambda>(r, (s, o')). (r, (chan s, o')))
     (bind_act (beside (sftp_start X K)) (\<lambda>_. work) (sftp_new c, o')))"

text \<open>\<open>with_subsystem\<close> in two parts, for what is seen of it before it closes the channel.\<close>

definition in_subsystem :: "ext \<Rightarrow> 'c conns \<Rightarrow> ('c Sftp \<times> 'o, 'a) act \<Rightarrow> ('c \<times> 'o, 'a) act" where
  "in_subsystem X C work = bind_act (beside (ch_open C SUBSYSTEM)) (\<lambda>_. on_sftp X (ch C) work)"

definition with_subsystem :: "ext \<Rightarrow> 'c conns \<Rightarrow> ('c Sftp \<times> 'o, 'a) act \<Rightarrow> ('c \<times> 'o, 'a) act" where
  "with_subsystem X C work =
     bind_act (in_subsystem X C work) (\<lambda>outcome.
     bind_act (beside (ch_close C)) (\<lambda>_. return_act outcome))"

lemma with_subsystem_run:
  "with_subsystem X C work =
     bind_act (beside (ch_open C SUBSYSTEM)) (\<lambda>_.
     bind_act (on_sftp X (ch C) work) (\<lambda>outcome.
     bind_act (beside (ch_close C)) (\<lambda>_. return_act outcome)))"
  by (simp only: with_subsystem_def in_subsystem_def bind_act_assoc)

definition client_put ::
  "ext \<Rightarrow> 'c conns \<Rightarrow> string \<Rightarrow> ('c Sftp \<times> u64) pieces \<Rightarrow> ('c, unit) act" where
  "client_put X C name outgoing c =
     map_option (\<lambda>(r, (c, _)). (r, c))
       (with_subsystem X C (beside (sftp_put X (ch C) name outgoing)) (c, ()))"

text \<open>\<open>usable\<close>: \<open>alive\<close> is \<open>transport::pool::alive\<close>, asked of the connection's socket.\<close>

definition client_usable :: "('socket \<Rightarrow> bool) \<Rightarrow> ('c \<Rightarrow> 'socket) \<Rightarrow> 'c \<Rightarrow> bool" where
  "client_usable alive socket c = alive (socket c)"

section \<open>No secret before the pin is held\<close>

text \<open>The handshake up to the pin: the host key's fingerprint and the session's identifier.\<close>

definition key_exchange :: "('w, 'stream, 'c, 'pub, 'key, 'pins) ssh \<Rightarrow> ('c, string \<times> bytes) act" where
  "key_exchange S =
     bind_act (banner S (IDENTIFICATION S)) (\<lambda>peer.
     bind_act (kex_client S (IDENTIFICATION S) peer) (\<lambda>ex.
     bind_act (lift_act (parse_key S (host_key ex))) (\<lambda>host. return_act (fingerprint S host, session_id ex))))"

lemma beside_bind: "beside (bind_act m k) = bind_act (beside m) (\<lambda>x. beside (k x))"
  by (rule ext) (auto simp: beside_def bind_act_def split: option.splits prod.splits sum.splits)

lemma beside_return: "beside (return_act x) = return_act x"
  by (rule ext) (simp add: beside_def return_act_def split: prod.splits)

lemma beside_lift: "beside (lift_act r) = lift_act r"
  by (rule ext) (simp add: beside_def lift_act_def split: prod.splits)

lemma handshake_split:
  "handshake S address user credential pins =
     bind_act (beside (key_exchange S)) (\<lambda>(fp, sid).
     bind_act (alongside (pins_hold S pins (''sftp://'' @ address) fp)) (\<lambda>_.
     bind_act (beside (request_service S)) (\<lambda>_. beside (authenticate S user credential sid))))"
  unfolding handshake_def key_exchange_def beside_bind bind_act_assoc beside_return beside_lift
  by simp

text \<open>A pin that does not hold ends the handshake: the connection is as the key exchange left it.\<close>

lemma handshake_unpinned:
  assumes "key_exchange S c = Some (Inr (fp, sid), c')"
    "pins_hold S pins (''sftp://'' @ address) fp w = Some (Inl e, w')"
  shows "handshake S address user credential pins (c, w) = Some (Inl e, (c', w'))"
  using assms by (simp add: handshake_split)

lemma handshake_pinned:
  assumes "handshake S address user credential pins (c, w) = Some (Inr (), (c', w'))"
  obtains fp sid c1 c2 where "key_exchange S c = Some (Inr (fp, sid), c1)"
    "pins_hold S pins (''sftp://'' @ address) fp w = Some (Inr (), w')"
    "request_service S c1 = Some (Inr (), c2)" "authenticate S user credential sid c2 = Some (Inr (), c')"
  using assms
  by (auto simp: handshake_split bind_act_def beside_def alongside_def
      split: option.splits sum.splits prod.splits)

section \<open>A connection to a far end\<close>

text \<open>
  What the client relies on of the connection where the far end serves it: \<open>idle c d\<close>, no
  channel is open and the directory behind it is \<open>d\<close>. A channel opens onto that directory
  with no handles, and closing it leaves (\<open>left c d\<close>) the directory as the channel left it.
\<close>

locale one_channel = session X "ch C" linked for X :: ext and C :: "'c conns" and linked +
  fixes idle left :: "'c \<Rightarrow> Directory \<Rightarrow> bool"
  assumes open_link: "idle c d \<Longrightarrow> \<exists>c'. ch_open C SUBSYSTEM c = Some (Inr (), c')
      \<and> linked c' \<lparr>dir = d, handles = [], next_handle = 0\<rparr> []"
    and close_link: "linked c s [] \<Longrightarrow> \<exists>c'. ch_close C c = Some (Inr (), c') \<and> left c' (dir s)"
begin

lemma subsystem_opened:
  assumes "idle c d" "dir_wf d" "dir_bounded X d"
  obtains t s where "ready X linked t s"
    "far_end_of s = far_end_of \<lparr>dir = d, handles = [], next_handle = 0\<rparr>"
    "\<And>(work :: ('c Sftp \<times> 'o, 'a) act) p x t' s' p'. work (t, p) = Some (Inr x, (t', p')) \<Longrightarrow> ready X linked t' s' \<Longrightarrow>
      \<exists>c'. with_subsystem X C work (c, p) = Some (Inr x, (c', p')) \<and> left c' (dir s')"
proof -
  let ?s = "\<lparr>dir = d, handles = [], next_handle = 0\<rparr>"
  obtain c1 where c1: "ch_open C SUBSYSTEM c = Some (Inr (), c1)" "linked c1 ?s []"
    using open_link [OF assms(1)] by blast
  have "serving_wf ?s" using assms(2) by (simp add: serving_wf_def bt_wf_def)
  then obtain t s where t: "sftp_start X (ch C) (sftp_new c1) = Some (Inr (), t)" "ready X linked t s"
      "far_end_of s = far_end_of ?s"
    using start_ok [OF c1(2)] assms(3) by auto
  have "\<exists>c'. with_subsystem X C work (c, p) = Some (Inr x, (c', p')) \<and> left c' (dir s')"
    if work: "work (t, p) = Some (Inr x, (t', p'))" and r: "ready X linked t' s'"
    for work :: "('c Sftp \<times> 'o, 'a) act" and p x t' s' p'
  proof -
    obtain c' where "ch_close C (chan t') = Some (Inr (), c')" "left c' (dir s')"
      using close_link r by (auto simp: ready_def)
    with c1 t(1) work show ?thesis by (simp add: with_subsystem_run on_sftp_def)
  qed
  with t(2,3) show ?thesis by (rule that)
qed

lemma ready_dir: "ready X linked t s \<Longrightarrow> dir_wf (dir s) \<and> dir_bounded X (dir s)"
  by (simp add: ready_def serving_wf_def)

lemma client_put_stores:
  assumes "idle c d" "dir_wf d" "dir_bounded X d" "name_ok n" "streams P body" "length body \<le> MAX_BODY X"
  obtains c' d' where "client_put X C n P c = Some (Inr (), c')" "left c' d'" "dir_wf d'" "dir_bounded X d'"
    "bt_get (files d') = (bt_get (files d))(n \<mapsto> body)"
    "\<forall>m. m \<noteq> n \<longrightarrow> modified d' m = modified d m"
    "heard d' = heard d @ (if told d then [n] else [])"
proof -
  obtain t s where o: "ready X linked t s" "far_end_of s = far_end_of \<lparr>dir = d, handles = [], next_handle = 0\<rparr>"
    "\<And>(work :: ('c Sftp \<times> unit, unit) act) p x t' s' p'. work (t, p) = Some (Inr x, (t', p')) \<Longrightarrow> ready X linked t' s' \<Longrightarrow>
      \<exists>c'. with_subsystem X C work (c, p) = Some (Inr x, (c', p')) \<and> left c' (dir s')"
    using assms(1-3) by (rule subsystem_opened) blast
  obtain t' s' where p: "sftp_put X (ch C) n P t = Some (Inr (), t')" "ready X linked t' s'"
    "content (far_end_of s') = (content (far_end_of s))(n \<mapsto> body)"
    "\<forall>m. m \<noteq> n \<longrightarrow> mtime (far_end_of s') m = mtime (far_end_of s) m"
    "announced (far_end_of s') = announced (far_end_of s) @ (if announces (far_end_of s) then [n] else [])"
    using o(1) assms(4-6) by (rule put_stores)
  from p(1) have "beside (sftp_put X (ch C) n P) (t, ()) = Some (Inr (), (t', ()))" by simp
  then obtain c' where "with_subsystem X C (beside (sftp_put X (ch C) n P)) (c, ()) = Some (Inr (), (c', ()))"
      "left c' (dir s')"
    using o(3) p(2) by blast
  with p(3-) ready_dir [OF p(2)] show ?thesis
    unfolding o(2) by (intro that [of c' "dir s'"]) (auto simp: client_put_def)
qed

end

text \<open>A connection kept: each channel closed leaves it ready for the next.\<close>

locale kept_connection = one_channel X C linked idle idle for X :: ext and C :: "'c conns" and linked idle

section \<open>The two sides put together\<close>

definition direct_conns :: "ext \<Rightarrow> int \<Rightarrow> direct conns" where
  "direct_conns X now = \<lparr>ch = direct_channel X now,
     ch_open = (\<lambda>name c. Some (Inr (),
       \<lparr>d_serving = \<lparr>dir = dir (d_serving c), handles = [], next_handle = 0\<rparr>, d_unread = []\<rparr>)),
     ch_accept = (\<lambda>name. return_act ()),
     ch_close = (\<lambda>c. Some (Inr (), c\<lparr>d_unread := []\<rparr>))\<rparr>"

definition direct_idle :: "direct \<Rightarrow> Directory \<Rightarrow> bool" where
  "direct_idle c d \<longleftrightarrow> dir (d_serving c) = d"

interpretation direct_kept: kept_connection "rfc4251 67108864" "direct_conns (rfc4251 67108864) now"
  direct_linked direct_idle
  using direct.session_axioms [of now]
  by (simp add: kept_connection_def one_channel_def one_channel_axioms_def direct_conns_def direct_linked_def direct_idle_def)

section \<open>Properties\<close>

abbreviation std_conns :: "direct conns" where
  "std_conns \<equiv> direct_conns std_ext 0"

text \<open>
  C15. No secret reaches a server whose host key does not hold to its pin: the connection ends in
  the pin's error, whatever the service request and the login methods would have done, so none
  of them ran, with the user's name or any credential.
\<close>

theorem no_secret_before_the_pin:
  assumes "connect_tcp S address timeout w = Some (Inr stream, wa)" "settle S stream timeout wa = Some (Inr (), wb)"
    "conn_new S stream wb = Some (Inr c, wc)" "key_exchange S c = Some (Inr (fp, sid), c')"
    "pins_hold S pins (''sftp://'' @ address) fp wc = Some (Inl e, wd)"
  shows "connect (S\<lparr>request_service := service, auth_password := pw, auth_public_key := key, auth_none := none\<rparr>)
     address user credential (timeout, pins) w = Some (Inl e, wd)"
proof -
  let ?S = "S\<lparr>request_service := service, auth_password := pw, auth_public_key := key, auth_none := none\<rparr>"
  have "key_exchange ?S c = Some (Inr (fp, sid), c')" using assms(4) by (simp add: key_exchange_def)
  then have "handshake ?S address user credential pins (c, wc) = Some (Inl e, (c', wd))"
    by (rule handshake_unpinned) (use assms(5) in simp)
  then show ?thesis using assms(1-3) by (simp add: connect_def)
qed

text \<open>A library whose server presents one key; the pins are one fingerprint.\<close>

definition sample_ssh :: "bytes \<Rightarrow> (unit, unit, unit, bytes, unit, string) ssh" where
  "sample_ssh key = \<lparr>connect_tcp = (\<lambda>_ _. return_act ()), settle = (\<lambda>_ _. return_act ()), conn_new = (\<lambda>_. return_act ()),
     banner = (\<lambda>_. return_act []), kex_client = (\<lambda>_ _. return_act \<lparr>host_key = key, session_id = [2]\<rparr>),
     parse_key = Inr, fingerprint = chars_of, request_service = return_act (),
     auth_password = (\<lambda>_ _. return_act ()), auth_public_key = (\<lambda>_ _ _. return_act ()), auth_none = (\<lambda>_. return_act ()),
     IDENTIFICATION = [],
     pins_hold = (\<lambda>pinned _ fp. if fp = pinned then return_act () else fail_act (PermanentError ''another host key''))\<rparr>"

theorem no_secret_before_the_pin_witness:
  "connect (sample_ssh [66]) ''h:22'' ''u'' (Some (Password ''secret'')) (None, ''A'') () =
     Some (Inl (PermanentError ''another host key''), ())"
  using no_secret_before_the_pin [where S = "sample_ssh [66]" and address = "''h:22''" and timeout = None and w = "()"
      and stream = "()" and wa = "()" and wb = "()" and c = "()" and wc = "()" and fp = "chars_of [66]" and sid = "[2]"
      and c' = "()" and pins = "''A''" and e = "PermanentError ''another host key''" and wd = "()"
      and service = "return_act ()" and pw = "\<lambda>_ _. return_act ()" and key = "\<lambda>_ _ _. return_act ()"
      and none = "\<lambda>_. return_act ()" and user = "''u''" and credential = "Some (Password ''secret'')"]
  by (simp add: sample_ssh_def key_exchange_def chars_of_def char_of_def bit_0)

text \<open>
  C35. A connection that is made is to the server it was, and logged in: on the connection made
  to the address the keys were exchanged, the pins held the fingerprint of the key presented
  there under \<open>sftp://\<close> and the address, and the service was asked for and the login made with the
  credential given, over the session of that exchange. The pins came first: had the service been
  refused, or the login, whatever they had done before they were, the connection would have ended
  in that error with the pins already held and nothing else of the world changed.
\<close>

theorem connected_is_pinned:
  assumes "connect S address user credential (timeout, pins) w = Some (Inr conn, w')"
  shows "\<exists>stream wa wb c wc fp sid c1 c2. connect_tcp S address timeout w = Some (Inr stream, wa)
    \<and> settle S stream timeout wa = Some (Inr (), wb) \<and> conn_new S stream wb = Some (Inr c, wc)
    \<and> key_exchange S c = Some (Inr (fp, sid), c1) \<and> pins_hold S pins (''sftp://'' @ address) fp wc = Some (Inr (), w')
    \<and> request_service S c1 = Some (Inr (), c2) \<and> authenticate S user credential sid c2 = Some (Inr (), conn)
    \<and> (\<forall>service e c3. service c1 = Some (Inl e, c3) \<longrightarrow>
        connect (S\<lparr>request_service := service\<rparr>) address user credential (timeout, pins) w = Some (Inl e, w'))
    \<and> (\<forall>pw key none e c3. authenticate (S\<lparr>auth_password := pw, auth_public_key := key, auth_none := none\<rparr>) user credential sid c2 = Some (Inl e, c3) \<longrightarrow>
        connect (S\<lparr>auth_password := pw, auth_public_key := key, auth_none := none\<rparr>) address user credential (timeout, pins) w = Some (Inl e, w'))"
proof -
  obtain stream wa wb c wc where t: "connect_tcp S address timeout w = Some (Inr stream, wa)"
      "settle S stream timeout wa = Some (Inr (), wb)" "conn_new S stream wb = Some (Inr c, wc)"
    and h: "handshake S address user credential pins (c, wc) = Some (Inr (), (conn, w'))"
    using assms
    by (auto simp: connect_def bind_act_def rbind_Inr_conv split: option.splits sum.splits prod.splits)
  from h obtain fp sid c1 c2 where k: "key_exchange S c = Some (Inr (fp, sid), c1)"
      "pins_hold S pins (''sftp://'' @ address) fp wc = Some (Inr (), w')"
      "request_service S c1 = Some (Inr (), c2)" "authenticate S user credential sid c2 = Some (Inr (), conn)"
    by (rule handshake_pinned)
  have service: "connect (S\<lparr>request_service := service\<rparr>) address user credential (timeout, pins) w = Some (Inl e, w')"
    if "service c1 = Some (Inl e, c3)" for service e c3
  proof -
    have "key_exchange (S\<lparr>request_service := service\<rparr>) c = Some (Inr (fp, sid), c1)" using k(1) by (simp add: key_exchange_def)
    then have "handshake (S\<lparr>request_service := service\<rparr>) address user credential pins (c, wc) = Some (Inl e, (c3, w'))"
      using k(2) that by (simp add: handshake_split)
    then show ?thesis using t by (simp add: connect_def)
  qed
  have login: "connect (S\<lparr>auth_password := pw, auth_public_key := key, auth_none := none\<rparr>) address user credential (timeout, pins) w = Some (Inl e, w')"
    if "authenticate (S\<lparr>auth_password := pw, auth_public_key := key, auth_none := none\<rparr>) user credential sid c2 = Some (Inl e, c3)"
    for pw key none e c3
  proof -
    let ?S = "S\<lparr>auth_password := pw, auth_public_key := key, auth_none := none\<rparr>"
    have "key_exchange ?S c = Some (Inr (fp, sid), c1)" using k(1) by (simp add: key_exchange_def)
    then have "handshake ?S address user credential pins (c, wc) = Some (Inl e, (c3, w'))"
      using k(2,3) that by (simp add: handshake_split)
    then show ?thesis using t by (simp add: connect_def)
  qed
  show ?thesis
    by (rule exI [of _ stream], rule exI [of _ wa], rule exI [of _ wb], rule exI [of _ c], rule exI [of _ wc],
        rule exI [of _ fp], rule exI [of _ sid], rule exI [of _ c1], rule exI [of _ c2])
      (use t k service login in blast)
qed

text \<open>The same library, in a world that notes which servers the pins were asked for.\<close>

definition noting_ssh :: "bytes \<Rightarrow> (string list, unit, unit, bytes, unit, string) ssh" where
  "noting_ssh key = \<lparr>connect_tcp = (\<lambda>_ _. return_act ()), settle = (\<lambda>_ _. return_act ()), conn_new = (\<lambda>_. return_act ()),
     banner = (\<lambda>_. return_act []), kex_client = (\<lambda>_ _. return_act \<lparr>host_key = key, session_id = [2]\<rparr>),
     parse_key = Inr, fingerprint = chars_of, request_service = return_act (),
     auth_password = (\<lambda>_ _. return_act ()), auth_public_key = (\<lambda>_ _ _. return_act ()), auth_none = (\<lambda>_. return_act ()),
     IDENTIFICATION = [],
     pins_hold = (\<lambda>pinned server fp noted. if fp = pinned then Some (Inr (), noted @ [server])
       else Some (Inl (PermanentError ''another host key''), noted))\<rparr>"

theorem connected_is_pinned_witness:
  "connect (noting_ssh [65]) ''h:22'' ''u'' None (None, chars_of [65]) [] = Some (Inr (), [''sftp://h:22''])
    \<and> connect ((noting_ssh [65])\<lparr>request_service := fail_act (Foreign ''no service'')\<rparr>) ''h:22'' ''u'' None (None, chars_of [65]) [] =
        Some (Inl (Foreign ''no service''), [''sftp://h:22''])"
proof
  show run: "connect (noting_ssh [65]) ''h:22'' ''u'' None (None, chars_of [65]) [] = Some (Inr (), [''sftp://h:22''])"
    by (simp add: noting_ssh_def connect_def handshake_def authenticate_def alongside_def beside_def bind_act_def return_act_def)
  have refused: "fail_act (Foreign ''no service'') c = Some (Inl (Foreign ''no service''), c)" for c :: unit by simp
  show "connect ((noting_ssh [65])\<lparr>request_service := fail_act (Foreign ''no service'')\<rparr>) ''h:22'' ''u'' None (None, chars_of [65]) [] =
        Some (Inl (Foreign ''no service''), [''sftp://h:22''])"
    using connected_is_pinned [OF run] refused by blast
qed

end
