(* ===== verification/Server.thy ===== *)
theory Server
  imports Client
begin

unbundle bit_operations_syntax

text \<open>
  The in-process SSH server of \<open>server.rs\<close>: one connection served, its channels one after
  another over the directory its user was given. The SSH library's server side is the record
  \<open>ssh_server\<close>; the directories the process holds are a map from their owners' choice of one
  to its contents, so that a directory several users share is one entry. \<open>Concurrent\<close> (the
  accept loop) is another crate's: what it runs per stream is modelled.
\<close>

section \<open>The libraries the server calls\<close>

record Authenticated =
  user :: string
  auth_fingerprint :: "string option"
  auth_signature :: "bytes option"
  auth_signed :: "bytes option"

record ('stream, 'c, 'key, 'check) ssh_server =
  accept_conn :: "'stream \<Rightarrow> transport_error + 'c"
  server_banner :: "bytes \<Rightarrow> ('c, bytes) act"
  kex_server :: "'key \<Rightarrow> bytes \<Rightarrow> bytes \<Rightarrow> ('c, exchanged) act"
  auth_serve :: "bytes \<Rightarrow> 'check \<Rightarrow> ('c, Authenticated) act"
  SERVER_IDENTIFICATION :: bytes
  server_settle :: "'stream \<Rightarrow> duration option \<Rightarrow> transport_error + unit"

section \<open>Serving one connection\<close>

record Served =
  served_files :: Files
  served_who :: Authenticated
  served_session_id :: bytes

definition serve_channel ::
  "ext \<Rightarrow> 'c conns \<Rightarrow> (nat \<Rightarrow> int) \<Rightarrow> 'd \<Rightarrow> ('c \<times> ('d \<Rightarrow> Directory), unit) act" where
  "serve_channel X C clock own = (\<lambda>(c, st).
     map_option (\<lambda>(r, c, d). (r, (c, st(own := d)))) (dir_serve X (ch C) clock c (st own)))"

text \<open>The channels after the first: \<open>clock i\<close> is the clock while channel \<open>i\<close> is served.\<close>

function serve_more ::
  "ext \<Rightarrow> 'c conns \<Rightarrow> (nat \<Rightarrow> nat \<Rightarrow> int) \<Rightarrow> 'd \<Rightarrow> usize \<Rightarrow> usize \<Rightarrow> ('c \<times> ('d \<Rightarrow> Directory), unit) act" where
  "serve_more X C clock own i most =
     (if i < most then
        catch_act (beside (ch_accept C SUBSYSTEM)) (\<lambda>r. case r of
          Inl _ \<Rightarrow> return_act ()
        | Inr _ \<Rightarrow>
            bind_act (serve_channel X C (clock i) own) (\<lambda>_.
            bind_act (beside (ch_close C)) (\<lambda>_. serve_more X C clock own (Suc i) most)))
      else return_act ())"
  by pat_completeness auto
termination
  by (relation "measure (\<lambda>(X, C, clock, own, i, most). most - i)") auto

declare serve_more.simps [simp del]

text \<open>The exchange of keys and the login, which end in the user's name; then the channels.\<close>

definition server_login ::
  "('stream, 'c, 'key, 'check) ssh_server \<Rightarrow> 'key \<Rightarrow> 'check \<Rightarrow> ('c, Authenticated \<times> bytes) act" where
  "server_login V host check =
     bind_act (server_banner V (SERVER_IDENTIFICATION V)) (\<lambda>peer.
     bind_act (kex_server V host peer (SERVER_IDENTIFICATION V)) (\<lambda>ex.
     bind_act (auth_serve V (session_id ex) check) (\<lambda>who. return_act (who, session_id ex))))"

definition serve_user ::
  "ext \<Rightarrow> 'c conns \<Rightarrow> (nat \<Rightarrow> nat \<Rightarrow> int) \<Rightarrow> 'd \<Rightarrow> usize \<Rightarrow> ('c \<times> ('d \<Rightarrow> Directory), unit) act" where
  "serve_user X C clock own most =
     bind_act (beside (ch_accept C SUBSYSTEM)) (\<lambda>_.
     bind_act (serve_channel X C (clock 0) own) (\<lambda>_.
     bind_act (beside (ch_close C)) (\<lambda>_. serve_more X C clock own 1 most)))"

definition serve_chosen ::
  "ext \<Rightarrow> 'c conns \<Rightarrow> ('stream, 'c, 'key, 'check) ssh_server \<Rightarrow> (nat \<Rightarrow> nat \<Rightarrow> int) \<Rightarrow> 'stream \<Rightarrow> 'key
     \<Rightarrow> (string \<Rightarrow> 'd) \<Rightarrow> usize \<times> 'check \<Rightarrow> ('d \<Rightarrow> Directory, Authenticated \<times> bytes) act" where
  "serve_chosen X C V clock stream host chosen = (\<lambda>(most, check) st.
     (case accept_conn V stream of
        Inl e \<Rightarrow> Some (Inl e, st)
      | Inr conn \<Rightarrow>
          map_option (\<lambda>(r, (c, st)). (r, st))
            (bind_act (beside (server_login V host check)) (\<lambda>(who, sid).
               bind_act (serve_user X C clock (chosen (user who)) most) (\<lambda>_. return_act (who, sid)))
             (conn, st))))"

definition serve_directory ::
  "ext \<Rightarrow> 'c conns \<Rightarrow> ('stream, 'c, 'key, 'check) ssh_server \<Rightarrow> (nat \<Rightarrow> nat \<Rightarrow> int) \<Rightarrow> 'stream \<Rightarrow> 'key
     \<Rightarrow> 'd \<Rightarrow> usize \<times> 'check \<Rightarrow> ('d \<Rightarrow> Directory, Authenticated \<times> bytes) act" where
  "serve_directory X C V clock stream host own = serve_chosen X C V clock stream host (\<lambda>_. own)"

definition serve_channels ::
  "ext \<Rightarrow> 'c conns \<Rightarrow> ('stream, 'c, 'key, 'check) ssh_server \<Rightarrow> (nat \<Rightarrow> nat \<Rightarrow> int) \<Rightarrow> 'stream \<Rightarrow> 'key
     \<Rightarrow> Files \<Rightarrow> usize \<times> 'check \<Rightarrow> (transport_error + Served) option" where
  "serve_channels X C V clock stream host fs limit =
     map_option (\<lambda>(r, st). case r of
         Inl e \<Rightarrow> Inl e
       | Inr (who, sid) \<Rightarrow> Inr \<lparr>served_files = files (st ()), served_who = who, served_session_id = sid\<rparr>)
       (serve_directory X C V clock stream host () limit (\<lambda>_. directory_new fs))"

definition server_serve ::
  "ext \<Rightarrow> 'c conns \<Rightarrow> ('stream, 'c, 'key, 'check) ssh_server \<Rightarrow> (nat \<Rightarrow> nat \<Rightarrow> int) \<Rightarrow> 'stream \<Rightarrow> 'key
     \<Rightarrow> Files \<Rightarrow> 'check \<Rightarrow> (transport_error + Served) option" where
  "server_serve X C V clock stream host fs check = serve_channels X C V clock stream host fs (usize_max, check)"

text \<open>
  What \<open>serving_each\<close> runs for a stream its listener accepted, and \<open>serving\<close>, whose one
  directory is everyone's: the directories as it leaves them.
\<close>

definition serving_each ::
  "ext \<Rightarrow> 'c conns \<Rightarrow> ('stream, 'c, 'key, 'check) ssh_server \<Rightarrow> (nat \<Rightarrow> nat \<Rightarrow> int) \<Rightarrow> 'key
     \<Rightarrow> (string \<Rightarrow> 'd) \<Rightarrow> duration option \<times> 'check \<Rightarrow> 'stream \<Rightarrow> ('d \<Rightarrow> Directory) \<Rightarrow> ('d \<Rightarrow> Directory) option" where
  "serving_each X C V clock host of_user = (\<lambda>(timeout, check) stream st.
     (case server_settle V stream timeout of
        Inl _ \<Rightarrow> Some st
      | Inr _ \<Rightarrow> map_option snd (serve_chosen X C V clock stream host of_user (usize_max, check) st)))"

definition serving ::
  "ext \<Rightarrow> 'c conns \<Rightarrow> ('stream, 'c, 'key, 'check) ssh_server \<Rightarrow> (nat \<Rightarrow> nat \<Rightarrow> int) \<Rightarrow> 'key
     \<Rightarrow> 'd \<Rightarrow> duration option \<times> 'check \<Rightarrow> 'stream \<Rightarrow> ('d \<Rightarrow> Directory) \<Rightarrow> ('d \<Rightarrow> Directory) option" where
  "serving X C V clock host own = (\<lambda>(timeout, check) stream st.
     (case server_settle V stream timeout of
        Inl _ \<Rightarrow> Some st
      | Inr _ \<Rightarrow> map_option snd (serve_directory X C V clock stream host own (usize_max, check) st)))"

section \<open>Which directories a connection reaches\<close>

text \<open>
  Of the directories, \<open>own\<close> alone changes, and stays well formed.
\<close>

definition own_only :: "'d \<Rightarrow> 'c \<times> ('d \<Rightarrow> Directory) \<Rightarrow> 'c \<times> ('d \<Rightarrow> Directory) \<Rightarrow> bool" where
  "own_only own p q \<longleftrightarrow> (\<forall>k. k \<noteq> own \<longrightarrow> snd q k = snd p k) \<and> (dir_wf (snd p own) \<longrightarrow> dir_wf (snd q own))"

interpretation own: step_relation "own_only own"
  by unfold_locales (auto simp: own_only_def)

lemma own_beside: "steps (own_only own) (beside m)"
  by (auto simp: steps_def beside_def own_only_def)

lemma own_serve_channel: "steps (own_only own) (serve_channel X C clock own)"
proof (rule stepsI)
  fix p r q
  assume run: "serve_channel X C clock own p = Some (r, q)"
  obtain c st c' st' where pq: "p = (c, st)" "q = (c', st')" by fastforce
  with run obtain s' where loop: "serve_loop X (ch C) clock 0 c \<lparr>dir = st own, handles = [], next_handle = 0\<rparr> = Some (r, c', s')"
    and st': "st' = st(own := dir s')"
    by (auto simp: serve_channel_def dir_serve_def)
  have "serving_wf s'" if "dir_wf (st own)"
  proof (rule serve_loop_invariant [where I = serving_wf, OF loop])
    show "serving_wf \<lparr>dir = st own, handles = [], next_handle = 0\<rparr>"
      using that by (simp add: serving_wf_def bt_wf_def)
  qed (rule serve_request_wf)
  then show "own_only own p q"
    using st' pq by (simp add: serving_wf_def own_only_def)
qed

lemma own_serve_more: "steps (own_only own) (serve_more X C clock own i most)"
proof (induction X C clock own i most rule: serve_more.induct)
  case (1 X C clock own i most)
  show ?case
  proof (cases "i < most")
    case True
    then have "steps (own_only own) (bind_act (serve_channel X C (clock i) own) (\<lambda>_.
        bind_act (beside (ch_close C)) (\<lambda>_. serve_more X C clock own (Suc i) most)))"
      using 1 by (intro own.steps_bind own_serve_channel own_beside) auto
    then show ?thesis using True
      by (subst serve_more.simps) (auto intro!: own.steps_catch own_beside own.steps_return split: sum.splits)
  qed (subst serve_more.simps, simp add: own.steps_return)
qed

lemma own_serve_user: "steps (own_only own) (serve_user X C clock own most)"
  unfolding serve_user_def
  by (intro own.steps_bind own_beside own_serve_channel own_serve_more)

text \<open>The login, on the connection alone.\<close>

definition logged_in ::
  "('stream, 'c, 'key, 'check) ssh_server \<Rightarrow> 'stream \<Rightarrow> 'key \<Rightarrow> 'check \<Rightarrow> (Authenticated \<times> bytes) option" where
  "logged_in V stream host check = (case accept_conn V stream of
     Inl _ \<Rightarrow> None
   | Inr c \<Rightarrow> (case server_login V host check c of Some (Inr w, _) \<Rightarrow> Some w | _ \<Rightarrow> None))"

lemma serve_chosen_reach:
  assumes "serve_chosen X C V clock stream host chosen (most, check) st = Some (r, st')"
  shows "case logged_in V stream host check of
      None \<Rightarrow> st' = st \<and> (\<exists>e. r = Inl e)
    | Some (who, sid) \<Rightarrow> (\<forall>k. k \<noteq> chosen (user who) \<longrightarrow> st' k = st k)
        \<and> (dir_wf (st (chosen (user who))) \<longrightarrow> dir_wf (st' (chosen (user who))))
        \<and> (\<forall>w. r = Inr w \<longrightarrow> w = (who, sid))"
proof (cases "accept_conn V stream")
  case (Inl e)
  with assms show ?thesis by (auto simp: serve_chosen_def logged_in_def)
next
  case (Inr c)
  obtain v c1 where login: "server_login V host check c = Some (v, c1)"
    using assms Inr by (cases "server_login V host check c") (auto simp: serve_chosen_def beside_def bind_act_def)
  show ?thesis
  proof (cases v)
    case (Inl e)
    with assms Inr login show ?thesis
      by (auto simp: serve_chosen_def logged_in_def beside_def bind_act_def)
  next
    case v: (Inr w)
    obtain who sid where w: "w = (who, sid)" by (cases w)
    with assms Inr login v obtain u c2 where
      u: "serve_user X C clock (chosen (user who)) most (c1, st) = Some (u, (c2, st'))"
      and r: "r = (case u of Inl e \<Rightarrow> Inl e | Inr _ \<Rightarrow> Inr (who, sid))"
      by (auto simp: serve_chosen_def beside_def bind_act_def split: option.splits sum.splits prod.splits)
    then show ?thesis using stepsD [OF own_serve_user u] Inr login v w
      by (auto simp: logged_in_def own_only_def split: sum.splits)
  qed
qed

text \<open>
  A server open to everyone: \<open>serving\<close> is \<open>serving_each\<close> whose users share the one directory;
  and, over whatever streams are accepted one after another, a directory none of the admitted
  users is given stays as it was, and every directory well formed.
\<close>

lemma serving_shares_one: "serving X C V clock host own = serving_each X C V clock host (\<lambda>_. own)"
  unfolding serving_def serving_each_def serve_directory_def ..

primrec serving_streams ::
  "ext \<Rightarrow> 'c conns \<Rightarrow> ('stream, 'c, 'key, 'check) ssh_server \<Rightarrow> (nat \<Rightarrow> nat \<Rightarrow> nat \<Rightarrow> int) \<Rightarrow> 'key
     \<Rightarrow> (string \<Rightarrow> 'd) \<Rightarrow> duration option \<times> 'check \<Rightarrow> nat \<Rightarrow> 'stream list \<Rightarrow> ('d \<Rightarrow> Directory) \<Rightarrow> ('d \<Rightarrow> Directory) option" where
  "serving_streams X C V clock host of_user terms i [] st = Some st"
| "serving_streams X C V clock host of_user terms i (stream # rest) st =
     Option.bind (serving_each X C V (clock i) host of_user terms stream st)
       (serving_streams X C V clock host of_user terms (Suc i) rest)"

lemma serving_each_reach:
  assumes "serving_each X C V clock host of_user (timeout, check) stream st = Some st'" "st k \<noteq> st' k \<or> (dir_wf (st k) \<and> \<not> dir_wf (st' k))"
  obtains who sid where "logged_in V stream host check = Some (who, sid)" "k = of_user (user who)" "dir_wf (st k) \<longrightarrow> dir_wf (st' k)"
proof -
  obtain r where "serve_chosen X C V clock stream host of_user (usize_max, check) st = Some (r, st')"
    using assms by (auto simp: serving_each_def split: sum.splits)
  from serve_chosen_reach [OF this] assms(2) show ?thesis
    by (cases "logged_in V stream host check") (auto intro: that)
qed

lemma serving_streams_reach:
  assumes "serving_streams X C V clock host of_user (timeout, check) i rest st = Some st'"
  shows "st' k = st k \<or> (\<exists>stream \<in> set rest. \<exists>who sid. logged_in V stream host check = Some (who, sid) \<and> k = of_user (user who))"
    and "dir_wf (st k) \<longrightarrow> dir_wf (st' k)"
  using assms
proof (induction rest arbitrary: i st)
  case (Cons stream rest)
  { case 1
    then obtain st1 where st1: "serving_each X C V (clock i) host of_user (timeout, check) stream st = Some st1"
        "serving_streams X C V clock host of_user (timeout, check) (Suc i) rest st1 = Some st'"
      by (auto simp: bind_eq_Some_conv)
    then show ?case using Cons.IH(1) [OF st1(2)] serving_each_reach [OF st1(1), of k] by (metis list.set_intros)
  next
    case 2
    then obtain st1 where st1: "serving_each X C V (clock i) host of_user (timeout, check) stream st = Some st1"
        "serving_streams X C V clock host of_user (timeout, check) (Suc i) rest st1 = Some st'"
      by (auto simp: bind_eq_Some_conv)
    then show ?case using Cons.IH(2) [OF st1(2)] serving_each_reach [OF st1(1), of k] by metis }
qed simp_all

lemma serve_user_none_is_one: "serve_user X C clock own 0 = serve_user X C clock own 1"
  by (simp add: serve_user_def serve_more.simps)

section \<open>The channels one after another\<close>

text \<open>
  A connection over which the client opens one channel after another, sends the frames of
  each and closes it, and then hangs up. \<open>serve_each\<close> is the reference: the channels in
  order, each from no handles, over the directory the one before left, up to the first error.
\<close>

abbreviation fresh :: "Directory \<Rightarrow> Serving" where
  "fresh d \<equiv> \<lparr>dir = d, handles = [], next_handle = 0\<rparr>"

primrec offers :: "'c conns \<Rightarrow> 'c \<Rightarrow> bytes list list \<Rightarrow> bool" where
  "offers C c [] \<longleftrightarrow> (\<exists>e c'. ch_accept C SUBSYSTEM c = Some (Inl e, c'))"
| "offers C c (ps # pss) \<longleftrightarrow> (\<exists>c1. ch_accept C SUBSYSTEM c = Some (Inr (), c1)
     \<and> feeds (ch C) (\<lambda>c2. \<exists>c3. ch_close C c2 = Some (Inr (), c3) \<and> offers C c3 pss) c1 ps)"

primrec serve_each ::
  "ext \<Rightarrow> (nat \<Rightarrow> nat \<Rightarrow> int) \<Rightarrow> nat \<Rightarrow> bytes list list \<Rightarrow> Directory \<Rightarrow> (transport_error + unit) \<times> Directory" where
  "serve_each X clock i [] d = (Inr (), d)"
| "serve_each X clock i (ps # pss) d = (case serve_all X (clock i) 0 ps (fresh d) of
     (Inl e, s) \<Rightarrow> (Inl e, dir s)
   | (Inr _, s) \<Rightarrow> serve_each X clock (Suc i) pss (dir s))"

lemma serve_each_append:
  "serve_each X clock i (pss @ qss) d = (case serve_each X clock i pss d of
     (Inl e, d) \<Rightarrow> (Inl e, d)
   | (Inr _, d) \<Rightarrow> serve_each X clock (i + length pss) qss d)"
  by (induction pss arbitrary: i d) (auto split: prod.splits sum.splits)

text \<open>One channel of a connection, accepted: served, and closed where it was served to its end.\<close>

lemma serve_channel_feeds:
  assumes "feeds (ch C) Q c ps" "serve_all X clock 0 ps (fresh (st own)) = (r, s)"
  obtains c' where "serve_channel X C clock own (c, st) = Some (r, (c', st(own := dir s)))" "r = Inr () \<Longrightarrow> Q c'"
  using serve_loop_feeds [OF assms(1), of X clock 0 "fresh (st own)"] assms(2)
  by (auto simp: serve_channel_def dir_serve_def)

lemma serve_more_offers:
  assumes "offers C c pss"
  shows "\<exists>c'. serve_more X C clock own i most (c, st) =
    Some (fst (serve_each X clock i (take (most - i) pss) (st own)),
      (c', st(own := snd (serve_each X clock i (take (most - i) pss) (st own)))))"
  using assms
proof (induction pss arbitrary: c i st)
  case Nil
  then obtain e c' where "ch_accept C SUBSYSTEM c = Some (Inl e, c')" by auto
  then show ?case by (simp add: serve_more.simps)
next
  case (Cons ps pss)
  show ?case
  proof (cases "i < most")
    case True
    let ?Q = "\<lambda>c2. \<exists>c3. ch_close C c2 = Some (Inr (), c3) \<and> offers C c3 pss"
    obtain c1 where c1: "ch_accept C SUBSYSTEM c = Some (Inr (), c1)" "feeds (ch C) ?Q c1 ps"
      using Cons.prems by auto
    obtain r s where rs: "serve_all X (clock i) 0 ps (fresh (st own)) = (r, s)" by fastforce
    obtain c2 where c2: "serve_channel X C (clock i) own (c1, st) = Some (r, (c2, st(own := dir s)))" "r = Inr () \<Longrightarrow> ?Q c2"
      using serve_channel_feeds [OF c1(2), where st = st and own = own, OF rs] by blast
    have t: "take (most - i) (ps # pss) = ps # take (most - Suc i) pss"
      using True by (simp add: take_Cons' )
    show ?thesis
    proof (cases r)
      case (Inl e)
      with True c1 c2(1) rs show ?thesis by (simp add: t serve_more.simps [of X C clock own i] fun_eq_iff)
    next
      case (Inr u)
      then obtain c3 where c3: "ch_close C c2 = Some (Inr (), c3)" "offers C c3 pss" using c2(2) by auto
      have "serve_more X C clock own i most (c, st) = serve_more X C clock own (Suc i) most (c3, st(own := dir s))"
        using True c1(1) c2(1) Inr c3(1) by (simp add: serve_more.simps [of X C clock own i])
      with Cons.IH [OF c3(2), of "Suc i" "st(own := dir s)"] rs Inr
      show ?thesis by (simp only: t serve_each.simps prod.case sum.case fun_upd_same fun_upd_upd)
    qed
  qed (simp add: serve_more.simps)
qed

lemma serve_user_offers:
  assumes "offers C c (ps # pss)"
  shows "\<exists>c'. serve_user X C clock own most (c, st) =
    Some (fst (serve_each X clock 0 (ps # take (most - 1) pss) (st own)),
      (c', st(own := snd (serve_each X clock 0 (ps # take (most - 1) pss) (st own)))))"
proof -
  have "serve_user X C clock own most = serve_user X C clock own (Suc (most - 1))"
    by (cases most) (simp_all add: serve_user_none_is_one)
  then have "serve_user X C clock own most (c, st) = serve_more X C clock own 0 (Suc (most - 1)) (c, st)"
    using assms by (auto simp: serve_user_def serve_more.simps [of X C clock own 0])
  with serve_more_offers [OF assms, of X clock own 0 "Suc (most - 1)" st] show ?thesis by simp
qed

lemma serve_chosen_offers:
  assumes "accept_conn V stream = Inr c0" "server_login V host check c0 = Some (Inr (who, sid), c)"
    "offers C c (ps # pss)"
    "serve_each X clock 0 (ps # take (most - 1) pss) (st (chosen (user who))) = (r, d)"
  shows "serve_chosen X C V clock stream host chosen (most, check) st =
    Some (rbind r (\<lambda>_. Inr (who, sid)), st(chosen (user who) := d))"
proof -
  obtain c' where "serve_user X C clock (chosen (user who)) most (c, st) = Some (r, (c', st(chosen (user who) := d)))"
    using serve_user_offers [OF assms(3), of X clock "chosen (user who)" most st] unfolding assms(4) fst_conv snd_conv by blast
  with assms(1,2) show ?thesis
    by (cases r) (simp_all add: serve_chosen_def beside_def bind_act_def return_act_def)
qed

section \<open>Properties\<close>

text \<open>
  C16. A connection reaches one directory, the one chosen by the name its login was admitted
  under: without a login nothing changes and the connection ends in an error; with one, every
  other directory is as it was, the user's own stays well formed, and what is returned is who
  logged in.
\<close>

theorem serving_reaches_own_directory:
  assumes "serve_chosen X C V clock stream host chosen (most, check) st = Some (r, st')"
  shows "case logged_in V stream host check of
      None \<Rightarrow> st' = st \<and> (\<exists>e. r = Inl e)
    | Some (who, sid) \<Rightarrow> (\<forall>k. k \<noteq> chosen (user who) \<longrightarrow> st' k = st k)
        \<and> (dir_wf (st (chosen (user who))) \<longrightarrow> dir_wf (st' (chosen (user who))))
        \<and> (\<forall>w. r = Inr w \<longrightarrow> w = (who, sid))"
  using assms by (rule serve_chosen_reach)

text \<open>A connection whose channels are scripts of frames, one after another.\<close>

definition scripts :: "bytes list list conns" where
  "scripts = \<lparr>ch = \<lparr>ch_write = (\<lambda>c b. (Inr (), c)), ch_read_exact = (\<lambda>c n. (Inl (Foreign ''frames only''), c)),
       ch_read_frame = (\<lambda>c. case c of (p # ps) # cs \<Rightarrow> (Inr (Some p), ps # cs) | _ \<Rightarrow> (Inr None, c))\<rparr>,
     ch_open = (\<lambda>name. return_act ()),
     ch_accept = (\<lambda>name c. Some (if c = [] then Inl (Foreign ''gone'') else Inr (), c)),
     ch_close = (\<lambda>c. Some (Inr (), tl c))\<rparr>"

definition sample_server :: "(bytes list list, bytes list list, unit, string) ssh_server" where
  "sample_server = \<lparr>accept_conn = Inr, server_banner = (\<lambda>_. return_act []),
     kex_server = (\<lambda>_ _ _. return_act \<lparr>host_key = [], session_id = [5]\<rparr>),
     auth_serve = (\<lambda>_ check. return_act \<lparr>user = check, auth_fingerprint = None, auth_signature = None, auth_signed = None\<rparr>),
     SERVER_IDENTIFICATION = [], server_settle = (\<lambda>_ _. Inr ())\<rparr>"

lemma sample_login:
  "logged_in sample_server c () u =
     Some (\<lparr>user = u, auth_fingerprint = None, auth_signature = None, auth_signed = None\<rparr>, [5])"
  by (simp add: logged_in_def sample_server_def server_login_def)

lemma sample_served:
  "\<exists>st'. serve_chosen std_ext scripts sample_server (\<lambda>_ _. 0) [[OPEN # request_body (Open 7 ''b'' F_WRITE)]] () (\<lambda>u. u)
       (1, ''u'') (\<lambda>_. directory_new []) =
     Some (Inr (\<lparr>user = ''u'', auth_fingerprint = None, auth_signature = None, auth_signed = None\<rparr>, [5]), st')
   \<and> bt_get (files (st' ''u'')) ''b'' = Some []"
  by (simp add: serve_chosen_def sample_server_def server_login_def serve_user_def scripts_def beside_def bind_act_def
      return_act_def serve_channel_def dir_serve_def serve_loop.simps serve_request_def answer_def packet_types
      rfc.on_open_body sample_names open_named_def Let_def directory_new_def open_flags bt_contains_def serve_more.simps)

theorem serving_reaches_own_directory_witness:
  "\<exists>r st'. serve_chosen std_ext scripts sample_server (\<lambda>_ _. 0) [[OPEN # request_body (Open 7 ''b'' F_WRITE)]] () (\<lambda>u. u)
       (1, ''u'') (\<lambda>_. directory_new []) = Some (r, st')
     \<and> bt_get (files (st' ''u'')) ''b'' = Some [] \<and> dir_wf (st' ''u'') \<and> st' ''v'' = directory_new []"
proof -
  obtain r st' where run: "serve_chosen std_ext scripts sample_server (\<lambda>_ _. 0) [[OPEN # request_body (Open 7 ''b'' F_WRITE)]] ()
       (\<lambda>u. u) (1, ''u'') (\<lambda>_. directory_new []) = Some (r, st')" "bt_get (files (st' ''u'')) ''b'' = Some []"
    using sample_served by blast
  have "dir_wf (directory_new [])" by (simp add: dir_wf_def directory_new_def bt_wf_def)
  with run serving_reaches_own_directory [OF run(1)] show ?thesis by (auto simp: sample_login)
qed

text \<open>
  C17. A connection is served channel by channel: over the directory of the user who logged in,
  what is served is the channels the client opened, in order, each from no handles and at the
  directory the one before left, up to the first that fails; at most as many as the limit, and
  the first whatever the limit. It ends, with who logged in where every channel was served to
  its end and that channel's error where one was not.
\<close>

theorem channels_are_served_in_turn:
  assumes "accept_conn V stream = Inr c0" "server_login V host check c0 = Some (Inr (who, sid), c)"
    "offers C c (ps # pss)"
    "serve_each X clock 0 (ps # take (most - 1) pss) (st (chosen (user who))) = (r, d)"
  shows "serve_chosen X C V clock stream host chosen (most, check) st =
    Some (rbind r (\<lambda>_. Inr (who, sid)), st(chosen (user who) := d))"
  using assms by (rule serve_chosen_offers)

lemma offers_scripts: "offers scripts pss pss"
proof (induction pss)
  case (Cons ps pss)
  have "feeds (ch scripts) Q (ps # pss) ps" if "Q ([] # pss)" for Q
    using that by (induction ps) (simp_all add: scripts_def)
  then show ?case using Cons by (simp add: scripts_def)
qed (simp add: scripts_def)

theorem channels_are_served_in_turn_witness:
  "serve_chosen std_ext scripts sample_server (\<lambda>_ _. 0) [[[INIT]], [[STAT, 1]]] () (\<lambda>u. u) (1, ''u'') (\<lambda>_. directory_new []) =
     Some (Inr (\<lparr>user = ''u'', auth_fingerprint = None, auth_signature = None, auth_signed = None\<rparr>, [5]), \<lambda>_. directory_new [])"
  using channels_are_served_in_turn [of sample_server "[[[INIT]], [[STAT, 1]]]" "[[[INIT]], [[STAT, 1]]]" "()" "''u''"
      "\<lparr>user = ''u'', auth_fingerprint = None, auth_signature = None, auth_signed = None\<rparr>" "[5]" "[[[INIT]], [[STAT, 1]]]"
      scripts "[[INIT]]" "[[[STAT, 1]]]" std_ext "\<lambda>_ _. 0" 1 "\<lambda>_. directory_new []" "\<lambda>u. u" "Inr ()" "directory_new []",
      OF _ _ offers_scripts]
  by (simp add: sample_server_def server_login_def serve_request_def answer_def on_init_def packet_types fun_upd_idem_iff)

text \<open>A limit of no channels is a limit of one: the first is served before the limit is looked at.\<close>

lemma limit_zero_serves_one:
  "serve_chosen X C V clock stream host chosen (0, check) st = serve_chosen X C V clock stream host chosen (1, check) st"
  by (cases "accept_conn V stream") (simp_all add: serve_chosen_def serve_user_none_is_one [unfolded One_nat_def])

end
