(* ===== verification/Serving_Runs.thy ===== *)
theory Serving_Runs
  imports Server Sharing
begin

text \<open>
  A connection served (\<open>server.rs\<close>) seen as a run of the directory it shares with every other
  connection (\<open>Sharing\<close>): which events it has, frame by frame.
\<close>

section \<open>The frames of a run\<close>

text \<open>
  The frames a run's channels were sent, where one channel follows another: the frames of each,
  in order, behind those that come before the first channel opens.
\<close>

primrec frames_in :: "event list \<Rightarrow> bytes list \<times> bytes list list" where
  "frames_in [] = ([], [])"
| "frames_in (e # es) = (case e of
     Connect _ \<Rightarrow> ([], fst (frames_in es) # snd (frames_in es))
   | Request _ _ p _ \<Rightarrow> (p # fst (frames_in es), snd (frames_in es))
   | Hangup _ \<Rightarrow> frames_in es)"

definition channels_in :: "event list \<Rightarrow> bytes list list" where
  "channels_in es = snd (frames_in es)"

lemma frames_in_append:
  "fst (frames_in fs) = [] \<Longrightarrow> frames_in (es @ fs) = (fst (frames_in es), channels_in es @ channels_in fs)"
proof (induction es)
  case Nil
  then show ?case by (cases "frames_in fs") (simp add: channels_in_def)
next
  case (Cons e es)
  then show ?case by (cases e) (simp_all add: channels_in_def)
qed

lemma frames_in_served:
  assumes "serve_all X clock n ps s = (r, s')" "fst (frames_in fs) = []"
  shows "frames_in (served_events X clock i n ps s @ fs) = (fst (frames_in (served_events X clock i n ps s)), channels_in fs)"
    "\<exists>rest. ps = fst (frames_in (served_events X clock i n ps s)) @ rest"
    "r = Inr u \<Longrightarrow> fst (frames_in (served_events X clock i n ps s)) = ps"
    "r = Inl e \<Longrightarrow> \<exists>now p. served_events X clock i n ps s \<noteq> [] \<and> last (served_events X clock i n ps s) = Request i now p (Inl e)"
proof -
  have no: "channels_in (served_events X clock i n ps s) = []" for n ps s
    by (induction ps arbitrary: n s) (auto simp: channels_in_def split: prod.splits sum.splits)
  then show "frames_in (served_events X clock i n ps s @ fs) = (fst (frames_in (served_events X clock i n ps s)), channels_in fs)"
    using assms(2) by (simp add: frames_in_append)
  show "\<exists>rest. ps = fst (frames_in (served_events X clock i n ps s)) @ rest"
  proof (induction ps arbitrary: n s)
    case (Cons p ps)
    obtain v s1 where v: "serve_request X (clock n) p s = (v, s1)" by fastforce
    from Cons [of "Suc n" s1] v show ?case by (cases v) (auto split: prod.splits)
  qed simp
  show "fst (frames_in (served_events X clock i n ps s)) = ps" if "r = Inr u"
    using assms(1) unfolding that
  proof (induction ps arbitrary: n s)
    case (Cons p ps)
    obtain v s1 where v: "serve_request X (clock n) p s = (v, s1)" by fastforce
    with Cons.prems obtain w where w: "v = Inr w" by (cases v) auto
    with Cons.IH [of "Suc n" s1] Cons.prems v show ?case by (auto split: prod.splits)
  qed simp
  show "\<exists>now p. served_events X clock i n ps s \<noteq> [] \<and> last (served_events X clock i n ps s) = Request i now p (Inl e)" if "r = Inl e"
    using assms(1) unfolding that
  proof (induction ps arbitrary: n s)
    case (Cons p ps)
    obtain v s1 where v: "serve_request X (clock n) p s = (v, s1)" by fastforce
    with Cons show ?case by (cases v) auto
  qed simp
qed

section \<open>One channel after another\<close>

lemma channel_events_on: "e \<in> set (channel_events X clock i ps d) \<Longrightarrow> channel_of e = i"
proof -
  have "e \<in> set (served_events X clock i n ps s) \<Longrightarrow> channel_of e = i" for n s
    by (induction ps arbitrary: n s) (auto split: prod.splits sum.splits)
  then show "e \<in> set (channel_events X clock i ps d) \<Longrightarrow> channel_of e = i"
    by (auto simp: channel_events_def Let_def split: sum.splits)
qed

text \<open>
  What one channel's events show: all its frames where it was served to its end, else those up to
  the one that failed, whose error is the last event.
\<close>

definition shows_frames :: "nat \<Rightarrow> bytes list list \<Rightarrow> transport_error + 'a \<Rightarrow> event list \<Rightarrow> bool" where
  "shows_frames i pss r es \<longleftrightarrow> fst (frames_in es) = [] \<and> (case r of
     Inr _ \<Rightarrow> channels_in es = pss
   | Inl e \<Rightarrow> es \<noteq> [] \<and> (\<exists>now p. last es = Request i now p (Inl e))
       \<and> (\<exists>qss qs rest qss'. channels_in es = qss @ [qs] \<and> pss = qss @ (qs @ rest) # qss'))"

lemma channel_frames:
  assumes "serve_all X clock 0 ps (fresh d) = (r, s')"
  shows "shows_frames i [ps] r (channel_events X clock i ps d)"
proof (cases r)
  case (Inr u)
  then show ?thesis
    using frames_in_served(1) [OF assms, of "[Hangup i]" i] frames_in_served(3) [OF assms, of "[]" u i] assms
    by (simp add: shows_frames_def channel_events_def channels_in_def)
next
  case (Inl e)
  let ?es = "served_events X clock i 0 ps (fresh d)"
  obtain rest now p where r: "ps = fst (frames_in ?es) @ rest" "?es \<noteq> []" "last ?es = Request i now p (Inl e)"
    using frames_in_served(2) [OF assms, of "[]" i] frames_in_served(4) [OF assms, of "[]" e i] Inl by auto
  have "snd (frames_in ?es) = []"
    using arg_cong [OF frames_in_served(1) [OF assms, of "[]" i], of snd] by (simp add: channels_in_def)
  then have "channels_in (Connect i # ?es) = [] @ [fst (frames_in ?es)]" "[ps] = [] @ (fst (frames_in ?es) @ rest) # []"
    using r(1) by (simp_all add: channels_in_def)
  then show ?thesis using r(2,3) assms Inl unfolding shows_frames_def channel_events_def Let_def
    by (simp only: sum.case fst_conv) auto
qed

lemma shows_frames_Cons:
  assumes "shows_frames i [ps] (Inr u) es" "shows_frames i pss r fs"
  shows "shows_frames i (ps # pss) r (es @ fs)"
proof -
  have "frames_in (es @ fs) = ([], ps # channels_in fs)"
    using assms by (subst frames_in_append) (auto simp: shows_frames_def)
  then have f: "fst (frames_in (es @ fs)) = []" "channels_in (es @ fs) = ps # channels_in fs" by (simp_all add: channels_in_def)
  show ?thesis
  proof (cases r)
    case (Inr v)
    with f assms(2) show ?thesis by (simp add: shows_frames_def)
  next
    case (Inl e)
    then obtain qss qs rest qss' where "channels_in fs = qss @ [qs]" "pss = qss @ (qs @ rest) # qss'"
      using assms(2) by (auto simp: shows_frames_def)
    then have "channels_in (es @ fs) = (ps # qss) @ [qs] \<and> ps # pss = (ps # qss) @ (qs @ rest) # qss'" by (simp add: f(2))
    with f assms(2) Inl show ?thesis unfolding shows_frames_def by (simp only: sum.case) auto
  qed
qed

lemma serve_each_run:
  assumes "serve_each X clock k pss (s_dir g) = (r, d)" "s_chan g i = None"
  shows "\<exists>es. shared_run X g es (g\<lparr>s_dir := d\<rparr>) \<and> (\<forall>e \<in> set es. channel_of e = i) \<and> shows_frames i pss r es"
  using assms
proof (induction pss arbitrary: k g)
  case Nil
  then show ?case by (intro exI [of _ "[]"]) (auto simp: shows_frames_def channels_in_def)
next
  case (Cons ps pss)
  obtain v s where v: "serve_all X (clock k) 0 ps (fresh (s_dir g)) = (v, s)" by fastforce
  let ?h = "g\<lparr>s_dir := dir s\<rparr>" and ?es = "channel_events X (clock k) i ps (s_dir g)"
  have run: "shared_run X g ?es ?h" using v Cons.prems(2) by (rule channel_run)
  have seen: "shows_frames i [ps] v ?es" using v by (rule channel_frames)
  show ?case
  proof (cases v)
    case (Inl e)
    then have "shows_frames i (ps # pss) v ?es" using seen by (auto simp: shows_frames_def Cons_eq_append_conv)
    with Inl run v Cons.prems(1) show ?thesis by (intro exI [of _ ?es]) (auto dest: channel_events_on)
  next
    case (Inr u)
    then obtain es where es: "shared_run X ?h es (?h\<lparr>s_dir := d\<rparr>)" "\<forall>e \<in> set es. channel_of e = i" "shows_frames i pss r es"
      using Cons.IH [of "Suc k" ?h] Cons.prems v by auto
    have "shows_frames i (ps # pss) r (?es @ es)" using seen es(3) unfolding Inr by (rule shows_frames_Cons)
    with run_append [OF run] es show ?thesis by (intro exI [of _ "?es @ es"]) (auto dest: channel_events_on)
  qed
qed

section \<open>Properties\<close>

text \<open>
  C22. What a server does over a connection is a run of the shared directory: whatever other
  channels there are, with the directory of the user who logged in as the shared one, serving
  the client's channels is a run in which only its own channel has events, and leaves the
  directory, and every other channel, as that run does. Where every channel was served to its
  end the run's frames are those of the channels the client offered, in order, up to the limit
  and the first whatever the limit; where one failed they are the frames up to the one that
  failed, and its error is the run's last event and the connection's. What holds of every run, at
  most one winner of a claim and of a turn and a directory that stays well formed, so holds of it.
\<close>

theorem serving_is_a_shared_run:
  assumes "accept_conn V stream = Inr c0" "server_login V host check c0 = Some (Inr (who, sid), c)"
    "offers C c (ps # pss)" "s_dir g = st (chosen (user who))" "s_chan g i = None"
  shows "\<exists>r es h. serve_chosen X C V clock stream host chosen (most, check) st =
        Some (rbind r (\<lambda>_ :: unit. Inr (who, sid)), st(chosen (user who) := s_dir h))
    \<and> shared_run X g es h \<and> list_all (\<lambda>e. channel_of e = i) es \<and> s_chan h = s_chan g
    \<and> shows_frames i (ps # take (most - 1) pss) r es"
proof -
  obtain r d where rd: "serve_each X clock 0 (ps # take (most - 1) pss) (s_dir g) = (r, d)" by fastforce
  have "serve_chosen X C V clock stream host chosen (most, check) st =
      Some (rbind r (\<lambda>_. Inr (who, sid)), st(chosen (user who) := d))"
    by (rule serve_chosen_offers [OF assms(1-3)]) (use rd assms(4) in simp)
  moreover obtain es where "shared_run X g es (g\<lparr>s_dir := d\<rparr>)" "\<forall>e \<in> set es. channel_of e = i"
      "shows_frames i (ps # take (most - 1) pss) r es"
    using serve_each_run [OF rd assms(5)] by blast
  ultimately show ?thesis
    by (intro exI [of _ r] exI [of _ es] exI [of _ "g\<lparr>s_dir := d\<rparr>"]) (simp add: list_all_iff)
qed

theorem serving_is_a_shared_run_witness:
  "\<exists>r es h. serve_chosen std_ext scripts sample_server (\<lambda>_ _. 0) [[[INIT]], [[INIT]], [[INIT]]] () (\<lambda>u. u) (2, ''u'')
      (\<lambda>_. directory_new []) = Some (rbind r (\<lambda>_ :: unit.
        Inr (\<lparr>user = ''u'', auth_fingerprint = None, auth_signature = None, auth_signed = None\<rparr>, [5])),
        (\<lambda>_. directory_new [])(''u'' := s_dir h))
    \<and> shared_run std_ext (shared_start (directory_new [])) es h \<and> list_all (\<lambda>e. channel_of e = 7) es
    \<and> shows_frames 7 [[[INIT]], [[INIT]]] r es"
proof -
  let ?who = "\<lparr>user = ''u'', auth_fingerprint = None, auth_signature = None, auth_signed = None\<rparr>"
  have "accept_conn sample_server [[[INIT]], [[INIT]], [[INIT]]] = Inr [[[INIT]], [[INIT]], [[INIT]]]"
    "server_login sample_server () ''u'' [[[INIT]], [[INIT]], [[INIT]]] = Some (Inr (?who, [5]), [[[INIT]], [[INIT]], [[INIT]]])"
    by (simp_all add: sample_server_def server_login_def)
  from serving_is_a_shared_run [OF this offers_scripts, of "shared_start (directory_new [])" "\<lambda>_. directory_new []" "\<lambda>u. u" 7 std_ext "\<lambda>_ _. 0" 2]
  show ?thesis by (simp add: shared_start_def) blast
qed

end
