(* ===== verification/Connection.thy ===== *)
theory Connection
  imports Client Site "HOL-Library.Multiset"
begin

unbundle bit_operations_syntax

text \<open>
  The kept connection of \<open>connection.rs\<close>: where its client is, the harvest's thread and what
  it answers, the body of one arrival, and the two locks a harvest takes. The claim
  (\<open>transport::claim::Claiming\<close>) is another crate's: the record \<open>claims\<close>. What the arrivals
  ask comes to the harvest through one queue, so it is a list of requests; what the harvest
  sends, and where it gives the client back, is a log in the order it happens. A send that is
  never taken is an action that does not return (\<open>None\<close>).
\<close>

section \<open>The line\<close>

datatype 'c Line = Here 'c | Harvesting | Broken

definition connection_new :: "'c \<Rightarrow> 'c Line" where
  "connection_new client = Here client"

definition connection_with :: "('c, 'a) act \<Rightarrow> ('c Line, 'a) act" where
  "connection_with act l = (case l of
     Here client \<Rightarrow> map_option (\<lambda>(r, c). (r, Here c)) (act client)
   | Harvesting \<Rightarrow> Some (Inl (RetryableError
       ''the connection is lent to a receive whose files await their verdict''), Harvesting)
   | Broken \<Rightarrow> Some (Inl (ProtocolError ''the connection broke during a receive''), Broken))"

definition connection_usable :: "('socket \<Rightarrow> bool) \<Rightarrow> ('c \<Rightarrow> 'socket) \<Rightarrow> 'c Line \<Rightarrow> bool" where
  "connection_usable alive socket l = (case l of Here client \<Rightarrow> client_usable alive socket client | Harvesting \<Rightarrow> True | Broken \<Rightarrow> False)"

section \<open>The harvest's thread\<close>

record Taken =
  dropped :: string
  claimed :: string

record ('c, 'v) claims =
  claim_take :: "usize \<Rightarrow> ('c Sftp, Taken list) act"
  claim_told :: "string \<Rightarrow> 'v option \<Rightarrow> ('c Sftp, unit) act"

text \<open>
  How a body is read. Its chunks come through a channel that holds one message
  (\<open>sync_channel(1)\<close>): a send returns once the message fits, and fails once the body is let go. A
  body reads every message (\<open>Whole\<close>), is let go when so many have gone (\<open>LetGo\<close>), or takes so many
  and is then kept without being read on (\<open>HeldAt\<close>): one message more fits the channel, and the send
  after that never returns. The other channels a harvest sends on are sent one message, or one
  after the receive took the first, so those sends never wait.
\<close>

datatype reader = Whole | LetGo nat | HeldAt nat

text \<open>The send of a body's message number \<open>k\<close>, from 0: whether it goes; \<open>None\<close> where it never returns.\<close>

fun chunk_goes :: "reader \<Rightarrow> nat \<Rightarrow> bool option" where
  "chunk_goes Whole k = Some True"
| "chunk_goes (LetGo n) k = Some (k < n)"
| "chunk_goes (HeldAt n) k = (if k \<le> n then Some True else None)"

fun reads_on :: "reader \<Rightarrow> bool" where
  "reads_on (HeldAt _) = False"
| "reads_on _ = True"

text \<open>What an arrival asks.\<close>

datatype 'v Request = Read string reader | Told string "'v option" | Finish

datatype Ended = Empty | Answered bool

type_synonym chunk = "transport_error + bytes option"

text \<open>What the harvest does that others see.\<close>

datatype sent =
    Listed "transport_error + Taken list"
  | Chunk string chunk
  | Done string "transport_error + unit"
  | ClientBack
  | ClientGone
  | Finished

definition post :: "sent \<Rightarrow> ('s \<times> sent list, unit) act" where
  "post m = (\<lambda>(s, log). Some (Inr (), (s, log @ [m])))"

definition send_chunk :: "string \<Rightarrow> reader \<Rightarrow> nat \<Rightarrow> chunk \<Rightarrow> ('s \<times> sent list, unit) act" where
  "send_chunk name room k m = (case chunk_goes room k of
     None \<Rightarrow> (\<lambda>_. None)
   | Some goes \<Rightarrow> if goes then post (Chunk name m) else return_act ())"

text \<open>The loop of \<open>reading\<close>: how it ended, how many chunks were taken, the state.\<close>

partial_function (option) reading_loop ::
  "ext \<Rightarrow> 'c channel \<Rightarrow> string \<Rightarrow> reader \<Rightarrow> string \<Rightarrow> u64 \<Rightarrow> nat \<Rightarrow> 'c Sftp \<Rightarrow> sent list
     \<Rightarrow> (chunk option \<times> nat \<times> 'c Sftp \<times> sent list) option" where
  "reading_loop X K name room handle offset k t log =
     (case sftp_read_at X K handle offset t of
        None \<Rightarrow> None
      | Some (r, t) \<Rightarrow>
          (case r of
             Inl e \<Rightarrow> Some (Some (Inl e), k, t, log)
           | Inr None \<Rightarrow> Some (Some (Inr None), k, t, log)
           | Inr (Some c) \<Rightarrow>
               (case chunk_goes room k of
                  None \<Rightarrow> None
                | Some goes \<Rightarrow>
                    if goes
                    then reading_loop X K name room handle (offset + of_nat (length c)) (Suc k) t
                           (log @ [Chunk name (Inr (Some c))])
                    else Some (None, k, t, log))))"

definition reading :: "ext \<Rightarrow> 'c channel \<Rightarrow> string \<Rightarrow> reader \<Rightarrow> ('c Sftp \<times> sent list, unit) act" where
  "reading X K name room =
     catch_act (beside (sftp_open_for_reading X K name)) (\<lambda>r. case r of
       Inl e \<Rightarrow> send_chunk name room 0 (Inl e)
     | Inr handle \<Rightarrow> (\<lambda>(t, log).
         (case reading_loop X K name room handle 0 0 t log of
            None \<Rightarrow> None
          | Some (ended, k, t, log) \<Rightarrow>
              bind_act (beside (sftp_close X K handle)) (\<lambda>_.
                case ended of Some m \<Rightarrow> send_chunk name room k m | None \<Rightarrow> return_act ()) (t, log))))"

primrec answering :: "ext \<Rightarrow> 'c channel \<Rightarrow> ('c, 'v) claims \<Rightarrow> 'v Request list \<Rightarrow> ('c Sftp \<times> sent list, bool) act" where
  "answering X K CL [] = return_act False"
| "answering X K CL (q # qs) = (case q of
     Read name room \<Rightarrow> bind_act (reading X K name room) (\<lambda>_. answering X K CL qs)
   | Told name verdict \<Rightarrow>
       catch_act (beside (claim_told CL name verdict)) (\<lambda>r.
       bind_act (post (Done name r)) (\<lambda>_. answering X K CL qs))
   | Finish \<Rightarrow> return_act True)"

definition harvest_work ::
  "ext \<Rightarrow> 'c channel \<Rightarrow> ('c, 'v) claims \<Rightarrow> usize \<Rightarrow> 'v Request list \<Rightarrow> ('c Sftp \<times> sent list, Ended) act" where
  "harvest_work X K CL most requests =
     bind_act (beside (claim_take CL most)) (\<lambda>taken.
       if taken = [] then return_act Empty
       else
         bind_act (post (Listed (Inr taken))) (\<lambda>_.
         bind_act (answering X K CL requests) (\<lambda>finish. return_act (Answered finish))))"

definition harvesting ::
  "ext \<Rightarrow> 'c conns \<Rightarrow> ('c, 'v) claims \<Rightarrow> usize \<Rightarrow> 'v Request list \<Rightarrow> 'c \<Rightarrow> ('c Line \<times> sent list) option" where
  "harvesting X C CL most requests client =
     (case with_subsystem X C (harvest_work X (ch C) CL most requests) (client, []) of
        None \<Rightarrow> None
      | Some (Inr ended, (client, log)) \<Rightarrow>
          Some (Here client, log @ ClientBack # (case ended of
            Empty \<Rightarrow> [Listed (Inr [])]
          | Answered True \<Rightarrow> [Finished]
          | Answered False \<Rightarrow> []))
      | Some (Inl e, (client, log)) \<Rightarrow> Some (Broken, log @ [ClientGone, Listed (Inl e)]))"

section \<open>The arrivals' side\<close>

text \<open>One file's body: \<open>ask\<close> is what the harvest sends for a file, \<open>None\<close> where it has ended.\<close>

record Fetch =
  fetch_name :: string
  fetch_chunks :: "chunk list option"

definition fetch_new :: "string \<Rightarrow> Fetch" where
  "fetch_new name = \<lparr>fetch_name = name, fetch_chunks = None\<rparr>"

definition fetch_recv :: "chunk list \<Rightarrow> Fetch \<Rightarrow> chunk \<times> Fetch" where
  "fetch_recv ms f = (case ms of
     [] \<Rightarrow> (Inl (ProtocolError ''the receive's channel closed mid-read''), f\<lparr>fetch_chunks := Some []\<rparr>)
   | m # ms \<Rightarrow> (m, f\<lparr>fetch_chunks := Some ms\<rparr>))"

definition next_chunk :: "(string \<Rightarrow> chunk list option) \<Rightarrow> Fetch \<Rightarrow> chunk \<times> Fetch" where
  "next_chunk ask f = (case fetch_chunks f of
     Some ms \<Rightarrow> fetch_recv ms f
   | None \<Rightarrow> (case ask (fetch_name f) of
       None \<Rightarrow> (Inl (ProtocolError ''the receive's channel closed''), f)
     | Some ms \<Rightarrow> fetch_recv ms f))"

text \<open>The answer to a verdict: the harvest gone before it was asked, or while it was.\<close>

definition told_answer :: "(transport_error + unit) option option \<Rightarrow> transport_error + unit" where
  "told_answer sent = (case sent of
     None \<Rightarrow> Inl (ProtocolError ''the receive's channel closed before the verdict'')
   | Some None \<Rightarrow> Inl (ProtocolError ''the receive's channel closed during the verdict'')
   | Some (Some r) \<Rightarrow> r)"

text \<open>What a verdict asks, of the file at its place among those claimed.\<close>

definition telling_at :: "string list \<Rightarrow> nat \<Rightarrow> 'v \<Rightarrow> 'v Request" where
  "telling_at names at v = Told (names ! at) (Some v)"

text \<open>What \<open>finish\<close> asks; it then waits for \<open>Finished\<close>, or for the harvest to be gone.\<close>

definition finish :: "'v Request list" where
  "finish = [Finish]"

text \<open>What the last verdict asks: each file let go without one, then the end.\<close>

definition letting_go :: "string list \<Rightarrow> 'v option list \<Rightarrow> 'v Request list" where
  "letting_go names verdicts =
     map (\<lambda>(name, _). Told name None) (filter (\<lambda>(_, v). v = None) (zip names verdicts)) @ finish"

text \<open>
  An arrival: its origin, its body, the place of its file among those claimed, by which its
  acknowledgement tells, and the name it was dropped under once observed.
\<close>

record Arrived =
  arrived_origin :: string
  arrived_body :: Fetch
  arrived_at :: nat
  arrived_detected :: bool
  arrived_file_name :: "string option"

definition conn_arrival :: "string \<Rightarrow> string \<Rightarrow> nat \<Rightarrow> Arrived" where
  "conn_arrival origin name at = \<lparr>arrived_origin = origin, arrived_body = fetch_new name, arrived_at = at,
     arrived_detected = True, arrived_file_name = None\<rparr>"

definition harvest_arrivals :: "(string \<Rightarrow> string) \<Rightarrow> Taken list \<Rightarrow> Arrived list" where
  "harvest_arrivals origin taken =
     map (\<lambda>(at, t). (conn_arrival (origin (dropped t)) (claimed t) at)\<lparr>arrived_file_name := Some (dropped t)\<rparr>)
       (enumerate 0 taken)"

text \<open>What \<open>harvest\<close> returns once its thread listed, or ended before it did (\<open>None\<close>).\<close>

definition harvest_result ::
  "(string \<Rightarrow> string) \<Rightarrow> (transport_error + Taken list) option \<Rightarrow> transport_error + Arrived list" where
  "harvest_result origin listed = (case listed of
     None \<Rightarrow> Inl (ProtocolError ''the harvest ended before it listed'')
   | Some (Inl e) \<Rightarrow> Inl e
   | Some (Inr taken) \<Rightarrow> if taken = [] then Inr [] else Inr (harvest_arrivals origin taken))"

text \<open>
  The harvest as its receive sees it: what the thread lists, and the line when it has; a
  harvest with arrivals goes on, the client lent to it.
\<close>

definition harvest_listed ::
  "ext \<Rightarrow> 'c conns \<Rightarrow> ('c, 'v) claims \<Rightarrow> usize \<Rightarrow> 'c \<Rightarrow> ((transport_error + Taken list) \<times> 'c Line) option" where
  "harvest_listed X C CL most client =
     (case in_subsystem X C (beside (claim_take CL most)) (client, ()) of
        None \<Rightarrow> None
      | Some (Inl e, _) \<Rightarrow> Some (Inl e, Broken)
      | Some (Inr taken, (c, _)) \<Rightarrow>
          if taken = [] then
            (case ch_close C c of
               None \<Rightarrow> None
             | Some (Inl e, _) \<Rightarrow> Some (Inl e, Broken)
             | Some (Inr _, c) \<Rightarrow> Some (Inr [], Here c))
          else Some (Inr taken, Harvesting))"

definition harvest ::
  "ext \<Rightarrow> 'c conns \<Rightarrow> ('c, 'v) claims \<Rightarrow> (transport_error + unit) \<Rightarrow> (string \<Rightarrow> string) \<Rightarrow> usize
     \<Rightarrow> ('c Line, Arrived list) act" where
  "harvest X C CL spawned origin most l = (case l of
     Here client \<Rightarrow>
       (case spawned of
          Inl e \<Rightarrow> Some (Inl e, Harvesting)
        | Inr _ \<Rightarrow> map_option (\<lambda>(r, l). (harvest_result origin (Some r), l)) (harvest_listed X C CL most client))
   | other \<Rightarrow> connection_with (\<lambda>c. Some (Inr [], c)) other)"

section \<open>What a body is sent\<close>

text \<open>The chunks of a file read from its start, a request's worth each.\<close>

function chunks_from :: "usize \<Rightarrow> bytes \<Rightarrow> bytes list" where
  "chunks_from i b = (if i < length b
     then take CHUNK (drop i b) # chunks_from (min (length b) (i + CHUNK)) b else [])"
  by pat_completeness auto
termination
  by (relation "measure (\<lambda>(i, b). length b - i)") (auto simp: CHUNK_def)

declare chunks_from.simps [simp del]

lemma concat_chunks_from: "concat (chunks_from i b) = drop i b"
proof (induction i b rule: chunks_from.induct)
  case (1 i b)
  show ?case
  proof (cases "i < length b")
    case True
    have "take CHUNK (drop i b) @ drop (min (length b) (i + CHUNK)) b = drop i b"
      by (cases "i + CHUNK \<le> length b")
        (simp_all add: min_def add.commute [of i] flip: drop_drop)
    with 1 True show ?thesis by (subst chunks_from.simps) simp
  qed (subst chunks_from.simps, simp)
qed

lemma chunks_from_sizes: "c \<in> set (chunks_from i b) \<Longrightarrow> c \<noteq> [] \<and> length c \<le> CHUNK"
proof (induction i b rule: chunks_from.induct)
  case (1 i b)
  then show ?case
    by (subst (asm) (2) chunks_from.simps) (auto simp: CHUNK_def split: if_splits)
qed

text \<open>
  Of the chunks of a body, those that go to it when \<open>k\<close> went before; and that one of the next \<open>l\<close>
  messages is never taken.
\<close>

definition has_room :: "reader \<Rightarrow> nat \<Rightarrow> bool" where
  "has_room room k \<longleftrightarrow> chunk_goes room k = Some True"

definition takes :: "reader \<Rightarrow> nat \<Rightarrow> bytes list \<Rightarrow> bytes list" where
  "takes room k cs = (case room of Whole \<Rightarrow> cs | LetGo n \<Rightarrow> take (n - k) cs | HeldAt n \<Rightarrow> take (Suc n - k) cs)"

fun stalls :: "reader \<Rightarrow> nat \<Rightarrow> nat \<Rightarrow> bool" where
  "stalls (HeldAt n) k l \<longleftrightarrow> l \<noteq> 0 \<and> Suc n < k + l"
| "stalls _ k l \<longleftrightarrow> False"

lemma chunk_goes_stalls: "\<not> stalls room k (Suc l) \<Longrightarrow> chunk_goes room k = Some (has_room room k)"
  by (cases room) (simp_all add: has_room_def)

lemma stalls_Suc:
  "stalls room k (Suc l) \<longleftrightarrow> chunk_goes room k = None \<or> chunk_goes room k = Some True \<and> stalls room (Suc k) l"
  by (cases room) auto

lemma stalls_none [simp]: "\<not> stalls room k 0"
  by (cases room) simp_all

lemma stalls_less: "stalls room k l \<Longrightarrow> stalls room k (Suc l)"
  by (cases room) simp_all

definition sent_chunks :: "string \<Rightarrow> bytes list \<Rightarrow> sent list" where
  "sent_chunks name cs = map (\<lambda>c. Chunk name (Inr (Some c))) cs"

lemma takes_Nil [simp]: "takes room k [] = []"
  by (simp add: takes_def split: reader.splits)

lemma takes_Cons: "takes room k (c # cs) = (if has_room room k then c # takes room (Suc k) cs else [])"
  by (cases room) (auto simp: takes_def has_room_def take_Cons' Suc_diff_le)

context session
begin

lemma reading_loop_returns:
  assumes "ready X linked t s" "name_ok h" "opened (far_end_of s) h = Some (ReadHandle n)"
    "content (far_end_of s) n = Some b" "i \<le> length b"
  shows "if stalls room k (length (chunks_from i b)) then reading_loop X K name room h (of_nat i) k t log = None
    else \<exists>t' s'. reading_loop X K name room h (of_nat i) k t log =
      Some (if takes room k (chunks_from i b) = chunks_from i b then Some (Inr None) else None,
        k + length (takes room k (chunks_from i b)), t', log @ sent_chunks name (takes room k (chunks_from i b)))
    \<and> ready X linked t' s' \<and> far_end_of s' = far_end_of s"
  using assms(1,3-)
proof (induction i b arbitrary: k t s log rule: chunks_from.induct)
  case (1 i b)
  have "length b \<le> MAX_BODY X" using "1.prems"(1,3) by (auto simp: ready_def dir_bounded_def)
  then have "i < 2 ^ 64" using "1.prems"(4) max_body by (simp add: usize_max_def)
  then have off: "unat (of_nat i :: u64) = i" by simp
  obtain t1 s1 where r:
    "sftp_read_at X K h (of_nat i) t = Some (Inr (if i < length b then Some (take CHUNK (drop i b)) else None), t1)"
    "ready X linked t1 s1" "far_end_of s1 = far_end_of s"
    using read_reply [OF "1.prems"(1) assms(2) "1.prems"(2), of "of_nat i"]
    unfolding off "1.prems"(3) option.case by metis
  show ?case
  proof (cases "i < length b")
    case False
    then have "chunks_from i b = []" by (subst chunks_from.simps) simp
    with r False show ?thesis by (auto simp: reading_loop.simps sent_chunks_def intro!: exI [of _ t1] exI [of _ s1])
  next
    case True
    let ?c = "take CHUNK (drop i b)" and ?j = "min (length b) (i + CHUNK)"
    have cs: "chunks_from i b = ?c # chunks_from ?j b" using True by (subst chunks_from.simps) simp
    have "i + length ?c = ?j" using True by auto
    then have j: "of_nat i + of_nat (length ?c) = (of_nat ?j :: u64)" by (metis of_nat_add)
    have next': "reading_loop X K name room h (of_nat i) k t log = (case chunk_goes room k of None \<Rightarrow> None
        | Some goes \<Rightarrow> if goes then reading_loop X K name room h (of_nat ?j) (Suc k) t1 (log @ [Chunk name (Inr (Some ?c))])
            else Some (None, k, t1, log))"
      unfolding j [symmetric] using r(1) True by (subst reading_loop.simps) (simp del: length_take)
    consider (stalled) "chunk_goes room k = None" | (gone) "chunk_goes room k = Some False" | (room) "chunk_goes room k = Some True" by (cases "chunk_goes room k") auto
    then show ?thesis
    proof cases
      case stalled
      then show ?thesis by (simp add: cs next' stalls_Suc)
    next
      case gone
      then have "\<not> stalls room k (length (chunks_from i b))" by (cases room) (simp_all split: if_splits)
      with gone r show ?thesis
        by (auto simp: next' cs takes_Cons has_room_def sent_chunks_def intro!: exI [of _ t1] exI [of _ s1])
    next
      case room
      have "opened (far_end_of s1) h = Some (ReadHandle n)" "content (far_end_of s1) n = Some b"
        using "1.prems"(2,3) by (simp_all only: r(3))
      note IH = "1.IH" [OF True r(2) this, of "Suc k" "log @ [Chunk name (Inr (Some ?c))]"]
      show ?thesis
      proof (cases "stalls room k (length (chunks_from i b))")
        case True
        with IH room show ?thesis by (simp add: cs next' stalls_Suc)
      next
        case False
        then have "\<not> stalls room (Suc k) (length (chunks_from ?j b))" using room by (simp add: cs stalls_Suc)
        with IH obtain t' s' where l: "reading_loop X K name room h (of_nat ?j) (Suc k) t1 (log @ [Chunk name (Inr (Some ?c))]) =
          Some (if takes room (Suc k) (chunks_from ?j b) = chunks_from ?j b then Some (Inr None) else None,
            Suc k + length (takes room (Suc k) (chunks_from ?j b)), t',
            (log @ [Chunk name (Inr (Some ?c))]) @ sent_chunks name (takes room (Suc k) (chunks_from ?j b)))"
          "ready X linked t' s'" "far_end_of s' = far_end_of s1"
          by auto
        with r room False show ?thesis
          by (auto simp: next' cs takes_Cons has_room_def sent_chunks_def intro!: exI [of _ t'] exI [of _ s'])
      qed
    qed
  qed
qed

text \<open>A file that is there opens for reading, under the next handle.\<close>

lemma reading_opens:
  assumes "ready X linked t s" "name_ok n" "content (far_end_of s) n = Some b"
  obtains t1 s1 where "sftp_open X K n F_READ t = Some (Inr (''h'' @ decimal (unat (issued (far_end_of s)))), t1)" "ready X linked t1 s1"
    "far_end_of s1 = (far_end_of s)\<lparr>issued := issued (far_end_of s) + 1,
       opened := (opened (far_end_of s))(''h'' @ decimal (unat (issued (far_end_of s))) \<mapsto> ReadHandle n)\<rparr>"
proof -
  obtain now r t1 s1 where o:
    "far_step (MAX_BODY X) now (Open (next_id t) n F_READ) (far_end_of s) = (r, far_end_of s1)"
    "ready X linked t1 s1" "next_id t1 = next_id t + 1"
    "\<And>rid h. r = HandleReply rid h \<Longrightarrow> sftp_open X K n F_READ t = Some (Inr h, t1)"
    "\<And>rid c. r = StatusReply rid c \<Longrightarrow> \<exists>e. sftp_open X K n F_READ t = Some (Inl e, t1)"
    using open_reply [OF assms(1,2), of F_READ] by metis
  have flag: "F_READ AND F_WRITE = 0" by (simp add: open_flags)
  with o assms(3) show ?thesis by (intro that [of t1 s1]) (auto simp: Let_def)
qed

text \<open>
  A body is sent the whole file in order and then its end, or the first chunks up to the one
  that did not go; the handle is closed and no file changed either way.
\<close>

lemma reading_sends:
  assumes "ready X linked t s" "name_ok n" "content (far_end_of s) n = Some b" "\<not> stalls room 0 (Suc (length (chunks_from 0 b)))"
  obtains t' s' where "reading X K n room (t, log) = Some (Inr (), (t',
      log @ sent_chunks n (takes room 0 (chunks_from 0 b))
        @ (if has_room room (length (chunks_from 0 b)) then [Chunk n (Inr None)] else [])))"
    "ready X linked t' s'" "content (far_end_of s') = content (far_end_of s)"
    "mtime (far_end_of s') = mtime (far_end_of s)"
    "opened (far_end_of s') = (opened (far_end_of s))(''h'' @ decimal (unat (issued (far_end_of s))) := None)"
proof -
  let ?f = "far_end_of s" and ?h = "''h'' @ decimal (unat (issued (far_end_of s)))"
  let ?cs = "chunks_from 0 b" and ?ts = "takes room 0 (chunks_from 0 b)"
  obtain t1 s1 where o: "sftp_open X K n F_READ t = Some (Inr ?h, t1)" "ready X linked t1 s1"
    and f1: "far_end_of s1 = ?f\<lparr>issued := issued ?f + 1, opened := (opened ?f)(?h \<mapsto> ReadHandle n)\<rparr>"
    using assms(1-3) by (rule reading_opens)
  have h: "name_ok ?h" by (rule handle_name_ok)
  have "opened (far_end_of s1) ?h = Some (ReadHandle n)" "content (far_end_of s1) n = Some b"
    using assms(3) by (simp_all add: f1 del: far_end_of_simps)
  moreover have ns: "\<not> stalls room 0 (length ?cs)" using assms(4) stalls_less by blast
  ultimately obtain t2 s2 where l: "reading_loop X K n room ?h 0 0 t1 log =
      Some (if ?ts = ?cs then Some (Inr None) else None, length ?ts, t2, log @ sent_chunks n ?ts)"
      "ready X linked t2 s2" "far_end_of s2 = far_end_of s1"
    using reading_loop_returns [OF o(2) h, of n b 0 room 0 n log] unfolding if_not_P [OF ns] by auto
  obtain t' s' where c: "sftp_close X K ?h t2 = Some (Inr (), t')" "ready X linked t' s'"
      "far_end_of s' = (far_end_of s2)\<lparr>opened := (opened (far_end_of s2))(?h := None),
       announced := announced (far_end_of s2) @ (case opened (far_end_of s2) ?h of
          Some (WriteHandle n) \<Rightarrow> if announces (far_end_of s2) then [n] else [] | _ \<Rightarrow> [])\<rparr>"
    using close_reply [OF l(2) h] by metis
  have ends: "?ts = ?cs \<and> has_room room (length ?ts) \<longleftrightarrow> has_room room (length ?cs)"
    using assms(4) by (cases room) (auto simp: takes_def has_room_def)
  have sent: "?ts = ?cs \<Longrightarrow> chunk_goes room (length ?ts) = Some (has_room room (length ?ts))"
    using assms(4) by (cases room) (simp_all add: has_room_def)
  have "reading X K n room (t, log) = Some (Inr (), (t', log @ sent_chunks n ?ts
      @ (if has_room room (length ?cs) then [Chunk n (Inr None)] else [])))"
    using o(1) l(1) c(1) ends sent
    by (auto simp: reading_def sftp_open_for_reading_def send_chunk_def post_def)
  then show ?thesis using c(2)
    by (rule that) (simp_all add: c(3) l(3) f1 del: far_end_of_simps)
qed

text \<open>
  A body that is kept and not read to its end holds the reading for ever: with a message still to
  come that does not fit, the send never returns.
\<close>

lemma reading_stalls:
  assumes "ready X linked t s" "name_ok n" "content (far_end_of s) n = Some b" "stalls room 0 (Suc (length (chunks_from 0 b)))"
  shows "reading X K n room (t, log) = None"
proof -
  let ?f = "far_end_of s" and ?h = "''h'' @ decimal (unat (issued (far_end_of s)))" and ?cs = "chunks_from 0 b"
  obtain t1 s1 where o: "sftp_open X K n F_READ t = Some (Inr ?h, t1)" "ready X linked t1 s1"
    and f1: "far_end_of s1 = ?f\<lparr>issued := issued ?f + 1, opened := (opened ?f)(?h \<mapsto> ReadHandle n)\<rparr>"
    using assms(1-3) by (rule reading_opens)
  have h: "name_ok ?h" by (rule handle_name_ok)
  have at: "opened (far_end_of s1) ?h = Some (ReadHandle n)" "content (far_end_of s1) n = Some b"
    using assms(3) by (simp_all add: f1 del: far_end_of_simps)
  note loop = reading_loop_returns [OF o(2) h at, of 0 room 0 n log]
  show ?thesis
  proof (cases "stalls room 0 (length ?cs)")
    case True
    then have "reading_loop X K n room ?h 0 0 t1 log = None" using loop by simp
    with o(1) show ?thesis by (simp add: reading_def sftp_open_for_reading_def)
  next
    case False
    obtain m where m: "room = HeldAt m" using assms(4) by (cases room) simp_all
    then have last: "takes room 0 ?cs = ?cs" "chunk_goes room (length ?cs) = None"
      using False assms(4) by (auto simp: takes_def)
    obtain t2 s2 where l: "reading_loop X K n room ?h 0 0 t1 log = Some (Some (Inr None), length ?cs, t2, log @ sent_chunks n ?cs)"
        "ready X linked t2 s2"
      using loop unfolding if_not_P [OF False] by (auto simp: last)
    obtain t' where "sftp_close X K ?h t2 = Some (Inr (), t')" using close_reply [OF l(2) h] by metis
    with o(1) l(1) last(2) show ?thesis by (simp add: reading_def sftp_open_for_reading_def send_chunk_def)
  qed
qed

end

text \<open>What a body reads of them: the calls of \<open>next_chunk\<close>, one after another.\<close>

primrec pull :: "(string \<Rightarrow> chunk list option) \<Rightarrow> nat \<Rightarrow> Fetch \<Rightarrow> chunk list" where
  "pull ask 0 f = []"
| "pull ask (Suc n) f = (case next_chunk ask f of (m, f) \<Rightarrow> m # pull ask n f)"

lemma pull_asked: "fetch_chunks f = Some ms \<Longrightarrow> pull ask (length ms) f = ms"
  by (induction ms arbitrary: f) (auto simp: next_chunk_def fetch_recv_def)

lemma pull_new: "ask name = Some ms \<Longrightarrow> pull ask (length ms) (fetch_new name) = ms"
proof (cases ms)
  case (Cons m ms')
  moreover assume "ask name = Some ms"
  ultimately show ?thesis
    using pull_asked [of "\<lparr>fetch_name = name, fetch_chunks = Some ms'\<rparr>" ms' ask]
    by (simp add: next_chunk_def fetch_new_def fetch_recv_def)
qed simp

section \<open>The log only grows\<close>

text \<open>
  While the arrivals are answered, nothing but chunks, answers and the listing of files there are
  is sent.
\<close>

fun to_arrivals :: "sent \<Rightarrow> bool" where
  "to_arrivals ClientBack = False"
| "to_arrivals ClientGone = False"
| "to_arrivals Finished = False"
| "to_arrivals (Listed r) \<longleftrightarrow> (case r of Inr taken \<Rightarrow> taken \<noteq> [] | Inl _ \<Rightarrow> False)"
| "to_arrivals (Chunk _ _) = True"
| "to_arrivals (Done _ _) = True"

definition log_grows :: "'s \<times> sent list \<Rightarrow> 's \<times> sent list \<Rightarrow> bool" where
  "log_grows p q \<longleftrightarrow> (\<exists>ms. snd q = snd p @ ms \<and> (\<forall>m \<in> set ms. to_arrivals m))"

interpretation log: step_relation log_grows
proof unfold_locales
  fix p q r :: "'s \<times> sent list"
  assume "log_grows p q" "log_grows q r"
  then obtain xs ys where "snd q = snd p @ xs" "\<forall>m \<in> set xs. to_arrivals m"
    "snd r = snd q @ ys" "\<forall>m \<in> set ys. to_arrivals m"
    by (auto simp: log_grows_def)
  then show "log_grows p r" unfolding log_grows_def by (intro exI [of _ "xs @ ys"]) auto
qed (simp add: log_grows_def)

lemma log_beside: "steps log_grows (beside m)"
  by (auto simp: steps_def beside_def log_grows_def)

lemma log_post: "to_arrivals m \<Longrightarrow> steps log_grows (post m)"
  by (auto simp: steps_def post_def log_grows_def)

lemma log_send_chunk: "steps log_grows (send_chunk name room k m)"
  by (auto simp: send_chunk_def log_post log.steps_return split: option.splits) (simp add: steps_def)

lemma log_reading_loop:
  assumes "reading_loop X K name room h off k t log = Some (ended, k', t', log')"
  shows "\<exists>ms. log' = log @ ms \<and> (\<forall>m \<in> set ms. to_arrivals m)"
proof -
  have "\<exists>ms. snd (snd (snd (ended, k', t', log'))) = log @ ms \<and> (\<forall>m \<in> set ms. to_arrivals m)"
  proof (rule reading_loop.raw_induct [where P = "\<lambda>X K name room h off k t log y.
      \<exists>ms. snd (snd (snd y)) = log @ ms \<and> (\<forall>m \<in> set ms. to_arrivals m)", OF _ assms])
    fix loop :: "ext \<Rightarrow> 'a channel \<Rightarrow> string \<Rightarrow> reader \<Rightarrow> string \<Rightarrow> u64 \<Rightarrow> nat \<Rightarrow> 'a Sftp \<Rightarrow> sent list
        \<Rightarrow> (chunk option \<times> nat \<times> 'a Sftp \<times> sent list) option"
      and X :: ext and K :: "'a channel" and name room h off k t log y
    assume IH: "\<And>X K name room h off k t log y. loop X K name room h off k t log = Some y \<Longrightarrow>
        \<exists>ms. snd (snd (snd y)) = log @ ms \<and> (\<forall>m \<in> set ms. to_arrivals m)"
      and run: "(case sftp_read_at X K h off t of None \<Rightarrow> None
        | Some (r, t) \<Rightarrow> (case r of
            Inl e \<Rightarrow> Some (Some (Inl e), k, t, log)
          | Inr None \<Rightarrow> Some (Some (Inr None), k, t, log)
          | Inr (Some c) \<Rightarrow> (case chunk_goes room k of None \<Rightarrow> None | Some goes \<Rightarrow> if goes
              then loop X K name room h (off + of_nat (length c)) (Suc k) t (log @ [Chunk name (Inr (Some c))])
              else Some (None, k, t, log)))) = Some y"
    have more: "\<exists>ms. snd (snd (snd y)) = log @ ms \<and> (\<forall>m \<in> set ms. to_arrivals m)"
      if "loop X K name room h o' (Suc k) t' (log @ [Chunk name (Inr (Some c))]) = Some y" for o' t' c
    proof -
      note step = that
      obtain ms where "snd (snd (snd y)) = (log @ [Chunk name (Inr (Some c))]) @ ms" "\<forall>m \<in> set ms. to_arrivals m"
        using IH [OF step] by blast
      then show ?thesis by (intro exI [of _ "Chunk name (Inr (Some c)) # ms"]) simp
    qed
    show "\<exists>ms. snd (snd (snd y)) = log @ ms \<and> (\<forall>m \<in> set ms. to_arrivals m)"
      using run by (auto split: option.splits prod.splits sum.splits if_splits intro: more)
  qed
  then show ?thesis by simp
qed

lemma log_reading: "steps log_grows (reading X K name room)"
  unfolding reading_def
proof (rule log.steps_catch [OF log_beside])
  fix r
  have "steps log_grows (\<lambda>(t, log). case reading_loop X K name room handle 0 0 t log of
      None \<Rightarrow> None
    | Some (ended, k, t, log) \<Rightarrow> bind_act (beside (sftp_close X K handle)) (\<lambda>_.
        case ended of Some m \<Rightarrow> send_chunk name room k m | None \<Rightarrow> return_act ()) (t, log))" for handle
  proof (rule stepsI)
    fix p v q
    assume run: "(case p of (t, log) \<Rightarrow> case reading_loop X K name room handle 0 0 t log of
        None \<Rightarrow> None
      | Some (ended, k, t, log) \<Rightarrow> bind_act (beside (sftp_close X K handle)) (\<lambda>_.
          case ended of Some m \<Rightarrow> send_chunk name room k m | None \<Rightarrow> return_act ()) (t, log)) = Some (v, q)"
    obtain t log where p: "p = (t, log)" by (cases p)
    with run obtain ended k t1 log1 where loop: "reading_loop X K name room handle 0 0 t log = Some (ended, k, t1, log1)"
      and rest: "bind_act (beside (sftp_close X K handle)) (\<lambda>_.
          case ended of Some m \<Rightarrow> send_chunk name room k m | None \<Rightarrow> return_act ()) (t1, log1) = Some (v, q)"
      by (auto split: option.splits)
    have "log_grows p (t1, log1)" using log_reading_loop [OF loop] by (simp add: log_grows_def p)
    moreover have "steps log_grows (bind_act (beside (sftp_close X K handle)) (\<lambda>_.
          case ended of Some m \<Rightarrow> send_chunk name room k m | None \<Rightarrow> return_act ()))"
      by (intro log.steps_bind log_beside) (auto intro: log_send_chunk log.steps_return split: option.splits)
    then have "log_grows (t1, log1) q" using rest by (rule stepsD)
    ultimately show "log_grows p q" by (rule log.join)
  qed
  then show "steps log_grows (case r of Inl e \<Rightarrow> send_chunk name room 0 (Inl e)
     | Inr handle \<Rightarrow> (\<lambda>(t, log). case reading_loop X K name room handle 0 0 t log of
        None \<Rightarrow> None
      | Some (ended, k, t, log) \<Rightarrow> bind_act (beside (sftp_close X K handle)) (\<lambda>_.
          case ended of Some m \<Rightarrow> send_chunk name room k m | None \<Rightarrow> return_act ()) (t, log)))"
    by (cases r) (simp_all add: log_send_chunk)
qed

lemma log_answering: "steps log_grows (answering X K CL qs)"
proof (induction qs)
  case (Cons q qs)
  then show ?case
    by (cases q) (auto intro!: log.steps_bind log.steps_catch log_reading log_beside log_post log.steps_return
        simp del: act_run)
qed (simp add: log.steps_return del: act_run)

lemma log_work: "steps log_grows (harvest_work X K CL most qs)"
  unfolding harvest_work_def
  by (auto intro!: log.steps_bind log_beside log.steps_return log_post log_answering)

lemma log_with_subsystem:
  assumes "steps log_grows work"
  shows "steps log_grows (with_subsystem X C work)"
proof -
  have "steps log_grows (bind_act (beside (sftp_start X (ch C))) (\<lambda>_. work))"
    by (intro log.steps_bind log_beside assms)
  then have "steps log_grows (on_sftp X (ch C) work)"
    by (fastforce simp: steps_def on_sftp_def log_grows_def)
  then show ?thesis unfolding with_subsystem_run
    by (intro log.steps_bind log_beside log.steps_return)
qed

text \<open>The harvest's log: what the arrivals were sent, then where the client went, then who is told.\<close>

lemma harvesting_log:
  assumes "harvesting X C CL most qs client = Some (l, log)"
  obtains ms where "\<forall>m \<in> set ms. to_arrivals m"
    "(\<exists>c. l = Here c \<and> log \<in> {ms @ [ClientBack, Listed (Inr [])], ms @ [ClientBack, Finished], ms @ [ClientBack]})
     \<or> (\<exists>e. l = Broken \<and> log = ms @ [ClientGone, Listed (Inl e)])"
proof -
  obtain v c ms where w: "with_subsystem X C (harvest_work X (ch C) CL most qs) (client, []) = Some (v, (c, ms))"
    using assms by (auto simp: harvesting_def split: option.splits)
  have "log_grows (client, []) (c, ms)"
    using log_with_subsystem [OF log_work] w by (rule stepsD)
  then have "\<forall>m \<in> set ms. to_arrivals m" by (auto simp: log_grows_def)
  then show ?thesis using assms w
    by (intro that [of ms]) (auto simp: harvesting_def split: sum.splits Ended.splits bool.splits)
qed

text \<open>
  The receive hears exactly the first listing the thread sends, at the line the thread leaves
  then.
\<close>

fun first_listed :: "sent list \<Rightarrow> (transport_error + Taken list) option" where
  "first_listed [] = None"
| "first_listed (Listed r # ms) = Some r"
| "first_listed (_ # ms) = first_listed ms"

definition line_heard :: "transport_error + Taken list \<Rightarrow> 'c Line \<Rightarrow> 'c Line" where
  "line_heard r l = (case r of Inr taken \<Rightarrow> if taken = [] then l else Harvesting | Inl _ \<Rightarrow> l)"

lemma harvesting_taken:
  assumes "harvesting X C CL most qs client = Some (l, log)" "ch_open C SUBSYSTEM client = Some (Inr (), c)"
    "sftp_start X (ch C) (sftp_new c) = Some (Inr (), t)" "claim_take CL most t = Some (Inr taken, t')" "taken \<noteq> []"
  shows "first_listed log = Some (Inr taken)"
proof -
  obtain v c2 ms where w: "with_subsystem X C (harvest_work X (ch C) CL most qs) (client, []) = Some (v, (c2, ms))"
    and log: "\<exists>rest. log = ms @ rest"
    using assms(1) by (auto simp: harvesting_def split: option.splits sum.splits)
  obtain v1 c3 where "on_sftp X (ch C) (harvest_work X (ch C) CL most qs) (c, []) = Some (v1, (c3, ms))"
    using w assms(2) by (auto simp: with_subsystem_run bind_act_def beside_def
        split: option.splits sum.splits prod.splits)
  then obtain t3 where "harvest_work X (ch C) CL most qs (t, []) = Some (v1, (t3, ms))"
    using assms(3) by (auto simp: on_sftp_def)
  then have "bind_act (answering X (ch C) CL qs) (\<lambda>f. return_act (Answered f)) (t', [Listed (Inr taken)]) =
      Some (v1, (t3, ms))"
    using assms(4,5) by (simp add: harvest_work_def post_def)
  then have "log_grows (t', [Listed (Inr taken)]) (t3, ms)"
    by (rule stepsD [rotated]) (intro log.steps_bind log_answering log.steps_return)
  then show ?thesis using log by (auto simp: log_grows_def)
qed

lemma harvesting_stages:
  assumes run: "harvesting X C CL most qs client = Some (l, log)"
  obtains (refused) e where "harvest_listed X C CL most client = Some (Inl e, Broken)" "l = Broken"
      "first_listed log = Some (Inl e)"
  | (started) c t where "ch_open C SUBSYSTEM client = Some (Inr (), c)"
      "sftp_start X (ch C) (sftp_new c) = Some (Inr (), t)"
proof -
  obtain v c where p: "ch_open C SUBSYSTEM client = Some (v, c)"
    using run by (cases "ch_open C SUBSYSTEM client")
      (auto simp: harvesting_def with_subsystem_run bind_act_def beside_def)
  show ?thesis
  proof (cases v)
    case (Inl e)
    with run p refused show ?thesis
      by (auto simp: harvesting_def with_subsystem_run in_subsystem_def harvest_listed_def bind_act_def beside_def)
  next
    case v: (Inr u)
    obtain w t where q: "sftp_start X (ch C) (sftp_new c) = Some (w, t)"
      using run p v by (cases "sftp_start X (ch C) (sftp_new c)")
        (auto simp: harvesting_def with_subsystem_run on_sftp_def bind_act_def beside_def)
    show ?thesis
    proof (cases w)
      case (Inl e)
      with run p v q refused show ?thesis
        by (auto simp: harvesting_def with_subsystem_run in_subsystem_def harvest_listed_def on_sftp_def bind_act_def beside_def)
    qed (use p v q started in simp)
  qed
qed

lemma harvesting_listed:
  assumes run: "harvesting X C CL most qs client = Some (l, log)"
  obtains r where "harvest_listed X C CL most client = Some (r, line_heard r l)" "first_listed log = Some r"
  using run
proof (cases rule: harvesting_stages)
  case (refused e)
  then show ?thesis by (intro that [of "Inl e"]) (simp_all add: line_heard_def)
next
  case (started c t)
  obtain x t' where k: "claim_take CL most t = Some (x, t')"
    using run started by (cases "claim_take CL most t")
      (auto simp: harvesting_def with_subsystem_run on_sftp_def harvest_work_def bind_act_def beside_def)
  consider (error) e where "x = Inl e" | (none) "x = Inr []" | (some) taken where "x = Inr taken" "taken \<noteq> []"
    by (cases x) auto
  then show ?thesis
  proof cases
    case error
    with run started k that show ?thesis
      by (auto simp: harvesting_def with_subsystem_run in_subsystem_def harvest_listed_def on_sftp_def harvest_work_def line_heard_def)
  next
    case none
    obtain y c' where "ch_close C (chan t') = Some (y, c')"
      using run started k none by (cases "ch_close C (chan t')")
        (auto simp: harvesting_def with_subsystem_run on_sftp_def harvest_work_def bind_act_def beside_def)
    with run started k none that show ?thesis
      by (cases y) (auto simp: harvesting_def with_subsystem_run in_subsystem_def harvest_listed_def on_sftp_def harvest_work_def line_heard_def)
  next
    case (some taken)
    then show ?thesis
      using harvesting_taken [OF run started k [unfolded some(1)] some(2)] started k
      by (intro that [of "Inr taken"]) (auto simp: harvest_listed_def in_subsystem_def on_sftp_def line_heard_def)
  qed
qed

section \<open>A harvest read to its end\<close>

text \<open>
  A harvest over a connection: its channel opens onto the directory; where the claim then takes
  files and the arrivals are answered to the end, the channel is closed, the client back, and
  the end told.
\<close>

context one_channel
begin

lemma harvest_opened:
  fixes CL :: "('c, 'v) claims"
  assumes "idle c d" "dir_wf d" "dir_bounded X d"
  obtains t s where "ready X linked t s" "far_end_of s = far_end_of \<lparr>dir = d, handles = [], next_handle = 0\<rparr>"
    "\<And>taken t1 s1 qs log t' s'. claim_take CL most t = Some (Inr taken, t1) \<Longrightarrow> ready X linked t1 s1 \<Longrightarrow>
       answering X (ch C) CL qs (t1, [Listed (Inr taken)]) = Some (Inr True, (t', Listed (Inr taken) # log)) \<Longrightarrow> ready X linked t' s' \<Longrightarrow>
       \<exists>c'. harvesting X C CL most qs c = Some (Here c', if taken = [] then [ClientBack, Listed (Inr [])]
              else Listed (Inr taken) # log @ [ClientBack, Finished]) \<and> left c' (dir (if taken = [] then s1 else s'))"
proof -
  obtain t s where o: "ready X linked t s" "far_end_of s = far_end_of \<lparr>dir = d, handles = [], next_handle = 0\<rparr>"
    "\<And>(work :: ('c Sftp \<times> sent list, Ended) act) p x t' s' p'. work (t, p) = Some (Inr x, (t', p')) \<Longrightarrow>
      ready X linked t' s' \<Longrightarrow> \<exists>c'. with_subsystem X C work (c, p) = Some (Inr x, (c', p')) \<and> left c' (dir s')"
    using assms by (rule subsystem_opened) blast
  have "\<exists>c'. harvesting X C CL most qs c = Some (Here c', if taken = [] then [ClientBack, Listed (Inr [])]
          else Listed (Inr taken) # log @ [ClientBack, Finished]) \<and> left c' (dir (if taken = [] then s1 else s'))"
    if k: "claim_take CL most t = Some (Inr taken, t1)" "ready X linked t1 s1"
      and a: "answering X (ch C) CL qs (t1, [Listed (Inr taken)]) = Some (Inr True, (t', Listed (Inr taken) # log))" "ready X linked t' s'"
    for taken t1 s1 qs log t' s'
  proof (cases "taken = []")
    case True
    then have "harvest_work X (ch C) CL most qs (t, []) = Some (Inr Empty, (t1, []))" using k(1) by (simp add: harvest_work_def)
    with o(3) k(2) obtain c' where "with_subsystem X C (harvest_work X (ch C) CL most qs) (c, []) = Some (Inr Empty, (c', []))"
      "left c' (dir s1)" by blast
    with True show ?thesis by (auto simp: harvesting_def)
  next
    case False
    then have "harvest_work X (ch C) CL most qs (t, []) = Some (Inr (Answered True), (t', Listed (Inr taken) # log))"
      using k(1) a(1) by (simp add: harvest_work_def post_def)
    with o(3) a(2) obtain c' where "with_subsystem X C (harvest_work X (ch C) CL most qs) (c, []) =
        Some (Inr (Answered True), (c', Listed (Inr taken) # log))" "left c' (dir s')" by blast
    with False show ?thesis by (auto simp: harvesting_def)
  qed
  with o(1,2) show ?thesis by (rule that)
qed

text \<open>What the receive hears of it, once the claim took what it takes.\<close>

lemma harvest_listed_opened:
  fixes CL :: "('c, 'v) claims"
  assumes "idle c d" "dir_wf d" "dir_bounded X d"
  obtains t s where "ready X linked t s" "far_end_of s = far_end_of \<lparr>dir = d, handles = [], next_handle = 0\<rparr>"
    "\<And>taken t1 s1. claim_take CL most t = Some (Inr taken, t1) \<Longrightarrow> ready X linked t1 s1 \<Longrightarrow>
       \<exists>l. harvest_listed X C CL most c = Some (Inr taken, l)
         \<and> (if taken = [] then \<exists>c'. l = Here c' \<and> left c' (dir s1) else l = Harvesting)"
proof -
  let ?s = "\<lparr>dir = d, handles = [], next_handle = 0\<rparr>"
  obtain c1 where c1: "ch_open C SUBSYSTEM c = Some (Inr (), c1)" "linked c1 ?s []"
    using open_link [OF assms(1)] by blast
  have "serving_wf ?s" using assms(2) by (simp add: serving_wf_def bt_wf_def)
  then obtain t s where t: "sftp_start X (ch C) (sftp_new c1) = Some (Inr (), t)" "ready X linked t s" "far_end_of s = far_end_of ?s"
    using start_ok [OF c1(2)] assms(3) by auto
  have "\<exists>l. harvest_listed X C CL most c = Some (Inr taken, l)
      \<and> (if taken = [] then \<exists>c'. l = Here c' \<and> left c' (dir s1) else l = Harvesting)"
    if k: "claim_take CL most t = Some (Inr taken, t1)" "ready X linked t1 s1" for taken t1 s1
  proof -
    obtain c' where c': "ch_close C (chan t1) = Some (Inr (), c')" "left c' (dir s1)"
      using close_link k(2) by (auto simp: ready_def)
    have "in_subsystem X C (beside (claim_take CL most)) (c, ()) = Some (Inr taken, (chan t1, ()))"
      using c1(1) t(1) k(1) by (simp add: in_subsystem_def on_sftp_def)
    with c' show ?thesis by (auto simp: harvest_listed_def)
  qed
  with t(2,3) show ?thesis by (rule that)
qed

end

section \<open>What a receive returns\<close>

lemma harvest_Inr:
  assumes "harvest X C CL spawned origin most l = Some (Inr arrived, l')"
  obtains c taken where "l = Here c" "harvest_listed X C CL most c = Some (Inr taken, l')" "arrived = harvest_arrivals origin taken"
proof -
  obtain c where l: "l = Here c" using assms by (cases l) (auto simp: harvest_def connection_with_def)
  then obtain r where r: "harvest_listed X C CL most c = Some (r, l')" "harvest_result origin (Some r) = Inr arrived"
    using assms by (cases spawned) (auto simp: harvest_def)
  then obtain taken where "r = Inr taken" by (cases r) (auto simp: harvest_result_def)
  with l r show ?thesis by (intro that [of c taken]) (auto simp: harvest_result_def harvest_arrivals_def split: if_splits)
qed

lemma harvest_arrivals_fields:
  "map arrived_origin (harvest_arrivals origin taken) = map (origin \<circ> dropped) taken"
  "map arrived_body (harvest_arrivals origin taken) = map (fetch_new \<circ> claimed) taken"
  "map arrived_at (harvest_arrivals origin taken) = [0..<length taken]"
  "map arrived_file_name (harvest_arrivals origin taken) = map (Some \<circ> dropped) taken"
  by (auto intro!: nth_equalityI simp: harvest_arrivals_def conn_arrival_def nth_enumerate_eq)

section \<open>The verdicts\<close>

text \<open>
  The events of a receive's arrivals, in the order they happen: the file at a place is given a
  verdict, or let go without one. \<open>transport::together\<close> calls its first function at each
  verdict, and its second once, when every arrival has had its event, with the verdicts by
  place. What the harvest is asked, then:
\<close>

definition asked :: "string list \<Rightarrow> (nat \<times> 'v option) list \<Rightarrow> 'v Request list" where
  "asked names events =
     concat (map (\<lambda>(at, ov). case ov of Some v \<Rightarrow> [telling_at names at v] | None \<Rightarrow> []) events)
       @ letting_go names (map (\<lambda>at. case map_of events at of Some ov \<Rightarrow> ov | None \<Rightarrow> None) [0..<length names])"

text \<open>The verdicts among the requests.\<close>

definition tellings :: "'v Request list \<Rightarrow> (string \<times> 'v option) list" where
  "tellings qs = concat (map (\<lambda>q. case q of Told n v \<Rightarrow> [(n, v)] | _ \<Rightarrow> []) qs)"

lemma tellings_simps [simp]:
  "tellings [] = []" "tellings (Told n v # qs) = (n, v) # tellings qs" "tellings (qs @ qs') = tellings qs @ tellings qs'"
  by (simp_all add: tellings_def)

lemma tellings_told: "tellings (map (\<lambda>(n, v). Told n v) nvs) = nvs"
  by (induction nvs) auto

definition verdicts_of :: "string list \<Rightarrow> (nat \<times> 'v option) list \<Rightarrow> (string \<times> 'v option) list" where
  "verdicts_of names events = map (\<lambda>(at, ov). (names ! at, ov)) events"

text \<open>Where every place has one event, the verdicts by place are the events.\<close>

lemma events_by_place:
  assumes "mset (map fst events) = mset [0..<n]"
  shows "mset (map (\<lambda>at. (at, case map_of events at of Some ov \<Rightarrow> ov | None \<Rightarrow> None)) [0..<n]) = mset events"
proof -
  let ?f = "\<lambda>at. (at, case map_of events at of Some ov \<Rightarrow> ov | None \<Rightarrow> None)"
  have "distinct (map fst events)" using assms by (metis distinct_upt mset_eq_imp_distinct_iff)
  then have "map (\<lambda>e. ?f (fst e)) events = events" by (intro map_idI) (auto simp: map_of_eq_Some_iff)
  moreover have "mset (map ?f [0..<n]) = image_mset ?f (mset (map fst events))"
    by (subst assms) (rule mset_map)
  ultimately show ?thesis by (simp add: image_mset.compositionality comp_def flip: mset_map)
qed

text \<open>
  Where every place has one event, what is asked is every file told once, with its verdict or
  as let go, and the end after all of them.
\<close>

lemma asked_tellings:
  assumes "mset (map fst events) = mset [0..<length names]"
  shows "\<exists>qs. asked names events = qs @ [Finish] \<and> (\<forall>q \<in> set qs. \<exists>n v. q = Told n v)
    \<and> mset (tellings qs) = mset (verdicts_of names events)"
proof -
  let ?given = "filter (\<lambda>e. snd e \<noteq> None) events" and ?none = "filter (\<lambda>e. snd e = None) events"
  let ?vs = "map (\<lambda>at. case map_of events at of Some ov \<Rightarrow> ov | None \<Rightarrow> None) [0..<length names]"
  let ?go = "map (\<lambda>(name, v). (name, v)) (filter (\<lambda>(_, v). v = None) (zip names ?vs))"
  let ?qs = "map (\<lambda>(n, v). Told n v) (verdicts_of names ?given @ ?go)"
  have first: "concat (map (\<lambda>(at, ov). case ov of Some v \<Rightarrow> [telling_at names at v] | None \<Rightarrow> []) events) =
      map (\<lambda>(n, v). Told n v) (verdicts_of names ?given)"
    by (induction events) (auto simp: verdicts_of_def telling_at_def)
  have last: "letting_go names ?vs = map (\<lambda>(n, v). Told n v) ?go @ [Finish]"
    by (auto simp: letting_go_def finish_def)
  have z: "zip names ?vs = map (\<lambda>at. (names ! at, case map_of events at of Some ov \<Rightarrow> ov | None \<Rightarrow> None)) [0..<length names]"
    by (rule nth_equalityI) auto
  have "mset (zip names ?vs) = mset (verdicts_of names events)"
  proof -
    have "mset (zip names ?vs) = image_mset (\<lambda>(at, ov). (names ! at, ov))
        (mset (map (\<lambda>at. (at, case map_of events at of Some ov \<Rightarrow> ov | None \<Rightarrow> None)) [0..<length names]))"
      by (simp add: z image_mset.compositionality comp_def)
    then show ?thesis unfolding events_by_place [OF assms] by (simp add: verdicts_of_def)
  qed
  then have "mset (filter (\<lambda>(_, v). v = None) (zip names ?vs)) = mset (verdicts_of names ?none)"
    by (simp add: verdicts_of_def filter_mset_image_mset case_prod_unfold)
  then have "mset (verdicts_of names ?given @ ?go) = mset (verdicts_of names events)"
    using multiset_partition [of "mset events" "\<lambda>e. snd e \<noteq> None"]
    by (simp add: verdicts_of_def flip: image_mset_union)
  then have "mset (tellings ?qs) = mset (verdicts_of names events)" by (simp only: tellings_told)
  moreover have "asked names events = ?qs @ [Finish]" by (simp only: asked_def first last map_append append_assoc)
  ultimately show ?thesis by (intro exI [of _ ?qs]) auto
qed

section \<open>Properties\<close>

text \<open>A connection whose channels do not open.\<close>

definition closed_conns :: "unit conns" where
  "closed_conns = \<lparr>ch = \<lparr>ch_write = (\<lambda>c b. (Inr (), c)), ch_read_exact = (\<lambda>c n. (Inl (Foreign ''closed''), c)),
       ch_read_frame = (\<lambda>c. (Inr None, c))\<rparr>,
     ch_open = (\<lambda>name. fail_act (Foreign ''no channel'')), ch_accept = (\<lambda>name. return_act ()), ch_close = return_act ()\<rparr>"

text \<open>A claim that takes nothing, and one that takes one file under its own name.\<close>

definition no_claims :: "('c, unit) claims" where
  "no_claims = \<lparr>claim_take = (\<lambda>_. return_act []), claim_told = (\<lambda>_ _. return_act ())\<rparr>"

definition one_claim :: "string \<Rightarrow> ('c, unit) claims" where
  "one_claim name = \<lparr>claim_take = (\<lambda>_. return_act [\<lparr>dropped = name, claimed = name\<rparr>]), claim_told = (\<lambda>_ _. return_act ())\<rparr>"

text \<open>A harvest of one file of the sample directory, its body read whole.\<close>

lemma sample_harvest:
  "\<exists>c' cs. harvesting std_ext std_conns (one_claim ''a'') 1 [Read ''a'' Whole, Finish] \<lparr>d_serving = sample, d_unread = []\<rparr> =
     Some (Here c', Listed (Inr [\<lparr>dropped = ''a'', claimed = ''a''\<rparr>]) # sent_chunks ''a'' cs @ [Chunk ''a'' (Inr None), ClientBack, Finished])
   \<and> concat cs = [1, 2]"
proof -
  let ?c = "\<lparr>d_serving = sample, d_unread = []\<rparr>" and ?k = "\<lparr>dropped = ''a'', claimed = ''a''\<rparr>"
  have "direct_idle ?c (dir sample)" "dir_wf (dir sample)" "dir_bounded std_ext (dir sample)"
    using sample_wf sample_bounded by (simp_all add: direct_idle_def serving_wf_def)
  then obtain t s where o: "ready std_ext direct_linked t s" "far_end_of s = far_end_of \<lparr>dir = dir sample, handles = [], next_handle = 0\<rparr>"
    "\<And>taken t1 s1 qs log t' s'. claim_take (one_claim ''a'') 1 t = Some (Inr taken, t1) \<Longrightarrow> ready std_ext direct_linked t1 s1 \<Longrightarrow>
       answering std_ext (ch std_conns) (one_claim ''a'') qs (t1, [Listed (Inr taken)]) = Some (Inr True, (t', Listed (Inr taken) # log)) \<Longrightarrow>
       ready std_ext direct_linked t' s' \<Longrightarrow>
       \<exists>c'. harvesting std_ext std_conns (one_claim ''a'') 1 qs ?c = Some (Here c', if taken = [] then [ClientBack, Listed (Inr [])]
              else Listed (Inr taken) # log @ [ClientBack, Finished]) \<and> direct_idle c' (dir (if taken = [] then s1 else s'))"
    by (rule direct_kept.harvest_opened [where now = 0 and CL = "one_claim ''a''" and most = 1]) blast
  have "content (far_end_of s) ''a'' = Some [1, 2]" by (simp add: o(2))
  then obtain t' s' where r: "reading std_ext std_channel ''a'' Whole (t, [Listed (Inr [?k])]) = Some (Inr (), (t',
      [Listed (Inr [?k])] @ sent_chunks ''a'' (takes Whole 0 (chunks_from 0 [1, 2]))
        @ (if has_room Whole (length (chunks_from 0 [1, 2 :: u8])) then [Chunk ''a'' (Inr None)] else [])))" "ready std_ext direct_linked t' s'"
    by (rule session.reading_sends [OF std_session o(1) sample_names(1), where room = Whole and log = "[Listed (Inr [?k])]"]) simp_all
  have "answering std_ext (ch std_conns) (one_claim ''a'') [Read ''a'' Whole, Finish] (t, [Listed (Inr [?k])]) =
      Some (Inr True, (t', Listed (Inr [?k]) # sent_chunks ''a'' (chunks_from 0 [1, 2]) @ [Chunk ''a'' (Inr None)]))"
    using r(1) by (simp add: direct_conns_def takes_def has_room_def)
  from o(3) [OF _ o(1) this r(2)] show ?thesis
    by (auto simp: one_claim_def concat_chunks_from intro!: exI [of _ "chunks_from 0 [1, 2]"])
qed

text \<open>
  C14. Whatever the server, the claim and the arrivals do, the harvest says it is finished, or
  that it claimed nothing, only after the client is back, and where it does the line holds the
  client; where the line is broken it says neither. Before that it sends nothing but chunks,
  answers to verdicts and a listing of at least one file.
\<close>

theorem finished_means_client_back:
  assumes "harvesting X C CL most qs client = Some (l, log)"
  shows "\<exists>ms. (\<forall>m \<in> set ms. to_arrivals m)
    \<and> ((\<exists>c. l = Here c \<and> log \<in> {ms @ [ClientBack, Listed (Inr [])], ms @ [ClientBack, Finished], ms @ [ClientBack]})
     \<or> (\<exists>e. l = Broken \<and> log = ms @ [ClientGone, Listed (Inl e)]))"
  using assms by (rule harvesting_log) blast

theorem finished_means_client_back_witness:
  "\<exists>ms c log. harvesting std_ext std_conns (one_claim ''a'') 1 [Read ''a'' Whole, Finish] \<lparr>d_serving = sample, d_unread = []\<rparr> = Some (Here c, log)
    \<and> list_all to_arrivals ms \<and> ms \<noteq> [] \<and> log = ms @ [ClientBack, Finished]"
proof -
  let ?k = "\<lparr>dropped = ''a'', claimed = ''a''\<rparr>"
  obtain c' cs where h: "harvesting std_ext std_conns (one_claim ''a'') 1 [Read ''a'' Whole, Finish] \<lparr>d_serving = sample, d_unread = []\<rparr> =
      Some (Here c', (Listed (Inr [?k]) # sent_chunks ''a'' cs @ [Chunk ''a'' (Inr None)]) @ [ClientBack, Finished])"
    using sample_harvest by auto
  then obtain ms where ms: "list_all to_arrivals ms"
      "(Listed (Inr [?k]) # sent_chunks ''a'' cs @ [Chunk ''a'' (Inr None)]) @ [ClientBack, Finished] = ms @ [ClientBack, Finished]"
    using finished_means_client_back [OF h] by (elim exE conjE disjE) (auto simp: list_all_iff simp del: append_Cons append_Nil)
  then have "ms \<noteq> []" by auto
  with h ms show ?thesis by (intro exI [of _ ms] exI [of _ c'] exI [of _ "ms @ [ClientBack, Finished]"]) (simp only: simp_thms)
qed


lemma empty_harvest:
  "\<exists>c'. harvesting std_ext std_conns no_claims 1 [] \<lparr>d_serving = sample, d_unread = []\<rparr> = Some (Here c', [ClientBack, Listed (Inr [])])"
proof -
  let ?c = "\<lparr>d_serving = sample, d_unread = []\<rparr>"
  have "direct_idle ?c (dir sample)" "dir_wf (dir sample)" "dir_bounded std_ext (dir sample)"
    using sample_wf sample_bounded by (simp_all add: direct_idle_def serving_wf_def)
  then obtain t s where o: "ready std_ext direct_linked t s"
    "\<And>(work :: (direct Sftp \<times> sent list, Ended) act) p x t' s' p'. work (t, p) = Some (Inr x, (t', p')) \<Longrightarrow> ready std_ext direct_linked t' s' \<Longrightarrow>
      \<exists>c'. with_subsystem std_ext std_conns work (?c, p) = Some (Inr x, (c', p')) \<and> direct_idle c' (dir s')"
    by (rule direct_kept.subsystem_opened [where now = 0]) blast
  have "harvest_work std_ext (ch std_conns) no_claims 1 [] (t, []) = Some (Inr Empty, (t, []))"
    by (simp add: harvest_work_def no_claims_def)
  from o(2) [where work = "harvest_work std_ext (ch std_conns) no_claims 1 []", OF this o(1)] show ?thesis by (auto simp: harvesting_def)
qed


text \<open>
  C24. A body that reads to its end reads the file: the chunks the harvest sends for it are the
  file in order, none empty and none over a request's worth, then the end; the calls of
  \<open>next_chunk\<close> return exactly these; the handle it was read by is closed, every other as it was,
  and no file changes.
\<close>

theorem body_reads_the_file:
  assumes "session X K linked" "ready X linked t s" "name_ok n" "content (far_end_of s) n = Some b"
  shows "\<exists>cs t' s'. reading X K n Whole (t, log) = Some (Inr (), (t', log @ map (Chunk n) (map (Inr \<circ> Some) cs @ [Inr None])))
    \<and> pull (\<lambda>_. Some (map (Inr \<circ> Some) cs @ [Inr None])) (Suc (length cs)) (fetch_new n) = map (Inr \<circ> Some) cs @ [Inr None]
    \<and> concat cs = b \<and> (\<forall>c \<in> set cs. c \<noteq> [] \<and> length c \<le> CHUNK)
    \<and> ready X linked t' s' \<and> content (far_end_of s') = content (far_end_of s)
    \<and> opened (far_end_of s') = (opened (far_end_of s))(''h'' @ decimal (unat (issued (far_end_of s))) := None)"
proof -
  obtain t' s' where r: "reading X K n Whole (t, log) = Some (Inr (), (t',
      log @ sent_chunks n (takes Whole 0 (chunks_from 0 b))
        @ (if has_room Whole (length (chunks_from 0 b)) then [Chunk n (Inr None)] else [])))"
    "ready X linked t' s'" "content (far_end_of s') = content (far_end_of s)"
    "opened (far_end_of s') = (opened (far_end_of s))(''h'' @ decimal (unat (issued (far_end_of s))) := None)"
    by (rule session.reading_sends [OF assms, of Whole log]) simp_all
  let ?ms = "map (Inr \<circ> Some) (chunks_from 0 b) @ [Inr None] :: chunk list"
  have "pull (\<lambda>_. Some ?ms) (length ?ms) (fetch_new n) = ?ms" by (rule pull_new [OF refl])
  with r show ?thesis
    by (intro exI [of _ "chunks_from 0 b"] exI [of _ t'] exI [of _ s'])
      (auto simp: takes_def has_room_def sent_chunks_def concat_chunks_from simp del: far_end_of_simps
        dest: chunks_from_sizes)
qed

theorem body_reads_the_file_witness:
  "\<exists>cs t'. reading std_ext std_channel ''a'' Whole (sample_client, []) =
     Some (Inr (), (t', map (Chunk ''a'') (map (Inr \<circ> Some) cs @ [Inr None]))) \<and> concat cs = [1, 2]"
  using body_reads_the_file [OF std_session sample_ready sample_names(1), of "[1, 2]" "[]"] by auto

text \<open>
  A body let go stops the reading: it was sent the first chunks it took and nothing after,
  the handle is closed all the same, and the session goes on.
\<close>

lemma body_let_go_stops_reading:
  assumes "session X K linked" "ready X linked t s" "name_ok n" "content (far_end_of s) n = Some b"
    "k < length (chunks_from 0 b)"
  shows "\<exists>t' s'. reading X K n (LetGo k) (t, log) = Some (Inr (), (t', log @ sent_chunks n (take k (chunks_from 0 b))))
    \<and> ready X linked t' s' \<and> content (far_end_of s') = content (far_end_of s)
    \<and> opened (far_end_of s') = (opened (far_end_of s))(''h'' @ decimal (unat (issued (far_end_of s))) := None)"
  by (rule session.reading_sends [OF assms(1-4), where room = "LetGo k" and log = log])
    (use assms(5) in \<open>simp, force simp: takes_def has_room_def simp del: far_end_of_simps\<close>)

text \<open>
  C33. A body kept half read holds its whole receive: with a message left that does not fit the
  channel of one, the harvest's thread waits in that send for ever, so that no request behind it,
  a verdict on any file or the end, is ever answered. A body kept with at most its last message
  unread holds nothing: the harvest has sent the file and its end and goes on.
\<close>

theorem half_read_body_holds_the_harvest:
  assumes "session X K linked" "ready X linked t s" "name_ok n" "content (far_end_of s) n = Some b"
  shows "if k < length (chunks_from 0 b) then answering X K CL (Read n (HeldAt k) # qs) (t, log) = None
    else \<exists>t' s'. answering X K CL (Read n (HeldAt k) # qs) (t, log) =
        answering X K CL qs (t', log @ map (Chunk n) (map (Inr \<circ> Some) (chunks_from 0 b) @ [Inr None]))
      \<and> ready X linked t' s' \<and> content (far_end_of s') = content (far_end_of s)"
proof (cases "k < length (chunks_from 0 b)")
  case True
  then have "reading X K n (HeldAt k) (t, log) = None" by (intro session.reading_stalls [OF assms]) simp
  with True show ?thesis by (simp add: bind_act_def)
next
  case False
  then have "\<not> stalls (HeldAt k) 0 (Suc (length (chunks_from 0 b)))" by simp
  then obtain t' s' where "reading X K n (HeldAt k) (t, log) = Some (Inr (), (t',
      log @ sent_chunks n (takes (HeldAt k) 0 (chunks_from 0 b))
        @ (if has_room (HeldAt k) (length (chunks_from 0 b)) then [Chunk n (Inr None)] else [])))"
    "ready X linked t' s'" "content (far_end_of s') = content (far_end_of s)"
    by (rule session.reading_sends [OF assms, where room = "HeldAt k" and log = log])
  with False show ?thesis
    by (auto simp: takes_def has_room_def sent_chunks_def comp_def simp del: far_end_of_simps intro!: exI [of _ t'] exI [of _ s'])
qed

theorem half_read_body_holds_the_harvest_witness:
  "answering std_ext std_channel no_claims [Read ''a'' (HeldAt 0), Told ''a'' None, Finish] (sample_client, []) = None"
proof -
  have "0 < length (chunks_from 0 [1, 2 :: u8])" by (subst chunks_from.simps) simp
  then show ?thesis
    using half_read_body_holds_the_harvest [OF std_session sample_ready sample_names(1), of "[1, 2]" 0 no_claims "[Told ''a'' None, Finish]" "[]"]
    by simp
qed

end
