(* ===== verification/Lending.thy ===== *)
theory Lending
  imports Connection
begin

text \<open>
  Who has the client, step by step (\<open>Connection::harvest\<close> and the end of \<open>harvesting\<close>): a
  harvest replaces the line under one lock; where the client was not there it puts what it
  found back under a second lock; the harvest's thread gives the client back, or marks it
  gone, whenever it ends. The steps of any number of harvests interleave, so the relation has
  them one by one.
\<close>

section \<open>Steps\<close>

text \<open>
  \<open>lent\<close>: the client the harvest's thread runs with. \<open>putting\<close>: what the harvests that are between
  their two locks found where the client was not, each with its own still to put back.
\<close>

record 'c lending =
  the_line :: "'c Line"
  lent :: "'c option"
  putting :: "'c Line list"

text \<open>\<open>std::mem::replace\<close> under the first lock, and what follows from what was there.\<close>

definition lend :: "'c lending \<Rightarrow> 'c lending" where
  "lend g = (case the_line g of
     Here c \<Rightarrow> g\<lparr>the_line := Harvesting, lent := Some c\<rparr>
   | other \<Rightarrow> g\<lparr>the_line := Harvesting, putting := other # putting g\<rparr>)"

text \<open>A thread that could not be started: the client it was to have is gone with it.\<close>

definition lend_unstarted :: "'c lending \<Rightarrow> 'c lending" where
  "lend_unstarted g = g\<lparr>the_line := Harvesting\<rparr>"

text \<open>The second lock of a harvest that found \<open>l\<close>.\<close>

definition put_back :: "'c Line \<Rightarrow> 'c lending \<Rightarrow> 'c lending" where
  "put_back l g = g\<lparr>the_line := l, putting := remove1 l (putting g)\<rparr>"

definition give_back :: "'c Line \<Rightarrow> 'c lending \<Rightarrow> 'c lending" where
  "give_back l g = g\<lparr>the_line := l, lent := None\<rparr>"

inductive lending_step :: "'c lending \<Rightarrow> 'c lending \<Rightarrow> bool" where
  lends: "lending_step g (lend g)"
| unstarted: "the_line g = Here c \<Longrightarrow> lending_step g (lend_unstarted g)"
| puts_back: "l \<in> set (putting g) \<Longrightarrow> lending_step g (put_back l g)"
| gives_back: "lent g = Some c \<Longrightarrow> lending_step g (give_back (Here c') g)"
| breaks: "lent g = Some c \<Longrightarrow> lending_step g (give_back Broken g)"

inductive lending_run :: "'c lending \<Rightarrow> 'c lending \<Rightarrow> bool" where
  start: "lending_run g g"
| more: "lending_run g h \<Longrightarrow> lending_step h k \<Longrightarrow> lending_run g k"

inductive_cases lending_stepE: "lending_step g h"

lemma lending_run_trans: "lending_run h k \<Longrightarrow> lending_run g h \<Longrightarrow> lending_run g k"
  by (induction rule: lending_run.induct) (auto intro: more)

definition kept :: "'c \<Rightarrow> 'c lending" where
  "kept c = \<lparr>the_line = Here c, lent = None, putting = []\<rparr>"

text \<open>
  One thread at most has the client: it is on the line only where no thread has it, and no
  harvest has it to put back.
\<close>

definition one_client :: "'c lending \<Rightarrow> bool" where
  "one_client g \<longleftrightarrow> (\<forall>c. the_line g = Here c \<longrightarrow> lent g = None) \<and> (\<forall>l \<in> set (putting g). \<forall>c. l \<noteq> Here c)"

lemma one_client_step: "lending_step g h \<Longrightarrow> one_client g \<Longrightarrow> one_client h"
  by (induction rule: lending_step.induct)
    (auto simp: one_client_def lend_def lend_unstarted_def put_back_def give_back_def
      dest: set_mp [OF set_remove1_subset] split: Line.splits)

lemma one_client_run: "lending_run (kept c) g \<Longrightarrow> one_client g"
proof (induction "kept c" g rule: lending_run.induct)
  case start
  then show ?case by (simp add: one_client_def kept_def)
next
  case (more h k)
  then show ?case using one_client_step by blast
qed

section \<open>Runs that keep the client\<close>

text \<open>
  The steps where every thread starts, no thread ends while a harvest is between its two locks,
  and no harvest begins while another has a broken line to put back. Harvests that find the
  client lent may overlap.
\<close>

inductive calm_step :: "'c lending \<Rightarrow> 'c lending \<Rightarrow> bool" where
  calm_lends: "Broken \<notin> set (putting g) \<Longrightarrow> calm_step g (lend g)"
| calm_puts: "l \<in> set (putting g) \<Longrightarrow> calm_step g (put_back l g)"
| calm_gives: "lent g = Some c \<Longrightarrow> putting g = [] \<Longrightarrow> calm_step g (give_back (Here c') g)"
| calm_breaks: "lent g = Some c \<Longrightarrow> putting g = [] \<Longrightarrow> calm_step g (give_back Broken g)"

inductive calm_run :: "'c lending \<Rightarrow> 'c lending \<Rightarrow> bool" where
  calm_start: "calm_run g g"
| calm_more: "calm_run g h \<Longrightarrow> calm_step h k \<Longrightarrow> calm_run g k"

lemma calm_step_is_step: "calm_step g h \<Longrightarrow> lending_step g h"
  by (induction rule: calm_step.induct) (auto intro: lending_step.intros)

lemma calm_run_is_run: "calm_run g h \<Longrightarrow> lending_run g h"
  by (induction rule: calm_run.induct) (auto intro: lending_run.intros calm_step_is_step)

text \<open>
  The client is accounted for: with no harvest between its locks, the line says lent exactly
  while a thread has the client; else it says lent, and what is to be put back is that, or one
  broken line.
\<close>

definition accounted :: "'c lending \<Rightarrow> bool" where
  "accounted g \<longleftrightarrow>
     (if putting g = [] then (the_line g = Harvesting) = (lent g \<noteq> None)
      else the_line g = Harvesting \<and> (if lent g = None then putting g = [Broken] else set (putting g) = {Harvesting}))"

lemma accounted_kept: "accounted (kept c)"
  by (simp add: accounted_def kept_def)

lemma put_back_accounted:
  assumes "l \<in> set (putting g)" "accounted g"
  shows "accounted (put_back l g)"
proof (cases "lent g")
  case None
  with assms have "putting g = [Broken]" "l = Broken" by (auto simp: accounted_def split: if_splits)
  with None show ?thesis by (simp add: accounted_def put_back_def)
next
  case (Some c)
  with assms have s: "set (putting g) = {Harvesting}" "l = Harvesting" by (auto simp: accounted_def split: if_splits)
  then have "set (remove1 l (putting g)) \<subseteq> {Harvesting}" using set_remove1_subset [of l "putting g"] by blast
  then have "remove1 l (putting g) = [] \<or> set (remove1 l (putting g)) = {Harvesting}" by (cases "remove1 l (putting g)") auto
  with Some s show ?thesis by (auto simp: accounted_def put_back_def)
qed

lemma calm_step_accounted: "calm_step g h \<Longrightarrow> accounted g \<Longrightarrow> accounted h"
proof (induction rule: calm_step.induct)
  case (calm_lends g)
  then show ?case by (auto simp: accounted_def lend_def split: Line.splits if_splits)
next
  case (calm_puts l g)
  then show ?case by (rule put_back_accounted)
qed (simp_all add: accounted_def give_back_def)

lemma calm_run_accounted: "calm_run g h \<Longrightarrow> accounted g \<Longrightarrow> accounted h"
  by (induction rule: calm_run.induct) (auto intro: calm_step_accounted)

section \<open>Runs that lose it\<close>

text \<open>The client lost: the line says it is lent, nobody has it, and nothing else is to be put back.\<close>

definition lost :: "'c lending \<Rightarrow> bool" where
  "lost g \<longleftrightarrow> the_line g = Harvesting \<and> lent g = None \<and> set (putting g) \<subseteq> {Harvesting}"

lemma lost_step: "lending_step g h \<Longrightarrow> lost g \<Longrightarrow> lost h"
  by (induction rule: lending_step.induct)
    (auto simp: lost_def lend_def lend_unstarted_def put_back_def dest: set_mp [OF set_remove1_subset])

lemma lost_run: "lending_run g h \<Longrightarrow> lost g \<Longrightarrow> lost h"
  by (induction rule: lending_run.induct) (auto intro: lost_step)

lemma accounted_not_lost: "accounted g \<Longrightarrow> \<not> lost g"
  by (auto simp: accounted_def lost_def split: if_splits)

lemmas lending_defs = kept_def lend_def give_back_def put_back_def

lemma race_loses: "\<exists>g. lending_run (kept c) g \<and> lost g \<and> putting g = []"
proof -
  let ?g1 = "lend (kept c)"
  let ?g2 = "lend ?g1"
  let ?g3 = "give_back (Here c) ?g2"
  let ?g4 = "put_back Harvesting ?g3"
  have "lending_run (kept c) ?g2" using more [OF more [OF start lends] lends] .
  moreover have "lending_step ?g2 ?g3" by (rule gives_back [of _ c]) (simp add: lending_defs)
  ultimately have "lending_run (kept c) ?g3" by (rule more)
  moreover have "lending_step ?g3 ?g4" by (rule puts_back) (simp add: lending_defs)
  ultimately have "lending_run (kept c) ?g4" by (rule more)
  moreover have "lost ?g4" "putting ?g4 = []" by (simp_all add: lost_def lending_defs)
  ultimately show ?thesis by blast
qed

text \<open>
  Two harvests on a broken line, with no thread at all: the first finds \<open>Broken\<close>, the second the
  \<open>Harvesting\<close> the first left; each puts back what it found, in that order.
\<close>

lemma overlap_loses:
  assumes "the_line b = Broken" "lent b = None" "putting b = []"
  shows "\<exists>g. lending_run b g \<and> lost g \<and> putting g = []"
proof -
  let ?g2 = "lend (lend b)"
  let ?g3 = "put_back Broken ?g2"
  let ?g4 = "put_back Harvesting ?g3"
  have "lending_run b ?g2" using more [OF more [OF start lends] lends] .
  moreover have "lending_step ?g2 ?g3" by (rule puts_back) (simp add: lending_defs assms)
  ultimately have "lending_run b ?g3" by (rule more)
  moreover have "lending_step ?g3 ?g4" by (rule puts_back) (simp add: lending_defs assms)
  ultimately have "lending_run b ?g4" by (rule more)
  moreover have "lost ?g4" "putting ?g4 = []" using assms by (simp_all add: lost_def lending_defs)
  ultimately show ?thesis by blast
qed

section \<open>Properties\<close>





end
