(* ===== verification/Claims.thy ===== *)
theory Claims
  imports Connection
begin

unbundle bit_operations_syntax

text \<open>
  What a harvest relies on of the claim (\<open>transport::claim\<close>, another crate's), and a claim made of
  the operations \<open>site.rs\<close> gives it: what it takes, what it does to the directory, and that it keeps
  the laws.
\<close>

section \<open>Claiming\<close>

text \<open>
  A claim made of the site's operations: every listed name that is not a claim already, up to
  so many, renamed, and taken where the rename is won.
\<close>

definition claim_name :: "string \<Rightarrow> string" where
  "claim_name n = ''claimed-'' @ n"

primrec claim_each :: "ext \<Rightarrow> 'c channel \<Rightarrow> usize \<Rightarrow> string list \<Rightarrow> ('c Sftp, Taken list) act" where
  "claim_each X K most [] = return_act []"
| "claim_each X K most (n # ns) =
     (if most = 0 then return_act []
      else bind_act (site_rename X K n (claim_name n)) (\<lambda>won.
        if won then bind_act (claim_each X K (most - 1) ns) (\<lambda>ts. return_act (\<lparr>dropped = n, claimed = claim_name n\<rparr> # ts))
        else claim_each X K most ns))"

definition unclaimed :: "string \<Rightarrow> bool" where
  "unclaimed n \<longleftrightarrow> take 8 n \<noteq> ''claimed-''"

definition claim_listed :: "ext \<Rightarrow> 'c channel \<Rightarrow> usize \<Rightarrow> ('c Sftp, Taken list) act" where
  "claim_listed X K most = bind_act (site_listed X K) (\<lambda>es. claim_each X K most (filter unclaimed (map fst es)))"

text \<open>A verdict told: an accepted file is deleted; any other, or none, returns it under the name it was dropped under.\<close>

definition unclaim :: "string \<Rightarrow> string" where
  "unclaim n = (if unclaimed n then n else drop 8 n)"

definition claim_settled :: "ext \<Rightarrow> 'c channel \<Rightarrow> string \<Rightarrow> bool option \<Rightarrow> ('c Sftp, unit) act" where
  "claim_settled X K n v =
     (if v = Some True then site_delete X K n
      else bind_act (restore X K n (unclaim n)) (\<lambda>_. return_act ()))"

definition site_claims :: "ext \<Rightarrow> 'c channel \<Rightarrow> ('c, bool) claims" where
  "site_claims X K = \<lparr>claim_take = claim_listed X K, claim_told = claim_settled X K\<rparr>"

lemma claim_name_eq [simp]: "claim_name a = claim_name b \<longleftrightarrow> a = b" "\<not> unclaimed (claim_name a)"
  by (simp_all add: claim_name_def unclaimed_def)

lemma unclaim_claim_name [simp]: "unclaim (claim_name n) = n"
  by (simp add: unclaim_def) (simp add: claim_name_def)

lemma name_ok_unclaim:
  assumes "name_ok n"
  shows "name_ok (unclaim n)"
proof (cases "unclaimed n")
  case False
  then have "''claimed-'' @ drop 8 n = n" by (metis append_take_drop_id unclaimed_def)
  then have n: "rust_str (''claimed-'' @ drop 8 n)" "length n < 2 ^ 30" using assms by (simp_all add: name_ok_def)
  have "utf8_valid (as_bytes ''claimed-'')" using rust_str_ascii [of "''claimed-''"] by (simp add: rust_str_def)
  with n(1) have "rust_str (drop 8 n)" unfolding rust_str_def as_bytes_append by (simp only: utf8_valid_append)
  with n(2) False show ?thesis by (simp add: name_ok_def unclaim_def)
qed (simp add: assms unclaim_def)

lemma unclaimed_neq: "unclaimed n \<Longrightarrow> n \<noteq> claim_name a"
  by auto

text \<open>
  What a claim does to the directory: each file is moved from the name it was dropped under to a
  claimed name that was free, and nothing else changes.
\<close>

definition moved :: "Taken list \<Rightarrow> (string \<rightharpoonup> bytes) \<Rightarrow> (string \<rightharpoonup> bytes)" where
  "moved taken m = (m |` (- set (map dropped taken))) ++ map_of (map (\<lambda>k. (claimed k, the (m (dropped k)))) taken)"

definition claims_of :: "(string \<rightharpoonup> bytes) \<Rightarrow> Taken list \<Rightarrow> bool" where
  "claims_of m taken \<longleftrightarrow> distinct (map claimed taken) \<and> distinct (map dropped taken)
     \<and> list_all (\<lambda>k. name_ok (claimed k) \<and> name_ok (dropped k) \<and> m (claimed k) = None \<and> m (dropped k) \<noteq> None) taken"

lemma moved_Nil [simp]: "moved [] m = m"
  by (simp add: moved_def restrict_map_def)

lemma claims_of_Nil [simp]: "claims_of m []"
  by (simp add: claims_of_def)

lemma moved_claimed:
  assumes "claims_of m taken" "k \<in> set taken"
  shows "moved taken m (claimed k) = m (dropped k)"
proof -
  have "map_of (map (\<lambda>k. (claimed k, the (m (dropped k)))) taken) (claimed k) = Some (the (m (dropped k)))"
    using assms by (intro map_of_is_SomeI) (auto simp: claims_of_def comp_def)
  then show ?thesis using assms by (auto simp: moved_def claims_of_def list_all_iff)
qed

lemma moved_Cons:
  assumes "m n = Some b" "n \<noteq> cn" "\<forall>k \<in> set ks. dropped k \<noteq> n \<and> dropped k \<noteq> cn \<and> claimed k \<noteq> n \<and> claimed k \<noteq> cn"
  shows "moved (\<lparr>dropped = n, claimed = cn\<rparr> # ks) m = moved ks (m(n := None, cn \<mapsto> b))"
proof
  fix x
  let ?at = "\<lambda>m. map_of (map (\<lambda>k. (claimed k, the (m (dropped k)))) ks)"
  have same: "?at (m(n := None, cn \<mapsto> b)) = ?at m" using assms(3) by (intro arg_cong [where f = map_of]) auto
  show "moved (\<lparr>dropped = n, claimed = cn\<rparr> # ks) m x = moved ks (m(n := None, cn \<mapsto> b)) x"
  proof (cases "?at m x")
    case None
    then show ?thesis using assms unfolding moved_def same by (auto simp: map_add_def restrict_map_def)
  next
    case (Some y)
    then have "(x, y) \<in> set (map (\<lambda>k. (claimed k, the (m (dropped k)))) ks)" by (rule map_of_SomeD)
    then have "x \<noteq> cn" using assms(3) by auto
    with Some show ?thesis using assms(1) unfolding moved_def same by (simp add: map_add_def)
  qed
qed

text \<open>A claim given up changes two names, and the order of the claims does not matter.\<close>

lemma moved_upd:
  assumes "x \<notin> dropped ` set ks" "x \<notin> claimed ` set ks"
  shows "moved ks (m(x := y)) = (moved ks m)(x := y)"
proof -
  let ?at = "\<lambda>m. map_of (map (\<lambda>k. (claimed k, the (m (dropped k)))) ks)"
  have same: "?at (m(x := y)) = ?at m" using assms(1) by (intro arg_cong [where f = map_of]) auto
  have "?at m x = None" using assms(2) by (auto simp: map_of_eq_None_iff)
  with assms(1) show ?thesis unfolding moved_def same by (auto simp: map_add_def restrict_map_def fun_eq_iff split: option.splits)
qed

lemma moved_perm:
  assumes "claims_of m ks" "mset ks = mset ks'"
  shows "claims_of m ks'" "moved ks m = moved ks' m"
proof -
  have set: "set ks = set ks'" using assms(2) by (rule mset_eq_setD)
  have d: "distinct (map claimed ks')" "distinct (map dropped ks')"
    using assms by (metis claims_of_def mset_eq_imp_distinct_iff mset_map)+
  with assms(1) set show "claims_of m ks'" by (simp add: claims_of_def list_all_iff)
  let ?at = "\<lambda>ks. map (\<lambda>k. (claimed k, the (m (dropped k)))) ks"
  have "map_of (?at ks) = map_of (?at ks')"
    using assms(1) d(1) set by (subst map_of_inject_set) (auto simp: claims_of_def comp_def)
  with set show "moved ks m = moved ks' m" by (simp add: moved_def)
qed

lemma moved_first:
  assumes "claims_of m (k # ks)"
  shows "moved (k # ks) m = (moved ks m)(dropped k := None, claimed k := m (dropped k))"
    "moved (k # ks) m (dropped k) = None" "moved ks m (dropped k) = m (dropped k)" "moved ks m (claimed k) = None"
    "claims_of m ks" "claims_of (m(dropped k := None)) ks" "moved ks (m(dropped k := None)) = (moved ks m)(dropped k := None)"
proof -
  obtain b where b: "m (dropped k) = Some b" using assms by (auto simp: claims_of_def)
  have out: "dropped k \<notin> dropped ` set ks" "dropped k \<notin> claimed ` set ks" "claimed k \<notin> dropped ` set ks" "claimed k \<notin> claimed ` set ks"
      "claimed k \<noteq> dropped k"
    using assms by (auto simp: claims_of_def list_all_iff)
  have at: "map_of (map (\<lambda>k. (claimed k, the (m (dropped k)))) ks) x = None" if "x \<notin> claimed ` set ks" for x
    using that by (auto simp: map_of_eq_None_iff)
  show "moved ks m (dropped k) = m (dropped k)" "moved ks m (claimed k) = None"
    using out at assms by (simp_all add: moved_def map_add_def claims_of_def)
  have "moved (k # ks) m = moved ks (m(dropped k := None, claimed k \<mapsto> b))"
    using moved_Cons [of m "dropped k" b "claimed k" ks] b out by (cases k) auto
  then show all: "moved (k # ks) m = (moved ks m)(dropped k := None, claimed k := m (dropped k))"
    using out by (simp add: b moved_upd)
  show "moved (k # ks) m (dropped k) = None" unfolding all using out(5) by simp
  show "claims_of m ks" "claims_of (m(dropped k := None)) ks"
    using assms out by (auto simp: claims_of_def list_all_iff image_iff)
  show "moved ks (m(dropped k := None)) = (moved ks m)(dropped k := None)" using out by (simp add: moved_upd)
qed

lemma moved_removed:
  assumes "claims_of m taken"
  shows "moved taken m |` (- set (map claimed taken)) = m |` (- set (map dropped taken))"
proof
  fix n
  show "(moved taken m |` (- set (map claimed taken))) n = (m |` (- set (map dropped taken))) n"
  proof (cases "n \<in> set (map claimed taken)")
    case True
    with assms show ?thesis by (auto simp: claims_of_def list_all_iff restrict_map_def)
  next
    case False
    then have "map_of (map (\<lambda>k. (claimed k, the (m (dropped k)))) taken) n = None" by (auto simp: map_of_eq_None_iff)
    with False show ?thesis by (simp add: moved_def map_add_def restrict_map_def)
  qed
qed

lemma claims_present:
  assumes "claims_of m taken"
  shows "\<forall>k \<in> set taken. name_ok (claimed k) \<and> moved taken m (claimed k) \<noteq> None"
  using assms by (auto simp: moved_claimed) (auto simp: claims_of_def list_all_iff)

text \<open>
  What a receive relies on of the claim: over the channel it is given it takes at most so many
  files of the directory, moves each to a name of its own that was free, changes nothing else and
  leaves the channel ready. A claim that also settles files of earlier claims when it takes
  (one that recovers a node's own, or returns what it held) is outside this law.
\<close>

locale moving = one_channel X C linked idle left
  for X :: ext and C :: "'c conns" and linked idle left +
  fixes CL :: "('c, 'v) claims"
  assumes take_moves: "ready X linked t s \<Longrightarrow> listing_size (far_end_of s) < 2 ^ 30 \<Longrightarrow> \<exists>taken t' s'. claim_take CL most t = Some (Inr taken, t')
      \<and> ready X linked t' s' \<and> length taken \<le> most
      \<and> claims_of (content (far_end_of s)) taken \<and> content (far_end_of s') = moved taken (content (far_end_of s))"
begin

text \<open>What a receive hears, then, is what the claim took of the directory, and the line it sees.\<close>

lemma receive_lists:
  assumes "idle c d" "dir_wf d" "dir_bounded X d"
    "listing_size (far_end_of \<lparr>dir = d, handles = [], next_handle = 0\<rparr>) < 2 ^ 30"
  obtains taken l t s t' s' where "harvest_listed X C CL most c = Some (Inr taken, l)"
    "if taken = [] then \<exists>c'. l = Here c' \<and> left c' (dir s') else l = Harvesting"
    "ready X linked t s" "far_end_of s = far_end_of \<lparr>dir = d, handles = [], next_handle = 0\<rparr>"
    "claim_take CL most t = Some (Inr taken, t')" "ready X linked t' s'" "length taken \<le> most"
    "claims_of (bt_get (files d)) taken" "content (far_end_of s') = moved taken (bt_get (files d))"
proof -
  obtain t s where o: "ready X linked t s" "far_end_of s = far_end_of \<lparr>dir = d, handles = [], next_handle = 0\<rparr>"
    "\<And>taken t1 s1. claim_take CL most t = Some (Inr taken, t1) \<Longrightarrow> ready X linked t1 s1 \<Longrightarrow>
       \<exists>l. harvest_listed X C CL most c = Some (Inr taken, l)
         \<and> (if taken = [] then \<exists>c'. l = Here c' \<and> left c' (dir s1) else l = Harvesting)"
    by (rule harvest_listed_opened [OF assms(1-3), of CL most]) blast
  have m: "content (far_end_of s) = bt_get (files d)" by (simp add: o(2))
  have "listing_size (far_end_of s) < 2 ^ 30" using assms(4) by (simp only: o(2))
  then obtain taken t' s' where k: "claim_take CL most t = Some (Inr taken, t')" "ready X linked t' s'" "length taken \<le> most"
      "claims_of (bt_get (files d)) taken" "content (far_end_of s') = moved taken (bt_get (files d))"
    using take_moves [OF o(1)] unfolding m by blast
  obtain l where "harvest_listed X C CL most c = Some (Inr taken, l)"
      "if taken = [] then \<exists>c'. l = Here c' \<and> left c' (dir s') else l = Harvesting"
    using o(3) [OF k(1,2)] by (elim exE conjE)
  then show ?thesis using o(1,2) k by (rule that)
qed

end

text \<open>What is taken of some names: of those there and free to claim, all, or as many as asked.\<close>

definition taken_of :: "usize \<Rightarrow> (string \<rightharpoonup> bytes) \<Rightarrow> string list \<Rightarrow> Taken list" where
  "taken_of most m ns = map (\<lambda>n. \<lparr>dropped = n, claimed = claim_name n\<rparr>)
     (take most (filter (\<lambda>n. m n \<noteq> None \<and> m (claim_name n) = None) ns))"

lemma set_taken_of: "k \<in> set (taken_of most m ns) \<Longrightarrow> dropped k \<in> set ns \<and> claimed k = claim_name (dropped k)
    \<and> m (dropped k) \<noteq> None \<and> m (claimed k) = None"
  by (auto simp: taken_of_def dest!: in_set_takeD)

lemma taken_of_claims:
  assumes "distinct ns" "list_all (\<lambda>n. name_ok n \<and> name_ok (claim_name n)) ns"
  shows "claims_of m (taken_of most m ns)" "length (taken_of most m ns) \<le> most"
proof -
  have "distinct (map claimed (taken_of most m ns))" "distinct (map dropped (taken_of most m ns))"
    using assms(1) by (simp_all add: taken_of_def comp_def distinct_map inj_on_def)
  then show "claims_of m (taken_of most m ns)"
    using assms(2) by (auto simp: claims_of_def list_all_iff dest!: set_taken_of)
qed (simp add: taken_of_def)

lemma taken_of_Cons:
  assumes "m n = Some b" "m (claim_name n) = None" "unclaimed n" "list_all unclaimed ns" "n \<notin> set ns" "most \<noteq> 0"
  shows "taken_of most m (n # ns) =
      \<lparr>dropped = n, claimed = claim_name n\<rparr> # taken_of (most - 1) (m(n := None, claim_name n \<mapsto> b)) ns"
    "moved (taken_of most m (n # ns)) m =
      moved (taken_of (most - 1) (m(n := None, claim_name n \<mapsto> b)) ns) (m(n := None, claim_name n \<mapsto> b))"
proof -
  let ?m = "m(n := None, claim_name n \<mapsto> b)"
  have "filter (\<lambda>x. m x \<noteq> None \<and> m (claim_name x) = None) ns = filter (\<lambda>x. ?m x \<noteq> None \<and> ?m (claim_name x) = None) ns"
    using assms(3-5) by (intro filter_cong) (auto simp: list_all_iff)
  then show t: "taken_of most m (n # ns) = \<lparr>dropped = n, claimed = claim_name n\<rparr> # taken_of (most - 1) ?m ns"
    using assms(1,2,6) by (cases most) (simp_all add: taken_of_def)
  show "moved (taken_of most m (n # ns)) m = moved (taken_of (most - 1) ?m ns) ?m"
    unfolding t using assms(1,3-5) unclaimed_neq [OF assms(3)]
    by (intro moved_Cons) (auto simp: list_all_iff dest!: set_taken_of)
qed

context session
begin

lemma listed_name_ok:
  assumes "ready X linked t s" "listing_size (far_end_of s) < 2 ^ 30" "content (far_end_of s) n = Some b"
  shows "name_ok n" "name_ok (claim_name n)"
proof -
  have fin: "finite (dom (content (far_end_of s)))" by (simp add: bt.finite_dom_get)
  have "2 * length n + 28 < 2 ^ 30" using listing_size_name [OF assms(3) fin] assms(2) by simp
  moreover have "rust_str n" using assms(1,3) by (auto simp: ready_def serving_wf_def dir_wf_def)
  moreover have "rust_str ''claimed-''" by (rule rust_str_ascii) simp
  ultimately show "name_ok n" "name_ok (claim_name n)"
    using rust_str_append [of "''claimed-''" n] by (simp_all add: name_ok_def claim_name_def)
qed

lemma claim_each_returns:
  assumes "ready X linked t s" "distinct ns" "list_all unclaimed ns" "list_all (\<lambda>n. name_ok n \<and> name_ok (claim_name n)) ns"
  shows "\<exists>t' s'. claim_each X K most ns t = Some (Inr (taken_of most (content (far_end_of s)) ns), t') \<and> ready X linked t' s'
    \<and> content (far_end_of s') = moved (taken_of most (content (far_end_of s)) ns) (content (far_end_of s))"
  using assms
proof (induction ns arbitrary: most t s)
  case (Cons n ns)
  let ?m = "content (far_end_of s)" and ?cn = "claim_name n"
  have ok: "name_ok n" "name_ok ?cn" "unclaimed n" and ns: "distinct ns" "list_all unclaimed ns" "n \<notin> set ns"
      "list_all (\<lambda>n. name_ok n \<and> name_ok (claim_name n)) ns"
    using Cons.prems(2-4) by simp_all
  consider (enough) "most = 0" | (won) b where "most \<noteq> 0" "?m n = Some b" "?m ?cn = None"
    | (lost) "most \<noteq> 0" "?m n = None \<or> ?m ?cn \<noteq> None" by (cases "?m n") blast+
  then show ?case
  proof cases
    case enough
    with Cons.prems(1) show ?thesis by (intro exI [of _ t] exI [of _ s]) (simp add: taken_of_def del: far_end_of_simps)
  next
    case won
    obtain t1 s1 where r1: "sftp_rename X K n ?cn t = Some (Inr OK, t1)" "ready X linked t1 s1"
        "far_end_of s1 = (far_end_of s)\<lparr>content := ?m(n := None, ?cn \<mapsto> b), mtime := (mtime (far_end_of s))(n := 0, ?cn := mtime (far_end_of s) n)\<rparr>"
      by (rule rename_moves [OF Cons.prems(1) ok(1,2) won(2,3)])
    have "content (far_end_of s1) = ?m(n := None, ?cn \<mapsto> b)" unfolding r1(3) by simp
    note r = r1(1,2) this
    obtain t' s' where i: "claim_each X K (most - 1) ns t1 = Some (Inr (taken_of (most - 1) (?m(n := None, ?cn \<mapsto> b)) ns), t')"
        "ready X linked t' s'" "content (far_end_of s') = moved (taken_of (most - 1) (?m(n := None, ?cn \<mapsto> b)) ns) (?m(n := None, ?cn \<mapsto> b))"
      using Cons.IH [OF r(2) ns(1,2,4), of "most - 1"] unfolding r(3) by blast
    with won r(1) taken_of_Cons [OF won(2,3) ok(3) ns(2,3) won(1)] show ?thesis
      by (intro exI [of _ t'] exI [of _ s']) (simp add: site_rename_def del: far_end_of_simps fun_upd_apply)
  next
    case lost
    then obtain c t1 s1 where r: "sftp_rename X K n ?cn t = Some (Inr c, t1)" "c \<noteq> OK" "ready X linked t1 s1"
        "content (far_end_of s1) = ?m"
      using rename_refused [OF Cons.prems(1) ok(1,2)] by metis
    have "taken_of most ?m (n # ns) = taken_of most ?m ns" using lost by (auto simp: taken_of_def simp del: far_end_of_simps)
    with r lost Cons.IH [OF r(3) ns(1,2,4), of most] show ?thesis
      by (simp add: site_rename_def del: far_end_of_simps)
  qed
qed (auto simp: taken_of_def)

text \<open>A claim settled, of a name the wire can carry: deleted, returned where its own name is free, or left.\<close>

lemma claim_settled_returns:
  assumes "ready X linked t s" "name_ok n"
  obtains t' s' where "claim_settled X K n v t = Some (Inr (), t')" "ready X linked t' s'"
    "content (far_end_of s') =
      (let m = content (far_end_of s)
       in if v = Some True then m(n := None)
          else if m n = None \<or> m (unclaim n) \<noteq> None then m
          else m(n := None, unclaim n := m n))"
proof (cases "v = Some True")
  case True
  obtain t' s' where r: "site_delete X K n t = Some (Inr (), t')" "ready X linked t' s'"
      "far_end_of s' = (far_end_of s)\<lparr>content := (content (far_end_of s))(n := None), mtime := (mtime (far_end_of s))(n := 0)\<rparr>"
    using assms by (rule site_delete_returns)
  have "content (far_end_of s') = (content (far_end_of s))(n := None)" unfolding r(3) by simp
  with r(1,2) True show ?thesis by (intro that) (simp_all add: claim_settled_def Let_def del: far_end_of_simps)
next
  case False
  let ?m = "content (far_end_of s)" and ?u = "unclaim n"
  obtain r t' s' where r: "restore X K n ?u t = Some (Inr r, t')" "ready X linked t' s'"
      "far_end_of s' = (if ?m n \<noteq> None \<and> ?m ?u = None
       then (far_end_of s)\<lparr>content := ?m(n := None, ?u := ?m n), mtime := (mtime (far_end_of s))(n := 0, ?u := mtime (far_end_of s) n)\<rparr>
       else far_end_of s)"
    using restore_returns [OF assms name_ok_unclaim [OF assms(2)]] by metis
  have "content (far_end_of s') = (if ?m n = None \<or> ?m ?u \<noteq> None then ?m else ?m(n := None, ?u := ?m n))"
    unfolding r(3) by simp
  with r(1,2) False show ?thesis by (intro that) (simp_all add: claim_settled_def Let_def del: far_end_of_simps)
qed

text \<open>Taken of the whole listing: the names in their order.\<close>

lemma claim_listed_returns:
  assumes "ready X linked t s" "listing_size (far_end_of s) < 2 ^ 30"
  obtains ns t' s' where "claim_listed X K most t = Some (Inr (taken_of most (content (far_end_of s)) ns), t')" "ready X linked t' s'"
    "claims_of (content (far_end_of s)) (taken_of most (content (far_end_of s)) ns)"
    "content (far_end_of s') = moved (taken_of most (content (far_end_of s)) ns) (content (far_end_of s))"
    "ns = filter (\<lambda>n. unclaimed n \<and> n \<noteq> ''.'' \<and> n \<noteq> ''..'') (sorted_list_of_set (dom (content (far_end_of s))))"
proof -
  let ?m = "content (far_end_of s)"
  let ?es = "filter (\<lambda>(n, _). n \<noteq> ''.'' \<and> n \<noteq> ''..'') (map (\<lambda>(n, st). (n, Some st)) (listing_of (far_end_of s)))"
  let ?ns = "filter (\<lambda>n. unclaimed n \<and> n \<noteq> ''.'' \<and> n \<noteq> ''..'') (sorted_list_of_set (dom ?m))"
  obtain t1 s1 where l: "sftp_list X K t = Some (Inr ?es, t1)" "ready X linked t1 s1"
      "far_end_of s1 = (far_end_of s)\<lparr>issued := issued (far_end_of s) + 1,
         opened := (opened (far_end_of s))(''d'' @ decimal (unat (issued (far_end_of s))) := None)\<rparr>"
    using assms by (rule list_returns)
  have same: "content (far_end_of s1) = ?m" by (simp add: l(3) del: far_end_of_simps)
  have ns: "filter unclaimed (map fst ?es) = ?ns"
    by (simp add: listing_of_def filter_map comp_def case_prod_unfold conj_ac del: far_end_of_simps)
  have "list_all (\<lambda>n. name_ok n \<and> name_ok (claim_name n)) ?ns" "distinct ?ns" "list_all unclaimed ?ns"
    using listed_name_ok [OF assms] by (auto simp: list_all_iff bt.finite_dom_get)
  note ok = this
  obtain t' s' where "claim_each X K most ?ns t1 = Some (Inr (taken_of most ?m ?ns), t')" "ready X linked t' s'"
      "content (far_end_of s') = moved (taken_of most ?m ?ns) ?m"
    using claim_each_returns [OF l(2) ok(2,3,1)] unfolding same by blast
  moreover have "claim_listed X K most t = claim_each X K most ?ns t1"
    using l(1) by (simp only: claim_listed_def site_listed_def act_run ns [symmetric]) simp
  ultimately show ?thesis using taken_of_claims(1) [OF ok(2,1)] by (intro that [of ?ns]) simp_all
qed

end

text \<open>The claim made of the site's operations moves its files so, over every connection that keeps its own laws.\<close>

lemma site_moving:
  assumes "one_channel X C linked idle left"
  shows "moving X C linked idle left (site_claims X (ch C))"
proof (rule moving.intro [OF assms], unfold_locales)
  note S = one_channel.axioms(1) [OF assms]
  show "\<exists>taken t' s'. claim_take (site_claims X (ch C)) most t = Some (Inr taken, t') \<and> ready X linked t' s' \<and> length taken \<le> most
      \<and> claims_of (content (far_end_of s)) taken \<and> content (far_end_of s') = moved taken (content (far_end_of s))"
    if "ready X linked t s" "listing_size (far_end_of s) < 2 ^ 30" for most t s
    by (rule session.claim_listed_returns [OF S that, of most])
      (use taken_of_claims(2) in \<open>fastforce simp: site_claims_def taken_of_def simp del: far_end_of_simps\<close>)
qed

interpretation site_moved: moving "rfc4251 67108864" "direct_conns (rfc4251 67108864) now" direct_linked direct_idle direct_idle
  "site_claims (rfc4251 67108864) (ch (direct_conns (rfc4251 67108864) now))"
  by (rule site_moving) (rule direct_kept.one_channel_axioms)

end
