(* ===== verification/Tape.thy ===== *)
theory Tape
  imports Server
begin

unbundle bit_operations_syntax

text \<open>
  The client and the server joined. A connection that keeps what the client wrote: the far end
  answers each packet as it is written (so that the client's side runs), and the packets of
  each channel are kept as frames. What the server makes of these frames, through its own loop
  and its own channels (\<open>serve_chosen\<close>, over \<open>scripts\<close>), is the directory the client's side
  saw, so that the two components, each modelled from its own source, agree on what was put.
\<close>

section \<open>A connection that keeps what was written\<close>

record taped =
  t_serving :: Serving
  t_unread :: bytes
  t_frames :: "bytes list"
  t_channels :: "bytes list list"

text \<open>The clock is the server's: channel by channel, request by request.\<close>

definition taped_write ::
  "ext \<Rightarrow> (nat \<Rightarrow> nat \<Rightarrow> int) \<Rightarrow> taped \<Rightarrow> bytes \<Rightarrow> (transport_error + unit) \<times> taped" where
  "taped_write X clock c b = (case r_string X b of
     Inr (packet, []) \<Rightarrow>
       (let c' = c\<lparr>t_frames := t_frames c @ [packet]\<rparr>
        in case serve_request X (clock (length (t_channels c)) (length (t_frames c))) packet (t_serving c) of
             (Inr reply, s) \<Rightarrow> (Inr (), c'\<lparr>t_serving := s, t_unread := t_unread c @ reply\<rparr>)
           | (Inl e, s) \<Rightarrow> (Inl e, c'\<lparr>t_serving := s\<rparr>))
   | _ \<Rightarrow> (Inl (Foreign ''not one packet''), c))"

definition taped_read :: "taped \<Rightarrow> usize \<Rightarrow> (transport_error + bytes) \<times> taped" where
  "taped_read c n =
     (if n \<le> length (t_unread c)
      then (Inr (take n (t_unread c)), c\<lparr>t_unread := drop n (t_unread c)\<rparr>)
      else (Inl (Foreign ''the channel ended''), c))"

definition taped_conns :: "ext \<Rightarrow> (nat \<Rightarrow> nat \<Rightarrow> int) \<Rightarrow> taped conns" where
  "taped_conns X clock = \<lparr>
     ch = \<lparr>ch_write = taped_write X clock, ch_read_exact = taped_read, ch_read_frame = (\<lambda>c. (Inr None, c))\<rparr>,
     ch_open = (\<lambda>name c. Some (Inr (), c\<lparr>t_serving := fresh (dir (t_serving c)), t_unread := [], t_frames := []\<rparr>)),
     ch_accept = (\<lambda>name. return_act ()),
     ch_close = (\<lambda>c. Some (Inr (), c\<lparr>t_channels := t_channels c @ [t_frames c], t_frames := []\<rparr>))\<rparr>"

definition blank :: "Directory \<Rightarrow> taped" where
  "blank d = \<lparr>t_serving = fresh d, t_unread = [], t_frames = [], t_channels = []\<rparr>"

text \<open>
  The tape is the far end's history: its closed channels served from the directory \<open>d0\<close> gave
  the directory it has, and the frames of the open one, behind the channels \<open>pss\<close>, its present
  state.
\<close>

definition taped_idle :: "ext \<Rightarrow> (nat \<Rightarrow> nat \<Rightarrow> int) \<Rightarrow> Directory \<Rightarrow> taped \<Rightarrow> Directory \<Rightarrow> bool" where
  "taped_idle X clock d0 c d \<longleftrightarrow> dir (t_serving c) = d \<and> serve_each X clock 0 (t_channels c) d0 = (Inr (), d)"

definition taped_linked ::
  "ext \<Rightarrow> (nat \<Rightarrow> nat \<Rightarrow> int) \<Rightarrow> Directory \<Rightarrow> bytes list list \<Rightarrow> taped \<Rightarrow> Serving \<Rightarrow> bytes \<Rightarrow> bool" where
  "taped_linked X clock d0 pss c s p \<longleftrightarrow> t_channels c = pss \<and> t_serving c = s \<and> t_unread c = p
     \<and> (\<exists>d. serve_each X clock 0 pss d0 = (Inr (), d)
          \<and> serve_all X (clock (length pss)) 0 (t_frames c) (fresh d) = (Inr (), s))"

lemma serve_all_append:
  "serve_all X clock n (ps @ qs) s = (case serve_all X clock n ps s of
     (Inl e, s) \<Rightarrow> (Inl e, s)
   | (Inr _, s) \<Rightarrow> serve_all X clock (n + length ps) qs s)"
  by (induction ps arbitrary: n s) (auto split: prod.splits sum.splits)

lemma taped_session:
  assumes "limits X"
  shows "session X (ch (taped_conns X clock)) (taped_linked X clock d0 pss)"
proof -
  have "wire X" using assms by (rule limits.axioms(1))
  have packet: "r_string X (frame X kind body) = Inr (kind # body, [])" if "length body + 1 < 2 ^ 32" for kind body
    using that by (simp add: wire.frame_bytes [OF \<open>wire X\<close>] wire.r_string [OF \<open>wire X\<close>] ssh_string_def)
  show ?thesis
  proof (rule session.intro [OF assms], unfold_locales)
    fix c s p kind and body :: bytes
    assume l: "taped_linked X clock d0 pss c s p" and n: "length body + 1 < 2 ^ 32"
    let ?now = "clock (length (t_channels c)) (length (t_frames c))"
    show "\<exists>now'. \<forall>reply s'. serve_request X now' (kind # body) s = (Inr reply, s') \<longrightarrow>
        (\<exists>c'. ch_write (ch (taped_conns X clock)) c (frame X kind body) = (Inr (), c') \<and> taped_linked X clock d0 pss c' s' (p @ reply))"
      using l packet [OF n]
      by (intro exI [of _ ?now])
        (auto simp: taped_linked_def taped_conns_def taped_write_def serve_all_append Let_def)
  qed (auto simp: taped_linked_def taped_conns_def taped_read_def)
qed

interpretation taped: session "rfc4251 67108864" "ch (taped_conns (rfc4251 67108864) clock)"
  "taped_linked (rfc4251 67108864) clock d0 pss"
  by (rule taped_session) (rule rfc_limits.limits_axioms)

text \<open>
  So the tape is a connection as the client's side relies on it: behind the channels \<open>pss\<close> one
  more is opened, closed and kept, and so on.
\<close>

definition taped_at ::
  "ext \<Rightarrow> (nat \<Rightarrow> nat \<Rightarrow> int) \<Rightarrow> Directory \<Rightarrow> bytes list list \<Rightarrow> taped \<Rightarrow> Directory \<Rightarrow> bool" where
  "taped_at X clock d0 pss c d \<longleftrightarrow> taped_idle X clock d0 c d \<and> t_channels c = pss"

definition taped_past ::
  "ext \<Rightarrow> (nat \<Rightarrow> nat \<Rightarrow> int) \<Rightarrow> Directory \<Rightarrow> bytes list list \<Rightarrow> taped \<Rightarrow> Directory \<Rightarrow> bool" where
  "taped_past X clock d0 pss c d \<longleftrightarrow> taped_idle X clock d0 c d \<and> (\<exists>ps. t_channels c = pss @ [ps])"

lemma taped_once:
  assumes "limits X"
  shows "one_channel X (taped_conns X clock) (taped_linked X clock d0 pss) (taped_at X clock d0 pss) (taped_past X clock d0 pss)"
  by (intro one_channel.intro taped_session assms, unfold_locales)
    (auto simp: taped_conns_def taped_linked_def taped_at_def taped_past_def taped_idle_def serve_each_append)

interpretation taped_once: one_channel "rfc4251 67108864" "taped_conns (rfc4251 67108864) clock"
  "taped_linked (rfc4251 67108864) clock d0 pss" "taped_at (rfc4251 67108864) clock d0 pss" "taped_past (rfc4251 67108864) clock d0 pss"
  by (rule taped_once) (rule rfc_limits.limits_axioms)

lemma blank_channels [simp]: "t_channels (blank d) = []"
  by (simp add: blank_def)

lemma files_directory_new [simp]: "files (directory_new fs) = fs"
  by (simp add: directory_new_def)

lemma idle_blank: "taped_idle X clock d (blank d) d"
  by (simp add: taped_idle_def blank_def)

section \<open>Files put one after another\<close>

lemma taped_put:
  assumes "limits X" "taped_idle X clock d0 c d" "dir_wf d" "dir_bounded X d"
    "name_ok n" "streams P body" "length body \<le> MAX_BODY X"
  obtains c' d' ps where "client_put X (taped_conns X clock) n P c = Some (Inr (), c')"
    "t_channels c' = t_channels c @ [ps]" "taped_idle X clock d0 c' d'" "dir_wf d'" "dir_bounded X d'"
    "bt_get (files d') = (bt_get (files d))(n \<mapsto> body)"
proof -
  have "taped_at X clock d0 (t_channels c) c d" using assms(2) by (simp add: taped_at_def)
  then show ?thesis
    by (rule one_channel.client_put_stores [OF taped_once [OF assms(1)] _ assms(3-7)])
      (auto simp: taped_past_def intro: that)
qed

text \<open>Each file on a channel of its own over the one connection.\<close>

primrec put_all :: "ext \<Rightarrow> 'c conns \<Rightarrow> (string \<times> bytes) list \<Rightarrow> ('c, unit) act" where
  "put_all X C [] = return_act ()"
| "put_all X C (f # fs) = bind_act (client_put X C (fst f) (held (snd f))) (\<lambda>_. put_all X C fs)"

definition puts_ok :: "ext \<Rightarrow> (string \<times> bytes) list \<Rightarrow> bool" where
  "puts_ok X fs \<longleftrightarrow> list_all (\<lambda>(n, b). name_ok n \<and> length b \<le> MAX_BODY X) fs"

text \<open>
  Each put adds one channel to the tape, and the first \<open>k\<close> of them, served, are the first \<open>k\<close>
  files put.
\<close>

lemma taped_put_all:
  assumes "limits X" "taped_idle X clock d0 c d" "dir_wf d" "dir_bounded X d" "puts_ok X fs"
  shows "\<exists>c' pss. put_all X (taped_conns X clock) fs c = Some (Inr (), c')
    \<and> t_channels c' = t_channels c @ pss \<and> length pss = length fs
    \<and> (\<forall>k. \<exists>d'. serve_each X clock 0 (t_channels c @ take k pss) d0 = (Inr (), d')
         \<and> bt_get (files d') = (bt_get (files d)) ++ map_of (rev (take k fs)) \<and> dir_wf d')
    \<and> (\<exists>d'. taped_idle X clock d0 c' d' \<and> dir_bounded X d')"
  using assms(2-)
proof (induction fs arbitrary: c d)
  case Nil
  then show ?case by (intro exI [of _ c] exI [of _ "[]"]) (simp add: taped_idle_def)
next
  case (Cons f fs)
  from Cons.prems(4) have f: "name_ok (fst f)" "length (snd f) \<le> MAX_BODY X" "puts_ok X fs"
    by (auto simp: puts_ok_def)
  obtain c1 d1 ps where p: "client_put X (taped_conns X clock) (fst f) (held (snd f)) c = Some (Inr (), c1)"
      "t_channels c1 = t_channels c @ [ps]" "taped_idle X clock d0 c1 d1" "dir_wf d1" "dir_bounded X d1"
      "bt_get (files d1) = (bt_get (files d))(fst f \<mapsto> snd f)"
    by (rule taped_put [OF assms(1) Cons.prems(1-3) f(1) streams_held f(2)])
  from Cons.IH [OF p(3-5) f(3)] obtain c' pss where r: "put_all X (taped_conns X clock) fs c1 = Some (Inr (), c')"
      "t_channels c' = t_channels c1 @ pss" "length pss = length fs"
      "\<forall>k. \<exists>d'. serve_each X clock 0 (t_channels c1 @ take k pss) d0 = (Inr (), d')
         \<and> bt_get (files d') = (bt_get (files d1)) ++ map_of (rev (take k fs)) \<and> dir_wf d'"
      "\<exists>d'. taped_idle X clock d0 c' d' \<and> dir_bounded X d'"
    by blast
  have "\<exists>d'. serve_each X clock 0 (t_channels c @ take k (ps # pss)) d0 = (Inr (), d')
         \<and> bt_get (files d') = (bt_get (files d)) ++ map_of (rev (take k (f # fs))) \<and> dir_wf d'" for k
  proof (cases k)
    case 0
    with Cons.prems(1,2) show ?thesis by (simp add: taped_idle_def)
  next
    case (Suc j)
    obtain d' where "serve_each X clock 0 (t_channels c1 @ take j pss) d0 = (Inr (), d')"
      "bt_get (files d') = (bt_get (files d1)) ++ map_of (rev (take j fs))" "dir_wf d'"
      using r(4) by blast
    with Suc p(2,6) show ?thesis by simp
  qed
  with p(1,2) r(1-3,5) show ?case
    by (intro exI [of _ c'] exI [of _ "ps # pss"]) simp
qed

section \<open>The tape served\<close>

text \<open>
  What the server relies on of the SSH library where a client it admitted sent the channels
  \<open>pss\<close>: the login ends in who it was, and the connection offers these channels.
\<close>

definition relays ::
  "'c conns \<Rightarrow> ('stream, 'c, 'key, 'check) ssh_server \<Rightarrow> 'key \<Rightarrow> 'check \<Rightarrow> Authenticated \<times> bytes
     \<Rightarrow> (bytes list list \<Rightarrow> 'stream) \<Rightarrow> bool" where
  "relays C V host check who stream \<longleftrightarrow> (\<forall>pss. \<exists>c0 c. accept_conn V (stream pss) = Inr c0
     \<and> server_login V host check c0 = Some (Inr who, c) \<and> offers C c pss)"

lemma serve_channels_relayed:
  assumes "relays C V host check (who, sid) stream" "pss \<noteq> []"
    "serve_each X clock 0 (take (max 1 most) pss) (directory_new fs) = (Inr (), d)"
  shows "serve_channels X C V clock (stream pss) host fs (most, check) =
    Some (Inr \<lparr>served_files = files d, served_who = who, served_session_id = sid\<rparr>)"
proof -
  obtain ps qss where pss: "pss = ps # qss" using assms(2) by (cases pss) auto
  obtain c0 c where c: "accept_conn V (stream pss) = Inr c0" "server_login V host check c0 = Some (Inr (who, sid), c)"
      "offers C c (ps # qss)"
    using assms(1) unfolding relays_def pss by meson
  have "take (max 1 most) pss = ps # take (most - 1) qss" by (cases most) (simp_all add: pss)
  then have "serve_each X clock 0 (ps # take (most - 1) qss) (directory_new fs) = (Inr (), d)" using assms(3) by simp
  then show ?thesis
    using serve_chosen_offers [OF c, where st = "\<lambda>_. directory_new fs" and chosen = "\<lambda>_. ()"]
    by (simp add: serve_channels_def serve_directory_def)
qed

text \<open>One file put by a client, and what its server has of it.\<close>

lemma one_file:
  assumes "bt_wf m" "bt_get m = [n \<mapsto> b]"
  shows "m = [(n, b)]"
proof -
  have "set (map fst m) = {n}" using assms(2) by (simp add: dom_map_of_conv_image_fst [symmetric])
  moreover have "distinct (map fst m)" using assms(1) by (simp add: bt_wf_def strict_sorted_iff)
  ultimately have "length m = 1" using distinct_card [of "map fst m"] by simp
  then obtain p where "m = [p]" by (auto simp: length_Suc_conv)
  then show ?thesis using assms(2) by (cases p) (auto simp: fun_eq_iff split: if_splits)
qed

lemma empty_directory: "dir_wf (directory_new [])" "dir_bounded X (directory_new [])"
  by (simp_all add: dir_wf_def directory_new_def bt_wf_def dir_bounded_def)

lemma put_is_served:
  assumes "limits X" "name_ok n" "streams P body" "length body \<le> MAX_BODY X" "relays C V host check (who, sid) stream"
  obtains c' where "client_put X (taped_conns X clock) n P (blank (directory_new [])) = Some (Inr (), c')"
    "server_serve X C V clock (stream (t_channels c')) host [] check =
       Some (Inr \<lparr>served_files = [(n, body)], served_who = who, served_session_id = sid\<rparr>)"
proof -
  let ?d = "directory_new []"
  obtain c' d' ps where p: "client_put X (taped_conns X clock) n P (blank ?d) = Some (Inr (), c')"
      "t_channels c' = t_channels (blank ?d) @ [ps]" "taped_idle X clock ?d c' d'" "dir_wf d'"
      "bt_get (files d') = (bt_get (files ?d))(n \<mapsto> body)"
    by (rule taped_put [OF assms(1) idle_blank empty_directory assms(2-4)])
  have files: "files d' = [(n, body)]" using p(4,5) by (intro one_file) (simp_all add: dir_wf_def)
  have "serve_each X clock 0 (take (max 1 usize_max) (t_channels c')) ?d = (Inr (), d')" "t_channels c' \<noteq> []"
    using p(2,3) by (simp_all add: taped_idle_def usize_max_def)
  then have "server_serve X C V clock (stream (t_channels c')) host [] check =
      Some (Inr \<lparr>served_files = [(n, body)], served_who = who, served_session_id = sid\<rparr>)"
    using serve_channels_relayed [OF assms(5)] files by (simp add: server_serve_def)
  with p(1) show ?thesis by (rule that)
qed

lemma relays_scripts:
  "relays scripts sample_server () u (\<lparr>user = u, auth_fingerprint = None, auth_signature = None, auth_signed = None\<rparr>, [5]) (\<lambda>pss. pss)"
  using offers_scripts by (auto simp: relays_def sample_server_def server_login_def)

section \<open>Properties\<close>

text \<open>
  C5. What the clients of one connection put, its server keeps: files put one after another over
  one connection, each on a channel of its own, are all put, and the server that is sent these
  channels ends with exactly them over what it had, the later of one name the one kept; a
  server that hangs up after so many channels has kept exactly that many of the files.
\<close>

theorem puts_are_served_in_turn:
  assumes "limits X" "dir_wf (directory_new old)" "dir_bounded X (directory_new old)" "puts_ok X fs" "fs \<noteq> []"
    "relays C V host check (who, sid) stream"
  shows "\<exists>c' served. put_all X (taped_conns X clock) fs (blank (directory_new old)) = Some (Inr (), c')
    \<and> length (t_channels c') = length fs
    \<and> serve_channels X C V clock (stream (t_channels c')) host old (most, check) = Some (Inr served)
    \<and> bt_get (served_files served) = bt_get old ++ map_of (rev (take (max 1 most) fs))
    \<and> served_who served = who \<and> served_session_id served = sid"
proof -
  from taped_put_all [OF assms(1) idle_blank assms(2-4), of clock] obtain c' pss where
      c': "put_all X (taped_conns X clock) fs (blank (directory_new old)) = Some (Inr (), c')"
      "t_channels c' = pss" "length pss = length fs"
    and k: "\<And>k. \<exists>d'. serve_each X clock 0 (take k pss) (directory_new old) = (Inr (), d')
        \<and> bt_get (files d') = bt_get old ++ map_of (rev (take k fs)) \<and> dir_wf d'"
    by auto
  obtain d where d: "serve_each X clock 0 (take (max 1 most) pss) (directory_new old) = (Inr (), d)"
      "bt_get (files d) = bt_get old ++ map_of (rev (take (max 1 most) fs))"
    using k by blast
  have "pss \<noteq> []" using assms(5) c'(3) by auto
  with c' d serve_channels_relayed [OF assms(6) _ d(1)] show ?thesis by auto
qed

theorem puts_are_served_in_turn_witness:
  "\<exists>c' served. put_all std_ext (taped_conns std_ext (\<lambda>_ _. 0)) [(''a'', [1]), (''b'', [2])] (blank (directory_new [])) = Some (Inr (), c')
    \<and> serve_channels std_ext scripts sample_server (\<lambda>_ _. 0) (t_channels c') () [] (1, ''u'') = Some (Inr served)
    \<and> bt_get (served_files served) = [''a'' \<mapsto> [1]]"
proof -
  have "puts_ok std_ext [(''a'', [1]), (''b'', [2])]" by (simp add: puts_ok_def sample_names rfc4251_def)
  then show ?thesis
    using puts_are_served_in_turn [OF rfc_limits.limits_axioms empty_directory _ _ relays_scripts [of "''u''"],
        of "[(''a'', [1]), (''b'', [2])]" "\<lambda>_ _. 0" 1]
    by auto
qed

end
