(* ===== verification/Harvest.thy ===== *)
theory Harvest
  imports Claims Tape
begin

unbundle bit_operations_syntax

text \<open>
  A receive from its listing to its end (\<open>harvesting\<close>, \<open>answering\<close> of \<open>connection.rs\<close>): what its
  arrivals ask, in any order, and are answered; and a receive whose arrivals are all read and
  accepted, from the puts before it to what its server keeps after.
\<close>

section \<open>What the arrivals ask and are answered\<close>

text \<open>The verdicts the harvest has answered, in order.\<close>

definition dones :: "sent list \<Rightarrow> string list" where
  "dones log = concat (map (\<lambda>m. case m of Done n _ \<Rightarrow> [n] | _ \<Rightarrow> []) log)"

lemma dones_simps [simp]:
  "dones [] = []" "dones (Done n r # log) = n # dones log" "dones (Chunk n m # log) = dones log"
  "dones (Listed l # log) = dones log" "dones (ClientBack # log) = dones log" "dones (Finished # log) = dones log"
  "dones (log @ log') = dones log @ dones log'"
  by (simp_all add: dones_def)

lemma dones_chunks [simp]: "dones (sent_chunks n cs) = []"
  by (simp add: sent_chunks_def dones_def)

text \<open>Every verdict answered, and answered well.\<close>

definition all_done :: "sent list \<Rightarrow> bool" where
  "all_done log \<longleftrightarrow> list_all (\<lambda>m. case m of Done _ r \<Rightarrow> r = Inr () | _ \<Rightarrow> True) log"

lemma all_done_simps [simp]:
  "all_done []" "all_done (Done n r # log) \<longleftrightarrow> r = Inr () \<and> all_done log" "all_done (Chunk n m # log) = all_done log"
  "all_done (log @ log') \<longleftrightarrow> all_done log \<and> all_done log'" "all_done (sent_chunks n cs)"
  by (auto simp: all_done_def sent_chunks_def list_all_iff)

lemma tellings_other [simp]: "tellings (Read n room # qs) = tellings qs" "tellings (Finish # qs) = tellings qs"
  by (simp_all add: tellings_def)

text \<open>Requests that name files as the wire can carry them, of bodies that are read to their end or let go.\<close>

fun request_named :: "'v Request \<Rightarrow> bool" where
  "request_named (Read n room) \<longleftrightarrow> name_ok n \<and> reads_on room"
| "request_named (Told n v) = name_ok n"
| "request_named Finish = True"

text \<open>Among requests for bodies, wherever they stand, the verdicts before the end are all there are.\<close>

abbreviation not_read :: "'v Request \<Rightarrow> bool" where
  "not_read q \<equiv> (\<forall>n room. q \<noteq> Request.Read n room)"

lemma tellings_not_read: "tellings (filter not_read qs) = tellings qs"
proof (induction qs)
  case (Cons q qs)
  then show ?case by (cases q) simp_all
qed simp

lemma takeWhile_not_read: "filter not_read (takeWhile (\<lambda>q. q \<noteq> Finish) qs) = takeWhile (\<lambda>q. q \<noteq> Finish) (filter not_read qs)"
  by (induction qs) auto

lemma tellings_before_end:
  assumes "filter not_read qs = tolds @ [Finish]" "\<forall>q \<in> set tolds. \<exists>n v. q = Told n v"
  shows "tellings (takeWhile (\<lambda>q. q \<noteq> Finish) qs) = tellings qs" "tellings qs = tellings tolds" "Finish \<in> set qs"
proof -
  have "takeWhile (\<lambda>q. q \<noteq> Finish) (tolds @ [Finish]) = tolds" using assms(2) by (subst takeWhile_append2) auto
  then have "filter not_read (takeWhile (\<lambda>q. q \<noteq> Finish) qs) = tolds" by (simp only: takeWhile_not_read assms(1))
  then have "tellings (takeWhile (\<lambda>q. q \<noteq> Finish) qs) = tellings tolds" by (metis tellings_not_read)
  moreover have "tellings qs = tellings tolds" using tellings_not_read [of qs] by (simp add: assms(1))
  ultimately show "tellings (takeWhile (\<lambda>q. q \<noteq> Finish) qs) = tellings qs" "tellings qs = tellings tolds" by simp_all
  have "Finish \<in> set (filter not_read qs)" by (simp add: assms(1))
  then show "Finish \<in> set qs" by simp
qed

context session
begin

text \<open>Any body asked for is answered, and the session goes on, no file changed: the file's chunks, or that it could not be opened.\<close>

lemma reading_returns:
  assumes "ready X linked t s" "name_ok n" "reads_on room"
  obtains log' t' s' where "reading X K n room (t, log) = Some (Inr (), (t', log @ log'))" "ready X linked t' s'" "dones log' = []"
    "all_done log'" "content (far_end_of s') = content (far_end_of s)"
proof (cases "content (far_end_of s) n")
  case (Some b)
  have "\<not> stalls room 0 (Suc (length (chunks_from 0 b)))" using assms(3) by (cases room) simp_all
  with assms(1,2) Some show ?thesis
    by (rule reading_sends [where room = room and log = log]) (erule that, assumption, simp_all del: far_end_of_simps)
next
  case None
  obtain now r t1 s1 where o:
    "far_step (MAX_BODY X) now (Open (next_id t) n F_READ) (far_end_of s) = (r, far_end_of s1)" "ready X linked t1 s1"
    "\<And>rid c. r = StatusReply rid c \<Longrightarrow> \<exists>e. sftp_open X K n F_READ t = Some (Inl e, t1)"
    using open_reply [OF assms(1,2), of F_READ] by metis
  have r: "r = StatusReply (next_id t) NO_SUCH_FILE" and "far_end_of s1 = (far_end_of s)\<lparr>issued := issued (far_end_of s) + 1\<rparr>"
    using o(1) None by (auto simp: open_flags Let_def)
  then have same: "content (far_end_of s1) = content (far_end_of s)" by (simp del: far_end_of_simps)
  from r obtain e where "sftp_open X K n F_READ t = Some (Inl e, t1)" using o(3) by blast
  then have "reading X K n room (t, log) = Some (Inr (), (t1, log @ (if has_room room 0 then [Chunk n (Inl e)] else [])))"
    using assms(3) by (cases room) (simp_all add: reading_def sftp_open_for_reading_def send_chunk_def post_def has_room_def)
  then show ?thesis using o(2) by (rule that) (simp_all add: same del: far_end_of_simps)
qed

end

section \<open>Files accepted\<close>

text \<open>
  What a receive that takes its files relies on of the claim: that it moves each file it takes to
  a name of its own and changes nothing else, and that a file accepted is deleted.
\<close>

locale accepting = moving X C linked idle left CL
  for X :: ext and C :: "'c conns" and linked idle left and CL :: "('c, 'v) claims" +
  fixes accepted :: 'v
  assumes accept_deletes: "ready X linked t s \<Longrightarrow> name_ok n \<Longrightarrow> \<exists>t' s'. claim_told CL n (Some accepted) t = Some (Inr (), t')
      \<and> ready X linked t' s' \<and> content (far_end_of s') = (content (far_end_of s))(n := None)"

text \<open>An arrival taken: its body read to its end, then its acceptance told; and what it is sent.\<close>

definition taking :: "'v \<Rightarrow> Taken \<Rightarrow> 'v Request list" where
  "taking v k = [Read (claimed k) Whole, Told (claimed k) (Some v)]"

definition delivered :: "(string \<rightharpoonup> bytes) \<Rightarrow> Taken \<Rightarrow> sent list" where
  "delivered m k = sent_chunks (claimed k) (chunks_from 0 (the (m (dropped k))))
     @ [Chunk (claimed k) (Inr None), Done (claimed k) (Inr ())]"

context accepting
begin

lemma answering_accepts:
  assumes "ready X linked t s" "distinct (map claimed ks)"
    "\<forall>k \<in> set ks. name_ok (claimed k) \<and> content (far_end_of s) (claimed k) = m (dropped k) \<and> m (dropped k) \<noteq> None"
  shows "\<exists>t' s'. answering X (ch C) CL (concat (map (taking accepted) ks) @ [Finish]) (t, log) =
      Some (Inr True, (t', log @ concat (map (delivered m) ks))) \<and> ready X linked t' s'
    \<and> content (far_end_of s') = content (far_end_of s) |` (- set (map claimed ks))"
  using assms
proof (induction ks arbitrary: t s log)
  case (Cons k ks)
  then obtain b where b: "name_ok (claimed k)" "content (far_end_of s) (claimed k) = Some b" "m (dropped k) = Some b" by fastforce
  obtain t1 s1 where r: "reading X (ch C) (claimed k) Whole (t, log) = Some (Inr (), (t1,
      log @ sent_chunks (claimed k) (takes Whole 0 (chunks_from 0 b))
        @ (if has_room Whole (length (chunks_from 0 b)) then [Chunk (claimed k) (Inr None)] else [])))"
    "ready X linked t1 s1" "content (far_end_of s1) = content (far_end_of s)"
    by (rule reading_sends [OF Cons.prems(1) b(1,2), where room = Whole and log = log]) simp_all
  obtain t2 s2 where a: "claim_told CL (claimed k) (Some accepted) t1 = Some (Inr (), t2)" "ready X linked t2 s2"
      "content (far_end_of s2) = (content (far_end_of s1))(claimed k := None)"
    using accept_deletes [OF r(2) b(1)] by blast
  have "\<forall>k \<in> set ks. name_ok (claimed k) \<and> content (far_end_of s2) (claimed k) = m (dropped k) \<and> m (dropped k) \<noteq> None"
    using Cons.prems(2,3) by (auto simp: a(3) r(3) image_iff simp del: far_end_of_simps)
  then obtain t' s' where i: "answering X (ch C) CL (concat (map (taking accepted) ks) @ [Finish]) (t2, log @ delivered m k) =
      Some (Inr True, (t', (log @ delivered m k) @ concat (map (delivered m) ks)))" "ready X linked t' s'"
      "content (far_end_of s') = content (far_end_of s2) |` (- set (map claimed ks))"
    using Cons.IH [OF a(2)] Cons.prems(2) by (metis distinct.simps(2) list.simps(9))
  have "content (far_end_of s') = content (far_end_of s) |` (- set (map claimed (k # ks)))"
    by (auto simp: i(3) a(3) r(3) restrict_map_def fun_eq_iff simp del: far_end_of_simps)
  moreover have "answering X (ch C) CL (concat (map (taking accepted) (k # ks)) @ [Finish]) (t, log) =
      Some (Inr True, (t', log @ concat (map (delivered m) (k # ks))))"
    using r(1) a(1) i(1) b(3) by (simp add: taking_def delivered_def takes_def has_room_def post_def)
  ultimately show ?case using i(2) by blast
qed (auto simp: restrict_map_def)

lemma harvest_accepts:
  assumes "idle c d" "dir_wf d" "dir_bounded X d"
    "listing_size (far_end_of \<lparr>dir = d, handles = [], next_handle = 0\<rparr>) < 2 ^ 30"
  obtains taken c' d' where "length taken \<le> most" "claims_of (bt_get (files d)) taken"
    "harvesting X C CL most (concat (map (taking accepted) taken) @ [Finish]) c =
      Some (Here c', if taken = [] then [ClientBack, Listed (Inr [])]
        else Listed (Inr taken) # concat (map (delivered (bt_get (files d))) taken) @ [ClientBack, Finished])"
    "left c' d'" "dir_wf d'" "bt_get (files d') = bt_get (files d) |` (- set (map dropped taken))"
    "\<exists>t s t'. ready X linked t s \<and> content (far_end_of s) = bt_get (files d) \<and> claim_take CL most t = Some (Inr taken, t')"
proof -
  obtain t s where o: "ready X linked t s" "far_end_of s = far_end_of \<lparr>dir = d, handles = [], next_handle = 0\<rparr>"
    "\<And>taken t1 s1 qs log t' s'. claim_take CL most t = Some (Inr taken, t1) \<Longrightarrow> ready X linked t1 s1 \<Longrightarrow>
       answering X (ch C) CL qs (t1, [Listed (Inr taken)]) = Some (Inr True, (t', Listed (Inr taken) # log)) \<Longrightarrow> ready X linked t' s' \<Longrightarrow>
       \<exists>c'. harvesting X C CL most qs c = Some (Here c', if taken = [] then [ClientBack, Listed (Inr [])]
              else Listed (Inr taken) # log @ [ClientBack, Finished]) \<and> left c' (dir (if taken = [] then s1 else s'))"
    by (rule harvest_opened [OF assms(1-3), of CL most]) blast
  have m: "content (far_end_of s) = bt_get (files d)" by (simp add: o(2))
  have "listing_size (far_end_of s) < 2 ^ 30" using assms(4) by (simp only: o(2))
  then obtain taken t1 s1 where k: "claim_take CL most t = Some (Inr taken, t1)" "ready X linked t1 s1" "length taken \<le> most"
      "claims_of (bt_get (files d)) taken" "content (far_end_of s1) = moved taken (bt_get (files d))"
    using take_moves [OF o(1)] unfolding m by blast
  have "\<forall>k \<in> set taken. name_ok (claimed k) \<and> content (far_end_of s1) (claimed k) = bt_get (files d) (dropped k)
      \<and> bt_get (files d) (dropped k) \<noteq> None"
    using claims_present [OF k(4)] moved_claimed [OF k(4)] by (simp add: k(5) del: far_end_of_simps)
  then obtain t' s' where a: "answering X (ch C) CL (concat (map (taking accepted) taken) @ [Finish]) (t1, [Listed (Inr taken)]) =
      Some (Inr True, (t', Listed (Inr taken) # concat (map (delivered (bt_get (files d))) taken)))" "ready X linked t' s'"
      "content (far_end_of s') = moved taken (bt_get (files d)) |` (- set (map claimed taken))"
    using answering_accepts [OF k(2), of taken "bt_get (files d)" "[Listed (Inr taken)]"] k(4)
    unfolding k(5) claims_of_def append_Cons append_Nil by blast
  let ?s = "if taken = [] then s1 else s'"
  have "content (far_end_of ?s) = bt_get (files d) |` (- set (map dropped taken))"
    using k(5) a(3) [unfolded moved_removed [OF k(4)]]
    by (cases "taken = []") (simp_all add: restrict_map_def [of _ UNIV] del: far_end_of_simps)
  then have "dir_wf (dir ?s)" "bt_get (files (dir ?s)) = bt_get (files d) |` (- set (map dropped taken))"
    using ready_dir k(2) a(2) by simp_all
  moreover have "\<exists>t s t'. ready X linked t s \<and> content (far_end_of s) = bt_get (files d) \<and> claim_take CL most t = Some (Inr taken, t')"
    using o(1) m k(1) by blast
  ultimately show ?thesis using o(3) [OF k(1,2) a(1,2)] k(3,4) by (blast intro: that)
qed

end

text \<open>The claim made of the site's operations keeps this over every connection that keeps its own laws.\<close>

lemma site_accepting:
  assumes "one_channel X C linked idle left"
  shows "accepting X C linked idle left (site_claims X (ch C)) True"
proof (rule accepting.intro [OF site_moving [OF assms]], unfold_locales)
  note S = one_channel.axioms(1) [OF assms]
  show "\<exists>t' s'. claim_told (site_claims X (ch C)) n (Some True) t = Some (Inr (), t') \<and> ready X linked t' s'
      \<and> content (far_end_of s') = (content (far_end_of s))(n := None)"
    if "ready X linked t s" "name_ok n" for n t s
    by (rule session.claim_settled_returns [OF S that, of "Some True"]) (auto simp: site_claims_def simp del: far_end_of_simps)
qed

interpretation site_accepted: accepting "rfc4251 67108864" "taped_conns (rfc4251 67108864) clock"
  "taped_linked (rfc4251 67108864) clock d0 pss" "taped_at (rfc4251 67108864) clock d0 pss" "taped_past (rfc4251 67108864) clock d0 pss"
  "site_claims (rfc4251 67108864) (ch (taped_conns (rfc4251 67108864) clock))" True
  by (rule site_accepting) (rule taped_once.one_channel_axioms)

text \<open>What a server makes of a tape with channels on it.\<close>

lemma tape_is_served:
  assumes "relays C V host check (who, sid) stream" "taped_past X clock (directory_new old) pss c d" "Suc (length pss) \<le> usize_max"
  shows "server_serve X C V clock (stream (t_channels c)) host old check =
    Some (Inr \<lparr>served_files = files d, served_who = who, served_session_id = sid\<rparr>)"
proof -
  have "max 1 usize_max = usize_max" by (simp add: usize_max_def)
  then have "serve_each X clock 0 (take (max 1 usize_max) (t_channels c)) (directory_new old) = (Inr (), d)" "t_channels c \<noteq> []"
    using assms(2,3) by (auto simp: taped_past_def taped_idle_def)
  then show ?thesis unfolding server_serve_def using serve_channels_relayed [OF assms(1)] by blast
qed

text \<open>The tape after its puts, and the size of its listing.\<close>

lemma put_all_tape:
  assumes "limits X" "dir_wf (directory_new old)" "dir_bounded X (directory_new old)" "puts_ok X fs"
  obtains c d where "put_all X (taped_conns X clock) fs (blank (directory_new old)) = Some (Inr (), c)" "length (t_channels c) = length fs"
    "taped_at X clock (directory_new old) (t_channels c) c d" "dir_wf d" "dir_bounded X d"
    "bt_get (files d) = bt_get old ++ map_of (rev fs)"
proof -
  from taped_put_all [OF assms(1) idle_blank assms(2-4), of clock] obtain c d d' where
    "put_all X (taped_conns X clock) fs (blank (directory_new old)) = Some (Inr (), c)" "length (t_channels c) = length fs"
    "taped_idle X clock (directory_new old) c d'" "dir_bounded X d'"
    "serve_each X clock 0 (t_channels c) (directory_new old) = (Inr (), d)"
    "bt_get (files d) = bt_get old ++ map_of (rev fs)" "dir_wf d"
    by (auto dest: spec [of _ "length fs"])
  then show ?thesis by (intro that [of c d]) (simp_all add: taped_at_def taped_idle_def)
qed

lemma listing_size_sum: "listing_size (far_end_of s) = (\<Sum>n\<in>dom (bt_get (files (dir s))). 2 * length n + 28)"
  by (simp add: listing_size_def sum_list_distinct_conv_sum_set bt.finite_dom_get)

section \<open>Properties\<close>

text \<open>
  C9. What is sent is received, and then gone: files put one after another over a connection, and
  a receive over its next channel whose arrivals are read to their ends and accepted. The receive
  claims at most what was asked, each a file of the directory under a name that was free; each
  arrival is sent exactly the file that was dropped, in order, then its end, then its
  acceptance; the client is back before the end is told; and the server, served the channels of
  this connection, ends with every file it had or was put but those taken. The claim is any that
  changes only the files it takes and deletes those accepted; one that also settles files of
  earlier claims, recovering or holding them, is not covered.
\<close>

theorem sent_files_are_harvested:
  assumes "limits X" "dir_wf (directory_new old)" "dir_bounded X (directory_new old)" "puts_ok X fs" "length fs < usize_max"
    "m = bt_get old ++ map_of (rev fs)" "(\<Sum>n\<in>dom m. 2 * length n + 28) < 2 ^ 30"
    "\<And>pss. accepting X (taped_conns X clock) (taped_linked X clock (directory_new old) pss)
       (taped_at X clock (directory_new old) pss) (taped_past X clock (directory_new old) pss) CL accepted"
    "relays C V host check (who, sid) stream"
  shows "\<exists>c taken c' served. put_all X (taped_conns X clock) fs (blank (directory_new old)) = Some (Inr (), c)
    \<and> length taken \<le> most \<and> claims_of m taken
    \<and> harvesting X (taped_conns X clock) CL most (concat (map (taking accepted) taken) @ [Finish]) c =
        Some (Here c', if taken = [] then [ClientBack, Listed (Inr [])]
          else Listed (Inr taken) # concat (map (delivered m) taken) @ [ClientBack, Finished])
    \<and> server_serve X C V clock (stream (t_channels c')) host old check = Some (Inr served)
    \<and> bt_get (served_files served) = m |` (- set (map dropped taken)) \<and> served_who served = who"
proof -
  let ?d0 = "directory_new old" and ?C = "taped_conns X clock"
  obtain c d where c: "put_all X ?C fs (blank ?d0) = Some (Inr (), c)" "length (t_channels c) = length fs"
      "taped_at X clock ?d0 (t_channels c) c d" "dir_wf d" "dir_bounded X d" "bt_get (files d) = m"
    unfolding assms(6) by (rule put_all_tape [OF assms(1-4)])
  have "listing_size (far_end_of \<lparr>dir = d, handles = [], next_handle = 0\<rparr>) < 2 ^ 30"
    using assms(7) c(6) by (simp add: listing_size_sum)
  then obtain taken c' d' where h: "length taken \<le> most" "claims_of m taken"
      "harvesting X ?C CL most (concat (map (taking accepted) taken) @ [Finish]) c =
        Some (Here c', if taken = [] then [ClientBack, Listed (Inr [])]
          else Listed (Inr taken) # concat (map (delivered m) taken) @ [ClientBack, Finished])"
      "taped_past X clock ?d0 (t_channels c) c' d'" "bt_get (files d') = m |` (- set (map dropped taken))"
    by (rule accepting.harvest_accepts [OF assms(8) c(3-5), unfolded c(6)])
  have "server_serve X C V clock (stream (t_channels c')) host old check =
      Some (Inr \<lparr>served_files = files d', served_who = who, served_session_id = sid\<rparr>)"
    using tape_is_served [OF assms(9) h(4)] assms(5) c(2) by simp
  with c(1) h(1-3,5) show ?thesis
    by - (rule exI [of _ c], rule exI [of _ taken], rule exI [of _ c'], simp)
qed

theorem sent_files_are_harvested_witness:
  "\<exists>c taken c' served. put_all std_ext (taped_conns std_ext (\<lambda>_ _. 0)) [(''a'', [1, 2]), (''b'', [3])] (blank (directory_new [])) = Some (Inr (), c)
    \<and> length taken \<le> 1 \<and> claims_of [''a'' \<mapsto> [1, 2], ''b'' \<mapsto> [3]] taken
    \<and> harvesting std_ext (taped_conns std_ext (\<lambda>_ _. 0)) (site_claims std_ext (ch (taped_conns std_ext (\<lambda>_ _. 0)))) 1
        (concat (map (taking True) taken) @ [Finish]) c =
        Some (Here c', if taken = [] then [ClientBack, Listed (Inr [])]
          else Listed (Inr taken) # concat (map (delivered [''a'' \<mapsto> [1, 2], ''b'' \<mapsto> [3]]) taken) @ [ClientBack, Finished])
    \<and> server_serve std_ext scripts sample_server (\<lambda>_ _. 0) (t_channels c') () [] ''u'' = Some (Inr served)
    \<and> bt_get (served_files served) = [''a'' \<mapsto> [1, 2], ''b'' \<mapsto> [3]] |` (- set (map dropped taken))"
proof -
  let ?fs = "[(''a'', [1, 2]), (''b'', [3])]" and ?m = "[''a'' \<mapsto> [1, 2], ''b'' \<mapsto> [3]]"
  have "puts_ok std_ext ?fs" "length ?fs < usize_max" "?m = bt_get [] ++ map_of (rev ?fs)"
    by (simp_all add: puts_ok_def sample_names rfc4251_def usize_max_def)
  moreover have "(\<Sum>n\<in>dom ?m. 2 * length n + 28) < 2 ^ 30" by simp
  ultimately show ?thesis
    using sent_files_are_harvested [OF rfc_limits.limits_axioms empty_directory _ _ _ _ site_accepted.accepting_axioms relays_scripts,
        of ?fs ?m "\<lambda>_ _. 0" 1 "''u''"]
    by blast
qed

end
