(* ===== verification/Verdicts.thy ===== *)
theory Verdicts
  imports Harvest
begin

unbundle bit_operations_syntax

text \<open>
  What the verdicts of a receive leave on the server. The arrivals of one harvest are read and
  judged in any order; a file accepted is removed, any other is returned under the name it was
  dropped under (\<open>connection.rs\<close>: \<open>Accepted\<close> removes the claimed file, \<open>Refused\<close> and \<open>Failed\<close>
  rename it back, and so does an arrival let go).
\<close>

section \<open>What the harvest relies on of a claim that judges\<close>

text \<open>
  \<open>accepts v\<close>: the verdict, or its absence, removes the file; \<open>home n\<close> is the name a claimed file
  was dropped under.
\<close>

locale judging = one_channel X C linked idle left
  for X :: ext and C :: "'c conns" and linked idle left +
  fixes CL :: "('c, 'v) claims" and accepts :: "'v option \<Rightarrow> bool" and home :: "string \<Rightarrow> string"
  assumes take_claims: "ready X linked t s \<Longrightarrow> listing_size (far_end_of s) < 2 ^ 30 \<Longrightarrow> \<exists>taken t' s'. claim_take CL most t = Some (Inr taken, t')
      \<and> ready X linked t' s' \<and> length taken \<le> most \<and> claims_of (content (far_end_of s)) taken
      \<and> map dropped taken = map (home \<circ> claimed) taken \<and> content (far_end_of s') = moved taken (content (far_end_of s))"
    and accepted_removed: "ready X linked t s \<Longrightarrow> name_ok n \<Longrightarrow> accepts v \<Longrightarrow> \<exists>t' s'. claim_told CL n v t = Some (Inr (), t')
      \<and> ready X linked t' s' \<and> content (far_end_of s') = (content (far_end_of s))(n := None)"
    and other_returned: "ready X linked t s \<Longrightarrow> name_ok n \<Longrightarrow> name_ok (home n) \<Longrightarrow> \<not> accepts v \<Longrightarrow>
      content (far_end_of s) n = Some b \<Longrightarrow> content (far_end_of s) (home n) = None \<Longrightarrow> \<exists>t' s'. claim_told CL n v t = Some (Inr (), t')
      \<and> ready X linked t' s' \<and> content (far_end_of s') = (content (far_end_of s))(n := None, home n \<mapsto> b)"

sublocale judging \<subseteq> moving X C linked idle left CL
  by unfold_locales (use take_claims in blast)

text \<open>The names that verdicts remove.\<close>

definition removals :: "('v option \<Rightarrow> bool) \<Rightarrow> (string \<Rightarrow> string) \<Rightarrow> (string \<times> 'v option) list \<Rightarrow> string set" where
  "removals accepts home tds = set (map (home \<circ> fst) (filter (accepts \<circ> snd) tds))"

lemma removals_simps [simp]:
  "removals accepts home [] = {}"
  "removals accepts home ((n, v) # tds) = (if accepts v then insert (home n) (removals accepts home tds) else removals accepts home tds)"
  by (simp_all add: removals_def)

context judging
begin

text \<open>A claim told its verdict, whichever of those pending it is.\<close>

lemma told_settles:
  assumes "ready X linked t s" "claims_of m (k # ks)" "dropped k = home (claimed k)" "content (far_end_of s) = moved (k # ks) m"
  obtains t' s' where "claim_told CL (claimed k) v t = Some (Inr (), t')" "ready X linked t' s'"
    "content (far_end_of s') = moved ks (if accepts v then m(dropped k := None) else m)"
proof -
  note f = moved_first [OF assms(2)]
  have ok: "name_ok (claimed k)" "name_ok (home (claimed k))" "claimed k \<noteq> dropped k"
    using assms(2,3) by (auto simp: claims_of_def)
  show ?thesis
  proof (cases "accepts v")
    case True
    then obtain t' s' where "claim_told CL (claimed k) v t = Some (Inr (), t')" "ready X linked t' s'"
        "content (far_end_of s') = (moved (k # ks) m)(claimed k := None)"
      using accepted_removed [OF assms(1) ok(1)] unfolding assms(4) by blast
    moreover have "(moved (k # ks) m)(claimed k := None) = (moved ks m)(dropped k := None)"
      using f(4) ok(3) by (auto simp: f(1) fun_eq_iff)
    ultimately show ?thesis using True by (intro that) (simp_all add: f(7) del: far_end_of_simps)
  next
    case False
    obtain b where b: "m (dropped k) = Some b" using assms(2) by (auto simp: claims_of_def)
    have "content (far_end_of s) (claimed k) = Some b" "content (far_end_of s) (home (claimed k)) = None"
      using f(1,2) b by (simp_all add: assms(4) flip: assms(3) del: far_end_of_simps)
    then obtain t' s' where "claim_told CL (claimed k) v t = Some (Inr (), t')" "ready X linked t' s'"
        "content (far_end_of s') = (moved (k # ks) m)(claimed k := None, dropped k \<mapsto> b)"
      using other_returned [OF assms(1) ok(1,2) False] unfolding assms(3,4) by blast
    moreover have "(moved (k # ks) m)(claimed k := None, dropped k \<mapsto> b) = moved ks m"
      using f(3,4) b by (auto simp: f(1) fun_eq_iff)
    ultimately show ?thesis using False by (intro that) (simp_all del: far_end_of_simps)
  qed
qed

lemma told_pending:
  assumes "ready X linked t s" "claims_of m ks" "\<forall>k \<in> set ks. dropped k = home (claimed k)" "content (far_end_of s) = moved ks m"
    "n \<in> claimed ` set ks"
  obtains js m' t' s' where "claim_told CL n v t = Some (Inr (), t')" "ready X linked t' s'" "content (far_end_of s') = moved js m'"
    "claims_of m' js" "\<forall>k \<in> set js. dropped k = home (claimed k)" "mset (map claimed ks) = mset (n # map claimed js)"
    "\<forall>R. m' |` (- R) = m |` (- (if accepts v then insert (home n) R else R))"
proof -
  obtain k where k: "k \<in> set ks" "claimed k = n" using assms(5) by blast
  let ?js = "remove1 k ks" and ?m = "if accepts v then m(dropped k := None) else m"
  have js: "mset ks = mset (k # ?js)" using k(1) by simp
  note p = moved_perm [OF assms(2) js]
  have home: "dropped k = home (claimed k)" "\<forall>k \<in> set ?js. dropped k = home (claimed k)"
    using assms(3) k(1) set_remove1_subset [of k ks] by blast+
  have at: "content (far_end_of s) = moved (k # ?js) m" using assms(4) by (simp only: p(2))
  obtain t' s' where "claim_told CL n v t = Some (Inr (), t')" "ready X linked t' s'" "content (far_end_of s') = moved ?js ?m"
    by (rule told_settles [OF assms(1) p(1) home(1) at, of v, unfolded k(2)])
  moreover have "claims_of ?m ?js" using moved_first(5,6) [OF p(1)] by simp
  moreover have "mset (map claimed ks) = mset (n # map claimed ?js)" using k(2) arg_cong [OF js, of "image_mset claimed"] by simp
  moreover have "\<forall>R. ?m |` (- R) = m |` (- (if accepts v then insert (home n) R else R))"
    using home(1) k(2) by (auto simp: restrict_map_def fun_eq_iff)
  ultimately show ?thesis using home(2) by (intro that)
qed

text \<open>The arrivals answered to the end: each claim pending is told once, whatever is read in between.\<close>

lemma answering_settles:
  assumes "ready X linked t s" "list_all request_named qs" "Finish \<in> set qs" "claims_of m ks" "\<forall>k \<in> set ks. dropped k = home (claimed k)"
    "mset (map fst (tellings (takeWhile (\<lambda>q. q \<noteq> Finish) qs))) = mset (map claimed ks)" "content (far_end_of s) = moved ks m"
  shows "\<exists>log' t' s'. answering X (ch C) CL qs (t, log) = Some (Inr True, (t', log @ log')) \<and> ready X linked t' s'
    \<and> dones log' = map fst (tellings (takeWhile (\<lambda>q. q \<noteq> Finish) qs)) \<and> all_done log'
    \<and> content (far_end_of s') = m |` (- removals accepts home (tellings (takeWhile (\<lambda>q. q \<noteq> Finish) qs)))"
  using assms
proof (induction qs arbitrary: t s log m ks)
  case (Cons q qs)
  show ?case
  proof (cases q)
    case (Read n room)
    then have "name_ok n" "reads_on room" using Cons.prems(2) by simp_all
    then obtain log1 t1 s1 where r: "reading X (ch C) n room (t, log) = Some (Inr (), (t1, log @ log1))" "ready X linked t1 s1"
        "dones log1 = []" "all_done log1" "content (far_end_of s1) = moved ks m"
      by (rule reading_returns [OF Cons.prems(1)]) (use Cons.prems(7) in \<open>simp del: far_end_of_simps\<close>)
    have "mset (map fst (tellings (takeWhile (\<lambda>q. q \<noteq> Finish) qs))) = mset (map claimed ks)" "list_all request_named qs" "Finish \<in> set qs"
      using Cons.prems(2,3,6) Read by simp_all
    from Cons.IH [OF r(2) this(2,3) Cons.prems(4,5) this(1) r(5), of "log @ log1"] obtain log' t' s' where
        "answering X (ch C) CL qs (t1, log @ log1) = Some (Inr True, (t', (log @ log1) @ log'))" "ready X linked t' s'"
        "dones log' = map fst (tellings (takeWhile (\<lambda>q. q \<noteq> Finish) qs))" "all_done log'"
        "content (far_end_of s') = m |` (- removals accepts home (tellings (takeWhile (\<lambda>q. q \<noteq> Finish) qs)))"
      by blast
    with r(1,3,4) Read show ?thesis
      by (intro exI [of _ "log1 @ log'"] exI [of _ t'] exI [of _ s']) (simp del: far_end_of_simps)
  next
    case (Told n v)
    let ?rest = "tellings (takeWhile (\<lambda>q. q \<noteq> Finish) qs)"
    have "mset (n # map fst ?rest) = mset (map claimed ks)" using Cons.prems(6) Told by simp
    note told = this mset_eq_setD [OF this]
    have "n \<in> claimed ` set ks" using told(2) by auto
    then obtain js m' t1 s1 where
      r: "claim_told CL n v t = Some (Inr (), t1)" "ready X linked t1 s1" "content (far_end_of s1) = moved js m'"
        "claims_of m' js" "\<forall>k \<in> set js. dropped k = home (claimed k)" "mset (map claimed ks) = mset (n # map claimed js)"
        "\<forall>R. m' |` (- R) = m |` (- (if accepts v then insert (home n) R else R))"
      by (rule told_pending [OF Cons.prems(1,4,5,7), of n v])
    have "mset (map fst ?rest) = mset (map claimed js)" using told(1) r(6) by simp
    moreover have "list_all request_named qs" "Finish \<in> set qs" using Cons.prems(2,3) Told by simp_all
    ultimately obtain log' t' s' where i: "answering X (ch C) CL qs (t1, log @ [Done n (Inr ())]) = Some (Inr True, (t', (log @ [Done n (Inr ())]) @ log'))"
        "ready X linked t' s'" "dones log' = map fst ?rest" "all_done log'" "content (far_end_of s') = m' |` (- removals accepts home ?rest)"
      using Cons.IH [OF r(2) _ _ r(4,5) _ r(3), of "log @ [Done n (Inr ())]"] by blast
    with r(1) Told show ?thesis
      by (intro exI [of _ "Done n (Inr ()) # log'"] exI [of _ t'] exI [of _ s']) (simp add: post_def r(7) del: far_end_of_simps)
  next
    case Finish
    then show ?thesis using Cons.prems by (auto intro!: exI)
  qed
qed simp

lemma harvest_settles:
  assumes "idle c d" "dir_wf d" "dir_bounded X d"
    "listing_size (far_end_of \<lparr>dir = d, handles = [], next_handle = 0\<rparr>) < 2 ^ 30"
    "\<And>taken. list_all (name_ok \<circ> claimed) taken \<Longrightarrow> list_all request_named (qs taken)" "\<And>taken. Finish \<in> set (qs taken)"
    "\<And>taken. mset (map fst (tellings (takeWhile (\<lambda>q. q \<noteq> Finish) (qs taken)))) = mset (map claimed taken)"
  obtains taken log c' d' where "length taken \<le> most" "claims_of (bt_get (files d)) taken" "map dropped taken = map (home \<circ> claimed) taken"
    "harvesting X C CL most (qs taken) c = Some (Here c', if taken = [] then [ClientBack, Listed (Inr [])]
        else Listed (Inr taken) # log @ [ClientBack, Finished])"
    "left c' d'" "dir_wf d'" "dones log = map fst (tellings (takeWhile (\<lambda>q. q \<noteq> Finish) (qs taken)))" "all_done log"
    "bt_get (files d') = bt_get (files d) |` (- removals accepts home (tellings (takeWhile (\<lambda>q. q \<noteq> Finish) (qs taken))))"
proof -
  obtain t s where o: "ready X linked t s" "far_end_of s = far_end_of \<lparr>dir = d, handles = [], next_handle = 0\<rparr>"
    "\<And>taken t1 s1 qs log t' s'. claim_take CL most t = Some (Inr taken, t1) \<Longrightarrow> ready X linked t1 s1 \<Longrightarrow>
       answering X (ch C) CL qs (t1, [Listed (Inr taken)]) = Some (Inr True, (t', Listed (Inr taken) # log)) \<Longrightarrow> ready X linked t' s' \<Longrightarrow>
       \<exists>c'. harvesting X C CL most qs c = Some (Here c', if taken = [] then [ClientBack, Listed (Inr [])]
              else Listed (Inr taken) # log @ [ClientBack, Finished]) \<and> left c' (dir (if taken = [] then s1 else s'))"
    by (rule harvest_opened [OF assms(1-3), of CL most]) blast
  let ?m = "bt_get (files d)"
  have m: "content (far_end_of s) = ?m" by (simp add: o(2))
  have "listing_size (far_end_of s) < 2 ^ 30" using assms(4) by (simp only: o(2))
  then obtain taken t1 s1 where k: "claim_take CL most t = Some (Inr taken, t1)" "ready X linked t1 s1" "length taken \<le> most"
      "claims_of ?m taken" "map dropped taken = map (home \<circ> claimed) taken" "content (far_end_of s1) = moved taken ?m"
    using take_claims [OF o(1)] unfolding m by blast
  let ?told = "tellings (takeWhile (\<lambda>q. q \<noteq> Finish) (qs taken))"
  have "list_all (name_ok \<circ> claimed) taken" "\<forall>k \<in> set taken. dropped k = home (claimed k)"
    using k(4,5) by (simp_all add: claims_of_def list_all_iff)
  then obtain log t' s' where a: "answering X (ch C) CL (qs taken) (t1, [Listed (Inr taken)]) = Some (Inr True, (t', Listed (Inr taken) # log))"
      "ready X linked t' s'" "dones log = map fst ?told" "all_done log" "content (far_end_of s') = ?m |` (- removals accepts home ?told)"
    using answering_settles [OF k(2) assms(5,6) k(4) _ assms(7) k(6), of "[Listed (Inr taken)]"] by (metis append_Cons append_Nil)
  let ?s = "if taken = [] then s1 else s'"
  have "?told = []" if "taken = []" using assms(7) [of taken] that by simp
  then have "content (far_end_of ?s) = ?m |` (- removals accepts home ?told)"
    using k(6) a(5) by (cases "taken = []") (simp_all add: restrict_map_def [of _ UNIV] del: far_end_of_simps)
  then have "dir_wf (dir ?s)" "bt_get (files (dir ?s)) = ?m |` (- removals accepts home ?told)"
    using ready_dir k(2) a(2) by simp_all
  with o(3) [OF k(1,2) a(1,2)] k(3-5) a(3,4) show ?thesis by (blast intro: that)
qed

end

text \<open>The claim made of the site's operations judges so, over every connection that keeps its own laws.\<close>

lemma site_judging:
  assumes "one_channel X C linked idle left"
  shows "judging X C linked idle left (site_claims X (ch C)) (\<lambda>v. v = Some True) unclaim"
proof (rule judging.intro [OF assms], unfold_locales)
  note S = one_channel.axioms(1) [OF assms]
  show "\<exists>taken t' s'. claim_take (site_claims X (ch C)) most t = Some (Inr taken, t') \<and> ready X linked t' s' \<and> length taken \<le> most
      \<and> claims_of (content (far_end_of s)) taken \<and> map dropped taken = map (unclaim \<circ> claimed) taken
      \<and> content (far_end_of s') = moved taken (content (far_end_of s))"
    if "ready X linked t s" "listing_size (far_end_of s) < 2 ^ 30" for most t s
    by (rule session.claim_listed_returns [OF S that, of most])
      (intro exI conjI; (assumption | simp add: site_claims_def taken_of_def del: far_end_of_simps))
  show "\<exists>t' s'. claim_told (site_claims X (ch C)) n v t = Some (Inr (), t') \<and> ready X linked t' s'
      \<and> content (far_end_of s') = (content (far_end_of s))(n := None)"
    if "ready X linked t s" "name_ok n" "v = Some True" for n v t s
    by (rule session.claim_settled_returns [OF S that(1,2), of v]) (use that(3) in \<open>auto simp: site_claims_def simp del: far_end_of_simps\<close>)
  show "\<exists>t' s'. claim_told (site_claims X (ch C)) n v t = Some (Inr (), t') \<and> ready X linked t' s'
      \<and> content (far_end_of s') = (content (far_end_of s))(n := None, unclaim n \<mapsto> b)"
    if "ready X linked t s" "name_ok n" "name_ok (unclaim n)" "v \<noteq> Some True"
      "content (far_end_of s) n = Some b" "content (far_end_of s) (unclaim n) = None" for n v t s b
    by (rule session.claim_settled_returns [OF S that(1,2), of v]) (use that(4-6) in \<open>auto simp: site_claims_def simp del: far_end_of_simps\<close>)
qed

interpretation site_judged: judging "rfc4251 67108864" "taped_conns (rfc4251 67108864) clock"
  "taped_linked (rfc4251 67108864) clock d0 pss" "taped_at (rfc4251 67108864) clock d0 pss" "taped_past (rfc4251 67108864) clock d0 pss"
  "site_claims (rfc4251 67108864) (ch (taped_conns (rfc4251 67108864) clock))" "\<lambda>v. v = Some True" unclaim
  by (rule site_judging) (rule taped_once.one_channel_axioms)

text \<open>The files removed, by their place among those claimed.\<close>

definition accepted_names :: "('v option \<Rightarrow> bool) \<Rightarrow> Taken list \<Rightarrow> (nat \<times> 'v option) list \<Rightarrow> string set" where
  "accepted_names accepts taken events = set (map (\<lambda>(at, _). dropped (taken ! at)) (filter (\<lambda>(_, v). accepts v) events))"

lemma verdicts_by_name:
  assumes "mset (map fst events) = mset [0..<length taken]" "mset tds = mset (verdicts_of (map claimed taken) events)"
  shows "mset (map fst tds) = mset (map claimed taken)"
proof -
  have "mset (map fst tds) = image_mset ((!) (map claimed taken)) (mset (map fst events))"
    using arg_cong [OF assms(2), of "image_mset fst"] by (simp add: verdicts_of_def image_mset.compositionality comp_def case_prod_unfold)
  also have "\<dots> = mset (map ((!) (map claimed taken)) [0..<length (map claimed taken)])"
    by (subst assms(1)) simp
  finally show ?thesis by (simp only: map_nth)
qed

lemma removals_by_place:
  assumes "mset (map fst events) = mset [0..<length taken]" "mset tds = mset (verdicts_of (map claimed taken) events)"
    "map dropped taken = map (home \<circ> claimed) taken"
  shows "removals accepts home tds = accepted_names accepts taken events"
proof -
  have at: "at < length taken" if "(at, v) \<in> set events" for at v
    using that mset_eq_setD [OF assms(1)] by (force simp: image_iff)
  have home: "home (claimed (taken ! at)) = dropped (taken ! at)" if "at < length taken" for at
    using arg_cong [OF assms(3), of "\<lambda>xs. xs ! at"] that by simp
  have "set tds = set (verdicts_of (map claimed taken) events)" using assms(2) by (rule mset_eq_setD)
  then have "set (filter (accepts \<circ> snd) tds) = set (filter (accepts \<circ> snd) (verdicts_of (map claimed taken) events))" by simp
  also have "\<dots> = set (verdicts_of (map claimed taken) (filter (accepts \<circ> snd) events))"
    by (simp add: verdicts_of_def filter_map comp_def case_prod_unfold)
  finally have "removals accepts home tds = (\<lambda>e. home (map claimed taken ! fst e)) ` set (filter (accepts \<circ> snd) events)"
    by (simp only: removals_def set_map) (simp add: verdicts_of_def image_image case_prod_unfold)
  also have "\<dots> = (\<lambda>e. dropped (taken ! fst e)) ` set (filter (accepts \<circ> snd) events)"
    using at home by (intro image_cong) auto
  finally show ?thesis by (simp add: accepted_names_def case_prod_unfold comp_def)
qed

section \<open>Properties\<close>

text \<open>
  C10. A receive loses nothing and keeps nothing it was not asked to: whatever bodies its arrivals
  read, to their ends or let go before, in whatever order they are given verdicts or let go, one event each, the server's
  directory is then what it was without exactly the files that were accepted, every other file
  back under the name it was dropped under with its content; every verdict was answered, each
  claimed file's once; and the client is back before the end is told. The claim is any that
  changes only the files it takes, removes those accepted and returns the others; one that also
  settles files of earlier claims when it takes, recovering or holding them, is not covered.
\<close>

theorem verdicts_decide_what_stays:
  assumes "judging X C linked idle left CL accepts home" "idle c d" "dir_wf d" "dir_bounded X d"
    "listing_size (far_end_of \<lparr>dir = d, handles = [], next_handle = 0\<rparr>) < 2 ^ 30"
    "\<And>taken. mset (map fst (events taken)) = mset [0..<length taken]"
    "\<And>taken. filter not_read (qs taken) = asked (map claimed taken) (events taken)"
    "\<And>taken. list_all (name_ok \<circ> claimed) taken \<longrightarrow> list_all request_named (qs taken)"
  shows "\<exists>taken log c' d'. length taken \<le> most \<and> claims_of (bt_get (files d)) taken
    \<and> harvesting X C CL most (qs taken) c = Some (Here c', if taken = [] then [ClientBack, Listed (Inr [])]
        else Listed (Inr taken) # log @ [ClientBack, Finished])
    \<and> left c' d' \<and> dir_wf d' \<and> all_done log \<and> mset (dones log) = mset (map claimed taken)
    \<and> bt_get (files d') = bt_get (files d) |` (- accepted_names accepts taken (events taken))"
proof -
  have told: "mset (tellings (takeWhile (\<lambda>q. q \<noteq> Finish) (qs taken))) = mset (verdicts_of (map claimed taken) (events taken))"
    "Finish \<in> set (qs taken)" for taken
  proof -
    obtain tolds where tolds: "asked (map claimed taken) (events taken) = tolds @ [Finish]" "\<forall>q \<in> set tolds. \<exists>n v. q = Told n v"
        "mset (tellings tolds) = mset (verdicts_of (map claimed taken) (events taken))"
      using asked_tellings [of "events taken" "map claimed taken"] assms(6) by (metis length_map)
    then show "mset (tellings (takeWhile (\<lambda>q. q \<noteq> Finish) (qs taken))) = mset (verdicts_of (map claimed taken) (events taken))"
      "Finish \<in> set (qs taken)"
      using tellings_before_end [OF assms(7) [of taken, unfolded tolds(1)] tolds(2)] by simp_all
  qed
  note names = verdicts_by_name [OF assms(6) told(1)]
  obtain taken log c' d' where h: "length taken \<le> most" "claims_of (bt_get (files d)) taken" "map dropped taken = map (home \<circ> claimed) taken"
    "harvesting X C CL most (qs taken) c = Some (Here c', if taken = [] then [ClientBack, Listed (Inr [])]
        else Listed (Inr taken) # log @ [ClientBack, Finished])"
    "left c' d'" "dir_wf d'" "dones log = map fst (tellings (takeWhile (\<lambda>q. q \<noteq> Finish) (qs taken)))" "all_done log"
    "bt_get (files d') = bt_get (files d) |` (- removals accepts home (tellings (takeWhile (\<lambda>q. q \<noteq> Finish) (qs taken))))"
    by (rule judging.harvest_settles [OF assms(1-5) assms(8) [rule_format] told(2) names])
  have "mset (dones log) = mset (map claimed taken)" using h(7) names by (simp only:)
  moreover have "bt_get (files d') = bt_get (files d) |` (- accepted_names accepts taken (events taken))"
    using h(9) unfolding removals_by_place [OF assms(6) told(1) h(3)] .
  ultimately show ?thesis using h(1,2,4-6,8) by blast
qed

text \<open>Of two files, each read whole, the first accepted and any other let go.\<close>

definition first_accepted :: "Taken list \<Rightarrow> (nat \<times> bool option) list" where
  "first_accepted taken = map (\<lambda>at. (at, if at = 0 then Some True else None)) [0..<length taken]"

definition read_then_judged :: "Taken list \<Rightarrow> bool Request list" where
  "read_then_judged taken = map (\<lambda>k. Request.Read (claimed k) Whole) taken @ asked (map claimed taken) (first_accepted taken)"

lemma first_accepted_places: "mset (map fst (first_accepted taken)) = mset [0..<length taken]"
  by (simp add: first_accepted_def comp_def)

lemma read_then_judged_asks:
  "filter not_read (read_then_judged taken) = asked (map claimed taken) (first_accepted taken)"
  "list_all (name_ok \<circ> claimed) taken \<longrightarrow> list_all request_named (read_then_judged taken)"
proof -
  obtain tolds where tolds: "asked (map claimed taken) (first_accepted taken) = tolds @ [Finish]" "\<forall>q \<in> set tolds. \<exists>n v. q = Told n v"
      "mset (tellings tolds) = mset (verdicts_of (map claimed taken) (first_accepted taken))"
    using asked_tellings [of "first_accepted taken" "map claimed taken"] first_accepted_places by (metis length_map)
  then have "filter not_read (tolds @ [Finish]) = tolds @ [Finish]" by (intro filter_True) auto
  moreover have "filter not_read (map (\<lambda>k. Request.Read (claimed k) Whole :: bool Request) taken) = []" by (simp add: filter_empty_conv)
  ultimately show "filter not_read (read_then_judged taken) = asked (map claimed taken) (first_accepted taken)"
    by (simp only: read_then_judged_def tolds(1) filter_append append_Nil)
  have told: "fst ` set (tellings tolds) = set (map claimed taken)"
    using mset_eq_setD [OF verdicts_by_name [OF first_accepted_places tolds(3)]] by simp
  show "list_all (name_ok \<circ> claimed) taken \<longrightarrow> list_all request_named (read_then_judged taken)"
  proof
    assume ok: "list_all (name_ok \<circ> claimed) taken"
    then have "name_ok n" if "Told n v \<in> set tolds" for n v
      using that told by (force simp: tellings_def list_all_iff)
    with tolds(2) have "list_all request_named tolds" by (fastforce simp: list_all_iff)
    with ok show "list_all request_named (read_then_judged taken)" by (auto simp: read_then_judged_def tolds(1) list_all_iff)
  qed
qed

theorem verdicts_decide_what_stays_witness:
  "\<exists>taken log c' d'. length taken \<le> 2 \<and> claims_of [''a'' \<mapsto> [1], ''b'' \<mapsto> [2]] taken
    \<and> harvesting std_ext (taped_conns std_ext (\<lambda>_ _. 0)) (site_claims std_ext (ch (taped_conns std_ext (\<lambda>_ _. 0)))) 2
        (read_then_judged taken) (blank (directory_new [(''a'', [1]), (''b'', [2])])) =
        Some (Here c', if taken = [] then [ClientBack, Listed (Inr [])] else Listed (Inr taken) # log @ [ClientBack, Finished])
    \<and> dir_wf d' \<and> all_done log \<and> mset (dones log) = mset (map claimed taken)
    \<and> bt_get (files d') = [''a'' \<mapsto> [1], ''b'' \<mapsto> [2]] |` (- accepted_names (\<lambda>v. v = Some True) taken (first_accepted taken))"
proof -
  let ?d = "directory_new [(''a'', [1]), (''b'', [2])]"
  have m: "bt_get (files ?d) = [''a'' \<mapsto> [1], ''b'' \<mapsto> [2]]" by (auto simp: fun_eq_iff)
  have d: "taped_at std_ext (\<lambda>_ _. 0) ?d [] (blank ?d) ?d" using idle_blank by (simp add: taped_at_def)
  have wf: "dir_wf ?d" "dir_bounded std_ext ?d"
    by (auto simp: dir_wf_def directory_new_def bt_wf_def dir_bounded_def sample_names [unfolded name_ok_def] rfc4251_def split: if_splits)
  have size: "listing_size (far_end_of \<lparr>dir = ?d, handles = [], next_handle = 0\<rparr>) < 2 ^ 30"
    by (simp add: listing_size_sum m)
  note J = site_judged.judging_axioms [where clock = "\<lambda>_ _. 0" and ?d0.0 = ?d and pss = "[]"]
  show ?thesis
    using verdicts_decide_what_stays [where events = first_accepted and qs = read_then_judged and most = 2,
        OF J, OF d wf size first_accepted_places read_then_judged_asks]
    unfolding m by (elim exE conjE) (intro exI conjI; assumption)
qed

end
