(* ===== verification/Transport.thy ===== *)
theory Transport
  imports Connection
begin

text \<open>
  The transport of \<open>lib.rs\<close>: how one is built, where a target leads, what it presents, and
  the send, the receive and the claim's site over the connections it keeps. \<open>net::Target\<close>,
  the pool, the secrets and the file family's naming are other crates': the record
  \<open>surroundings\<close>, and the pool's \<open>exchange\<close> where it is used.
\<close>

section \<open>What it is built of\<close>

record named_target =
  named_authority :: string
  named_path :: string
  named_user :: "string option"

datatype SecretKind = PasswordSecret | KeySecret | CertificateSecret

record secret =
  secret_kind :: SecretKind
  secret_text :: string

record 'w Secured =
  secured_name :: string
  secured_secret :: "('w, secret) act"

text \<open>
  \<open>under\<close> is \<open>Target::under\<close>; \<open>private_key\<close> reads an Ed25519 key, its refusal a message;
  \<open>file_name\<close> names what is sent, given the target's name and the address.
\<close>

record ('key, 'out) surroundings =
  under :: "string list \<Rightarrow> string \<Rightarrow> named_target option"
  private_key :: "string \<Rightarrow> string + 'key"
  file_name :: "'out \<Rightarrow> string \<Rightarrow> string \<Rightarrow> transport_error + string"
  LOOPBACK_TIMEOUT :: duration
  key_from_bytes :: "bytes \<Rightarrow> 'key"

record ('w, 'key, 'pins, 'pool, 'claiming) SftpTransport =
  endpoint :: string
  login_user :: string
  credential :: "'key Credential option"
  secured :: "'w Secured option"
  timeout :: "duration option"
  pins :: 'pins
  clients :: 'pool
  claims_made :: 'claiming

definition SCHEMES :: "string list" where
  "SCHEMES = [''sftp'']"

definition LOOPBACK_SEED :: bytes where
  "LOOPBACK_SEED = replicate 32 0x7c"

text \<open>A new one is given pins in memory, an empty pool and claims in the process's name.\<close>

definition transport_new ::
  "'pins \<Rightarrow> 'pool \<Rightarrow> 'claiming \<Rightarrow> string \<Rightarrow> ('w, 'key, 'pins, 'pool, 'claiming) SftpTransport" where
  "transport_new in_memory pool process ep = \<lparr>endpoint = ep, login_user = '''', credential = None, secured = None,
     timeout = None, pins = in_memory, clients = pool, claims_made = process\<rparr>"

definition as_user ::
  "string \<Rightarrow> ('w, 'key, 'pins, 'pool, 'claiming) SftpTransport \<Rightarrow> ('w, 'key, 'pins, 'pool, 'claiming) SftpTransport" where
  "as_user u T = T\<lparr>login_user := u\<rparr>"

definition with_password ::
  "string \<Rightarrow> ('w, 'key, 'pins, 'pool, 'claiming) SftpTransport \<Rightarrow> ('w, 'key, 'pins, 'pool, 'claiming) SftpTransport" where
  "with_password p T = T\<lparr>credential := Some (Password p)\<rparr>"

definition with_key ::
  "'key \<Rightarrow> ('w, 'key, 'pins, 'pool, 'claiming) SftpTransport \<Rightarrow> ('w, 'key, 'pins, 'pool, 'claiming) SftpTransport" where
  "with_key k T = T\<lparr>credential := Some (PublicKey k)\<rparr>"

definition timing_out_after ::
  "duration \<Rightarrow> ('w, 'key, 'pins, 'pool, 'claiming) SftpTransport \<Rightarrow> ('w, 'key, 'pins, 'pool, 'claiming) SftpTransport" where
  "timing_out_after d T = T\<lparr>timeout := Some d\<rparr>"

definition transport_loopback ::
  "('key, 'out) surroundings \<Rightarrow> 'pins \<Rightarrow> 'pool \<Rightarrow> 'claiming \<Rightarrow> ('w, 'key, 'pins, 'pool, 'claiming) SftpTransport" where
  "transport_loopback E in_memory pool process =
     timing_out_after (LOOPBACK_TIMEOUT E) (with_key (key_from_bytes E LOOPBACK_SEED)
       (as_user ''xmip'' (transport_new in_memory pool process ''127.0.0.1:0'')))"

text \<open>
  The settings it declares: of the words a setting is described in (\<open>xcore::settings\<close>) the
  three this declaration uses are \<open>setting_words\<close>; \<open>technology\<close> is the package's name.
\<close>

record ('kind, 'presence, 'applies) setting_words =
  Duration :: 'kind
  Optional :: 'presence
  Both :: 'applies

record ('kind, 'presence, 'applies) Setting =
  setting_name :: string
  setting_kind :: 'kind
  setting_presence :: 'presence
  setting_meaning :: string
  setting_applies :: 'applies

record ('kind, 'presence, 'applies) Settings =
  technology :: string
  settings :: "('kind, 'presence, 'applies) Setting list"

definition SETTINGS ::
  "('kind, 'presence, 'applies) setting_words \<Rightarrow> string \<Rightarrow> ('kind, 'presence, 'applies) Settings" where
  "SETTINGS W package = \<lparr>technology = package, settings = [\<lparr>setting_name = ''timeout'', setting_kind = Duration W,
     setting_presence = Optional W,
     setting_meaning = ''How long a peer that stops mid-exchange is waited on; unbounded when left out.'',
     setting_applies = Both W\<rparr>]\<rparr>"

definition own_terms :: "string \<Rightarrow> string" where
  "own_terms address = address"

text \<open>
  \<open>configured\<close>: the user from the address, the timeout from the settings read, which are what
  \<open>optional_duration\<close> gives a name.
\<close>

definition configured ::
  "('key, 'out) surroundings \<Rightarrow> 'pins \<Rightarrow> 'pool \<Rightarrow> 'claiming \<Rightarrow> string \<Rightarrow> (string \<Rightarrow> duration option)
     \<Rightarrow> ('w, 'key, 'pins, 'pool, 'claiming) SftpTransport" where
  "configured E in_memory pool process address optional_duration =
     (let T = transport_new in_memory pool process address;
          T = (case Option.bind (under E SCHEMES address) named_user of Some u \<Rightarrow> as_user u T | None \<Rightarrow> T)
      in (case optional_duration ''timeout'' of Some d \<Rightarrow> timing_out_after d T | None \<Rightarrow> T))"

definition on_node ::
  "('node \<Rightarrow> 'claiming) \<Rightarrow> 'node \<Rightarrow> ('w, 'key, 'pins, 'pool, 'claiming) SftpTransport
     \<Rightarrow> ('w, 'key, 'pins, 'pool, 'claiming) SftpTransport" where
  "on_node recovering node T = T\<lparr>claims_made := recovering node\<rparr>"

definition pinned_by ::
  "'pins \<Rightarrow> ('w, 'key, 'pins, 'pool, 'claiming) SftpTransport \<Rightarrow> ('w, 'key, 'pins, 'pool, 'claiming) SftpTransport" where
  "pinned_by p T = T\<lparr>pins := p\<rparr>"

definition secured_by ::
  "'w Secured \<Rightarrow> ('w, 'key, 'pins, 'pool, 'claiming) SftpTransport \<Rightarrow> ('w, 'key, 'pins, 'pool, 'claiming) SftpTransport" where
  "secured_by s T = T\<lparr>secured := Some s\<rparr>"

section \<open>What it says of itself\<close>

text \<open>
  Of each description the runtime reads, what this transport gives: a word of the transport
  capability, with the reason it states.
\<close>

record ('directions, 'description) descriptions =
  BOTH :: 'directions
  Ordered :: "string \<Rightarrow> 'description"
  Polled :: "string \<Rightarrow> 'description"
  Streamed :: "string \<Rightarrow> 'description"

definition transport_name :: "('w, 'key, 'pins, 'pool, 'claiming) SftpTransport \<Rightarrow> string" where
  "transport_name T = ''sftp''"

definition directions ::
  "('directions, 'description) descriptions \<Rightarrow> ('w, 'key, 'pins, 'pool, 'claiming) SftpTransport \<Rightarrow> 'directions" where
  "directions D T = BOTH D"

definition arrivals ::
  "('directions, 'description) descriptions \<Rightarrow> ('w, 'key, 'pins, 'pool, 'claiming) SftpTransport \<Rightarrow> 'description" where
  "arrivals D T = Ordered D ''a receive lists again what is not yet told''"

definition waiting ::
  "('directions, 'description) descriptions \<Rightarrow> ('w, 'key, 'pins, 'pool, 'claiming) SftpTransport \<Rightarrow> 'description" where
  "waiting D T = Polled D ''a receive lists the directory and returns''"

definition sending ::
  "('directions, 'description) descriptions \<Rightarrow> ('w, 'key, 'pins, 'pool, 'claiming) SftpTransport \<Rightarrow> 'description" where
  "sending D T = Streamed D ''each WRITE request carries the next piece of the body as it is read''"

text \<open>It is its own claim of resources; the claims made are its own, and what they hold back is theirs to say.\<close>

definition transport_claims ::
  "('w, 'key, 'pins, 'pool, 'claiming) SftpTransport \<Rightarrow> ('w, 'key, 'pins, 'pool, 'claiming) SftpTransport option" where
  "transport_claims T = Some T"

definition claiming_of :: "('w, 'key, 'pins, 'pool, 'claiming) SftpTransport \<Rightarrow> 'claiming" where
  "claiming_of T = claims_made T"

definition transport_held ::
  "('claiming \<Rightarrow> 'held list) \<Rightarrow> ('w, 'key, 'pins, 'pool, 'claiming) SftpTransport \<Rightarrow> 'held list" where
  "transport_held held_by T = held_by (claims_made T)"

section \<open>Where a target leads\<close>

definition authority ::
  "('key, 'out) surroundings \<Rightarrow> ('w, 'key, 'pins, 'pool, 'claiming) SftpTransport \<Rightarrow> string" where
  "authority E T = (case under E SCHEMES (endpoint T) of
     Some named \<Rightarrow> named_authority named
   | None \<Rightarrow> endpoint T)"

text \<open>\<open>path.rsplit('/').next()\<close>: what follows the last slash, the whole where there is none.\<close>

definition last_segment :: "string \<Rightarrow> string" where
  "last_segment path = rev (takeWhile (\<lambda>c. c \<noteq> CHR ''/'') (rev path))"

definition resolve ::
  "('key, 'out) surroundings \<Rightarrow> ('w, 'key, 'pins, 'pool, 'claiming) SftpTransport \<Rightarrow> string \<Rightarrow> string \<times> string" where
  "resolve E T target = (case under E SCHEMES target of
     Some named \<Rightarrow> (named_authority named, last_segment (named_path named))
   | None \<Rightarrow> (authority E T, target))"

section \<open>What it presents\<close>

definition presented_secret ::
  "('key, 'out) surroundings \<Rightarrow> string \<Rightarrow> secret \<Rightarrow> transport_error + 'key Credential option" where
  "presented_secret E name s = (case secret_kind s of
     PasswordSecret \<Rightarrow> Inr (Some (Password (secret_text s)))
   | KeySecret \<Rightarrow> (case private_key E (secret_text s) of
       Inr key \<Rightarrow> Inr (Some (PublicKey key))
     | Inl refused \<Rightarrow> Inl (PermanentError (''the secret '' @ [CHR 0x27] @ name @ [CHR 0x27] @ '': '' @ refused)))
   | CertificateSecret \<Rightarrow> Inl (PermanentError (''the secret '' @ [CHR 0x27] @ name @ [CHR 0x27]
       @ '' is a certificate; sftp presents a password or a key'')))"

definition presented ::
  "('key, 'out) surroundings \<Rightarrow> ('w, 'key, 'pins, 'pool, 'claiming) SftpTransport \<Rightarrow> ('w, 'key Credential option) act" where
  "presented E T = (case secured T of
     None \<Rightarrow> return_act (credential T)
   | Some sec \<Rightarrow> bind_act (secured_secret sec) (\<lambda>s. lift_act (presented_secret E (secured_name sec) s)))"

definition transport_connect ::
  "('key, 'out) surroundings \<Rightarrow> ('w, 'stream, 'c, 'pub, 'key, 'pins) ssh
     \<Rightarrow> ('w, 'key, 'pins, 'pool, 'claiming) SftpTransport \<Rightarrow> string \<Rightarrow> ('w, 'c) act" where
  "transport_connect E S T address =
     bind_act (presented E T) (\<lambda>cred. connect S address (login_user T) cred (timeout T, pins T))"

section \<open>Sending, receiving, claiming\<close>

text \<open>
  \<open>exchange pool key open act\<close> is the pool's: \<open>act\<close> on the connection kept for \<open>key\<close>, or on
  the one \<open>open\<close> makes.
\<close>

type_synonym ('w, 'c, 'pool, 'a) exchange =
  "'pool \<Rightarrow> string \<Rightarrow> ('w, 'c Line) act \<Rightarrow> ('c Line, 'a) act \<Rightarrow> ('w, 'a) act"

definition opening_line ::
  "('key, 'out) surroundings \<Rightarrow> ('w, 'stream, 'c, 'pub, 'key, 'pins) ssh
     \<Rightarrow> ('w, 'key, 'pins, 'pool, 'claiming) SftpTransport \<Rightarrow> string \<Rightarrow> ('w, 'c Line) act" where
  "opening_line E S T address = bind_act (transport_connect E S T address) (\<lambda>c. return_act (connection_new c))"

definition receive_up_to ::
  "('w, 'c, 'pool, Arrived list) exchange \<Rightarrow> ext \<Rightarrow> 'c conns \<Rightarrow> (transport_error + unit)
     \<Rightarrow> ('key, 'out) surroundings \<Rightarrow> ('w, 'stream, 'c, 'pub, 'key, 'pins) ssh
     \<Rightarrow> ('w, 'key, 'pins, 'pool, ('c, 'v) claims) SftpTransport \<Rightarrow> usize \<Rightarrow> ('w, Arrived list) act" where
  "receive_up_to exch X C spawned E S T most =
     (let auth = authority E T; origin = (\<lambda>name. ''sftp://'' @ auth @ ''/'' @ name)
      in exch (clients T) auth (opening_line E S T auth) (harvest X C (claims_made T) spawned origin most))"

definition send_from ::
  "('w, 'c, 'pool, unit) exchange \<Rightarrow> ext \<Rightarrow> 'c conns \<Rightarrow> ('out \<Rightarrow> ('c Sftp \<times> u64) pieces)
     \<Rightarrow> ('key, 'out) surroundings \<Rightarrow> ('w, 'stream, 'c, 'pub, 'key, 'pins) ssh
     \<Rightarrow> ('w, 'key, 'pins, 'pool, 'claiming) SftpTransport \<Rightarrow> string \<Rightarrow> 'out \<Rightarrow> ('w, unit) act" where
  "send_from exch X C pieces_of E S T target outgoing =
     (case resolve E T target of (address, given) \<Rightarrow>
        bind_act (lift_act (file_name E outgoing given address)) (\<lambda>name.
        exch (clients T) address (opening_line E S T address)
          (connection_with (client_put X C name (pieces_of outgoing)))))"

definition with_site ::
  "('w, 'c, 'pool, 'a) exchange \<Rightarrow> ext \<Rightarrow> 'c conns \<Rightarrow> ('key, 'out) surroundings
     \<Rightarrow> ('w, 'stream, 'c, 'pub, 'key, 'pins) ssh \<Rightarrow> ('w, 'key, 'pins, 'pool, 'claiming) SftpTransport
     \<Rightarrow> ('c Sftp, 'a) act \<Rightarrow> ('w, 'a) act" where
  "with_site exch X C E S T act =
     exch (clients T) (authority E T) (opening_line E S T (authority E T))
       (connection_with (\<lambda>c. map_option (\<lambda>(r, (c, _)). (r, c)) (with_subsystem X C (beside act) (c, ()))))"

section \<open>Lemmas\<close>

lemma last_segment_suffix: "\<exists>pre. path = pre @ last_segment path \<and> (pre = [] \<or> last pre = CHR ''/'')"
proof -
  let ?P = "\<lambda>c. c \<noteq> CHR ''/''"
  have "path = rev (dropWhile ?P (rev path)) @ last_segment path"
    by (simp add: last_segment_def flip: rev_append)
  moreover have "rev (dropWhile ?P (rev path)) = [] \<or> last (rev (dropWhile ?P (rev path))) = CHR ''/''"
    using hd_dropWhile [of ?P "rev path"] by (auto simp: last_rev)
  ultimately show ?thesis by blast
qed

lemma last_segment_no_slash: "CHR ''/'' \<notin> set (last_segment path)"
  by (auto simp: last_segment_def dest: set_takeWhileD)

lemma opening_line_connects:
  assumes "opening_line E S T address v = Some (Inr (Here c), v')"
  shows "\<exists>v v'. transport_connect E S T address v = Some (Inr c, v')"
  using assms by (auto simp: opening_line_def connection_new_def bind_act_def return_act_def
      split: option.splits prod.splits sum.splits)

section \<open>What the transport relies on of the pool\<close>

text \<open>
  The pool keeps connections by the server's name and opens one where it keeps none it can use
  or the one kept fails: an exchange that succeeds is the action, run to its success, on a
  connection that was kept for that name or that \<open>opener\<close> made. \<open>kept w p k l\<close>: in \<open>w\<close> the
  pool \<open>p\<close> keeps \<open>l\<close> for \<open>k\<close>.
\<close>

locale pooling =
  fixes exch :: "('w, 'c, 'pool, 'a) exchange"
    and kept :: "'w \<Rightarrow> 'pool \<Rightarrow> string \<Rightarrow> 'c Line \<Rightarrow> bool"
  assumes exchanged: "exch p k opener act w = Some (Inr x, w') \<Longrightarrow>
    \<exists>l l'. (kept w p k l \<or> (\<exists>v v'. opener v = Some (Inr l, v'))) \<and> act l = Some (Inr x, l')"
begin

text \<open>An action on the client of a line is run on a client that is there.\<close>

lemma exchanged_with:
  assumes "exch p k opener (connection_with act) w = Some (Inr x, w')"
  obtains c c' where "kept w p k (Here c) \<or> (\<exists>v v'. opener v = Some (Inr (Here c), v'))" "act c = Some (Inr x, c')"
proof -
  obtain l l' where l: "kept w p k l \<or> (\<exists>v v'. opener v = Some (Inr l, v'))" "connection_with act l = Some (Inr x, l')"
    using exchanged [OF assms] by blast
  then obtain c c' where "l = Here c" "act c = Some (Inr x, c')"
    by (cases l) (auto simp: connection_with_def)
  with l(1) show ?thesis by (intro that) simp
qed

end

text \<open>A pool as that: one connection kept a name, another opened where it fails.\<close>

definition pool_exchange :: "(string \<Rightarrow> 'c Line option, 'c, unit, 'a) exchange" where
  "pool_exchange p k opener act w =
     (let retry = bind_act opener (\<lambda>l w.
            map_option (\<lambda>(r, l). (r, w(k \<mapsto> l))) (act l))
      in case w k of
           None \<Rightarrow> retry w
         | Some l \<Rightarrow> (case act l of
             None \<Rightarrow> None
           | Some (Inr x, l) \<Rightarrow> Some (Inr x, w(k \<mapsto> l))
           | Some (Inl _, _) \<Rightarrow> retry (w(k := None))))"

interpretation pool: pooling pool_exchange "\<lambda>w p k l. w k = Some l"
proof (rule pooling.intro, goal_cases)
  case (1 p k opener act w x w')
  note run = 1
  have retry: "\<exists>l l'. (\<exists>v v'. opener v = Some (Inr l, v')) \<and> act l = Some (Inr x, l')"
    if "bind_act opener (\<lambda>l w. map_option (\<lambda>(r, l). (r, w(k \<mapsto> l))) (act l)) v = Some (Inr x, w')" for v
    using that by (fastforce simp: bind_act_def split: option.splits prod.splits sum.splits)
  show ?case
  proof (cases "w k")
    case None
    with run retry show ?thesis by (auto simp: pool_exchange_def)
  next
    case (Some l)
    then show ?thesis using run retry [of "w(k := None)"]
      by (auto simp: pool_exchange_def split: option.splits prod.splits sum.splits)
  qed
qed

text \<open>
  What is read of the settings is declared: settings that agree on every name \<open>SETTINGS\<close> has
  configure the same transport.
\<close>

lemma configured_reads_declared:
  assumes "\<And>name. name \<in> set (map setting_name (settings (SETTINGS W package))) \<Longrightarrow> r name = r' name"
  shows "configured E in_memory pool process address r = configured E in_memory pool process address r'"
  using assms [of "''timeout''"] by (simp add: configured_def SETTINGS_def)

lemma configured_fields:
  "endpoint (configured E in_memory pool process address r) = address"
  "timeout (configured E in_memory pool process address r) = r ''timeout''"
  "login_user (configured E in_memory pool process address r) =
     (case Option.bind (under E SCHEMES address) named_user of Some u \<Rightarrow> u | None \<Rightarrow> [])"
  "credential (configured E in_memory pool process address r) = None"
  by (simp_all add: configured_def transport_new_def as_user_def timing_out_after_def Let_def split: option.splits)

section \<open>Properties\<close>

text \<open>
  A file sent to a target that names a server is given a name of the directory itself: what
  follows the last slash of the path, with no slash in it, on the server the target names; a
  target that names none is the name, on this transport's own server.
\<close>

lemma resolve_names_one_file:
  "case under E SCHEMES target of
     Some named \<Rightarrow> fst (resolve E T target) = named_authority named \<and> CHR ''/'' \<notin> set (snd (resolve E T target))
       \<and> (\<exists>pre. named_path named = pre @ snd (resolve E T target) \<and> (pre = [] \<or> last pre = CHR ''/''))
   | None \<Rightarrow> resolve E T target = (authority E T, target)"
  using last_segment_suffix last_segment_no_slash by (simp add: resolve_def split: option.split)

text \<open>
  The secret a Location names takes the place of the credential the transport was built with:
  with one, what is presented does not depend on the other; a certificate, and a key that cannot
  be read, are refused for good before any connection is made.
\<close>

lemma secret_takes_precedence:
  assumes "secured T = Some sec" "secured_secret sec w = Some (Inr s, w')"
  shows "presented E (T\<lparr>credential := c\<rparr>) w = presented E T w
    \<and> (secret_kind s = PasswordSecret \<longrightarrow> presented E T w = Some (Inr (Some (Password (secret_text s))), w'))
    \<and> (secret_kind s = CertificateSecret \<or> secret_kind s = KeySecret \<and> private_key E (secret_text s) = Inl why \<longrightarrow>
        (\<exists>m. transport_connect E S T address w = Some (Inl (PermanentError m), w')))"
  using assms by (auto simp: presented_def presented_secret_def transport_connect_def)

definition sample_surroundings :: "(unit, unit) surroundings" where
  "sample_surroundings = \<lparr>under = (\<lambda>_ _. None), private_key = (\<lambda>_. Inl ''unread''), file_name = (\<lambda>_ n _. Inr n),
     LOOPBACK_TIMEOUT = 5, key_from_bytes = (\<lambda>_. ())\<rparr>"

text \<open>
  C36. A send that succeeds put the file on the server the target names, and on the transport's own
  where it names none: over a connection kept for that server's name or opened to it, under the
  name the file family gives what is sent, told what follows the last slash of the path the target
  names, or the whole target; where the far end behind that connection has the directory \<open>d\<close>, it
  has it then with exactly the body under that name.
\<close>

theorem send_puts_on_the_named_server:
  assumes "pooling exch kept" "kept_connection X C linked idle"
    "send_from exch X C pieces_of E S T target outgoing w = Some (Inr (), w')"
    "streams (pieces_of outgoing) body" "length body \<le> MAX_BODY X"
  shows "\<exists>address given name c c'.
      (case under E SCHEMES target of
         Some named \<Rightarrow> address = named_authority named \<and> CHR ''/'' \<notin> set given
           \<and> (\<exists>pre. named_path named = pre @ given \<and> (pre = [] \<or> last pre = CHR ''/''))
       | None \<Rightarrow> given = target
           \<and> address = (case under E SCHEMES (endpoint T) of Some own \<Rightarrow> named_authority own | None \<Rightarrow> endpoint T))
    \<and> file_name E outgoing given address = Inr name
    \<and> (kept w (clients T) address (Here c) \<or> (\<exists>v v'. transport_connect E S T address v = Some (Inr c, v')))
    \<and> client_put X C name (pieces_of outgoing) c = Some (Inr (), c')
    \<and> (\<forall>d. idle c d \<and> dir_wf d \<and> dir_bounded X d \<and> name_ok name \<longrightarrow>
        (\<exists>d'. idle c' d' \<and> bt_get (files d') = (bt_get (files d))(name \<mapsto> body)))"
proof -
  obtain address given where at: "resolve E T target = (address, given)" by fastforce
  have led: "case under E SCHEMES target of
      Some named \<Rightarrow> address = named_authority named \<and> CHR ''/'' \<notin> set given
        \<and> (\<exists>pre. named_path named = pre @ given \<and> (pre = [] \<or> last pre = CHR ''/''))
    | None \<Rightarrow> given = target
        \<and> address = (case under E SCHEMES (endpoint T) of Some own \<Rightarrow> named_authority own | None \<Rightarrow> endpoint T)"
    using resolve_names_one_file [where E = E and T = T and target = target] unfolding at by (auto simp: authority_def split: option.splits)
  obtain name where name: "file_name E outgoing given address = Inr name"
    and run: "exch (clients T) address (opening_line E S T address) (connection_with (client_put X C name (pieces_of outgoing))) w = Some (Inr (), w')"
    using at assms(3) by (cases "file_name E outgoing given address")
      (auto simp: send_from_def bind_act_def lift_act_def return_act_def fail_act_def)
  obtain c c' where c: "kept w (clients T) address (Here c) \<or> (\<exists>v v'. opening_line E S T address v = Some (Inr (Here c), v'))"
      "client_put X C name (pieces_of outgoing) c = Some (Inr (), c')"
    using run by (rule pooling.exchanged_with [OF assms(1)])
  have "\<exists>v v'. transport_connect E S T address v = Some (Inr c, v')"
    if "opening_line E S T address v = Some (Inr (Here c), v')" for v v'
    using that by (rule opening_line_connects)
  moreover have "\<exists>d'. idle c' d' \<and> bt_get (files d') = (bt_get (files d))(name \<mapsto> body)"
    if "idle c d" "dir_wf d" "dir_bounded X d" "name_ok name" for d
    using one_channel.client_put_stores [OF kept_connection.axioms [OF assms(2)] that assms(4,5)] c(2) by (metis old.prod.inject option.inject)
  ultimately show ?thesis using led name c
    by - (rule exI [of _ address], rule exI [of _ given], rule exI [of _ name], rule exI [of _ c], rule exI [of _ c'], blast)
qed

text \<open>A library whose server is \<open>sample\<close>, in a world that is the pool's connections.\<close>

definition pool_ssh :: "(string \<Rightarrow> direct Line option, unit, direct, unit, unit, unit) ssh" where
  "pool_ssh = \<lparr>connect_tcp = (\<lambda>_ _. return_act ()), settle = (\<lambda>_ _. return_act ()),
     conn_new = (\<lambda>_. return_act \<lparr>d_serving = sample, d_unread = []\<rparr>), banner = (\<lambda>_. return_act []),
     kex_client = (\<lambda>_ _. return_act \<lparr>host_key = [], session_id = [2]\<rparr>), parse_key = (\<lambda>_. Inr ()), fingerprint = (\<lambda>_. ''fp''),
     request_service = return_act (), auth_password = (\<lambda>_ _. return_act ()), auth_public_key = (\<lambda>_ _ _. return_act ()),
     auth_none = (\<lambda>_. return_act ()), IDENTIFICATION = [], pins_hold = (\<lambda>_ _ _. return_act ())\<rparr>"

lemma sample_put:
  obtains c' where "client_put std_ext std_conns ''b'' (held [7]) \<lparr>d_serving = sample, d_unread = []\<rparr> = Some (Inr (), c')"
proof -
  have "direct_idle \<lparr>d_serving = sample, d_unread = []\<rparr> (dir sample)" "dir_wf (dir sample)" "length [7 :: u8] \<le> MAX_BODY std_ext"
    using sample_wf by (simp_all add: direct_idle_def serving_wf_def rfc4251_def)
  then show ?thesis
    using direct_kept.client_put_stores [OF _ _ sample_bounded sample_names(2) streams_held] that by blast
qed

text \<open>Where one target names a server, a path and nothing else.\<close>

definition naming_surroundings :: "(unit, unit) surroundings" where
  "naming_surroundings = sample_surroundings\<lparr>under := (\<lambda>_ target. if target = ''sftp://other:22/in/b''
     then Some \<lparr>named_authority = ''other:22'', named_path = ''in/b'', named_user = None\<rparr> else None)\<rparr>"

theorem send_puts_on_the_named_server_witness:
  "\<exists>w' given name c c'. send_from pool_exchange std_ext std_conns (\<lambda>_. held [7]) naming_surroundings pool_ssh
      (transport_new () () () ''h:22'') ''sftp://other:22/in/b'' () (\<lambda>_. None) = Some (Inr (), w')
    \<and> CHR ''/'' \<notin> set given \<and> file_name naming_surroundings () given ''other:22'' = Inr name
    \<and> client_put std_ext std_conns name (held [7]) c = Some (Inr (), c')
    \<and> w' ''h:22'' = None \<and> w' ''other:22'' \<noteq> None"
proof -
  let ?T = "transport_new () () () ''h:22'' :: (string \<Rightarrow> direct Line option, unit, unit, unit, unit) SftpTransport"
  obtain c' where "client_put std_ext std_conns ''b'' (held [7]) \<lparr>d_serving = sample, d_unread = []\<rparr> = Some (Inr (), c')"
    by (rule sample_put)
  moreover have "resolve naming_surroundings ?T ''sftp://other:22/in/b'' = (''other:22'', ''b'')"
    by (simp add: resolve_def naming_surroundings_def last_segment_def)
  ultimately have run: "send_from pool_exchange std_ext std_conns (\<lambda>_. held [7]) naming_surroundings pool_ssh ?T ''sftp://other:22/in/b'' () (\<lambda>_. None) =
      Some (Inr (), [''other:22'' \<mapsto> Here c'])"
    by (simp add: send_from_def naming_surroundings_def sample_surroundings_def transport_new_def pool_exchange_def opening_line_def
        transport_connect_def presented_def connect_def handshake_def authenticate_def pool_ssh_def connection_new_def
        connection_with_def beside_def alongside_def bind_act_def return_act_def lift_act_def)
  have "length [7 :: u8] \<le> MAX_BODY std_ext" by (simp add: rfc4251_def)
  from send_puts_on_the_named_server [OF pool.pooling_axioms direct_kept.kept_connection_axioms run streams_held this]
  obtain given name c c'' where "CHR ''/'' \<notin> set given" "file_name naming_surroundings () given ''other:22'' = Inr name"
      "client_put std_ext std_conns name (held [7]) c = Some (Inr (), c'')"
    by (auto simp: naming_surroundings_def)
  with run show ?thesis by auto
qed

end
