(* ===== verification/Receive.thy ===== *)
theory Receive
  imports Transport Claims
begin

unbundle bit_operations_syntax

text \<open>
  What a receive of the transport (\<open>receive_up_to\<close> of \<open>lib.rs\<close>) returns: the arrivals of a harvest
  of its own server, of the files the claim took there.
\<close>

section \<open>Properties\<close>

text \<open>
  C37. A receive that succeeds harvested its own server: over a connection kept for the transport's
  server, or opened to it, whose far end has the directory \<open>d\<close>, it took what the transport's claim
  takes on a session onto \<open>d\<close>, at most as many as asked, each a file of \<open>d\<close> moved to a name that was
  free, nothing else changed; where that is nothing, the client is back. Its arrivals are the
  files taken, in their order, each with an origin of \<open>sftp://\<close>, the server and the name it was
  dropped under, a body that asks for it by its claimed name and has asked nothing yet, an
  acknowledgement at its own place, and the dropped name observed.
\<close>

theorem receive_harvests_its_server:
  assumes "pooling exch kept" "moving X C linked idle left (claims_made T)"
    "receive_up_to exch X C spawned E S T most w = Some (Inr arrived, w')"
  shows "\<exists>c taken l. (kept w (clients T) (authority E T) (Here c)
        \<or> (\<exists>v v'. transport_connect E S T (authority E T) v = Some (Inr c, v')))
    \<and> harvest X C (claims_made T) spawned (\<lambda>name. ''sftp://'' @ authority E T @ ''/'' @ name) most (Here c) = Some (Inr arrived, l)
    \<and> (\<forall>d. idle c d \<and> dir_wf d \<and> dir_bounded X d
          \<and> listing_size (far_end_of \<lparr>dir = d, handles = [], next_handle = 0\<rparr>) < 2 ^ 30 \<longrightarrow>
        (\<exists>t s t' s'. ready X linked t s \<and> far_end_of s = far_end_of \<lparr>dir = d, handles = [], next_handle = 0\<rparr>
          \<and> claim_take (claims_made T) most t = Some (Inr taken, t') \<and> ready X linked t' s' \<and> length taken \<le> most
          \<and> claims_of (bt_get (files d)) taken \<and> bt_get (files (dir s')) = moved taken (bt_get (files d))
          \<and> (if taken = [] then \<exists>c'. l = Here c' \<and> left c' (dir s') else l = Harvesting)))
    \<and> map arrived_origin arrived = map (\<lambda>k. ''sftp://'' @ authority E T @ ''/'' @ dropped k) taken
    \<and> map arrived_body arrived = map (fetch_new \<circ> claimed) taken
    \<and> map arrived_at arrived = [0..<length taken]
    \<and> map arrived_file_name arrived = map (Some \<circ> dropped) taken"
proof -
  let ?origin = "\<lambda>name. ''sftp://'' @ authority E T @ ''/'' @ name"
  obtain l l' where l: "kept w (clients T) (authority E T) l \<or> (\<exists>v v'. opening_line E S T (authority E T) v = Some (Inr l, v'))"
      "harvest X C (claims_made T) spawned ?origin most l = Some (Inr arrived, l')"
    using pooling.exchanged [OF assms(1)] assms(3) unfolding receive_up_to_def Let_def by blast
  from l(2) obtain c taken where c: "l = Here c" "harvest_listed X C (claims_made T) most c = Some (Inr taken, l')"
      "arrived = harvest_arrivals ?origin taken"
    by (rule harvest_Inr)
  have at: "kept w (clients T) (authority E T) (Here c) \<or> (\<exists>v v'. transport_connect E S T (authority E T) v = Some (Inr c, v'))"
  proof -
    have "\<exists>v v'. transport_connect E S T (authority E T) v = Some (Inr c, v')"
      if "opening_line E S T (authority E T) v = Some (Inr (Here c), v')" for v v'
      using that by (rule opening_line_connects)
    with l(1) show ?thesis unfolding c(1) by blast
  qed
  have took: "\<exists>t s t' s'. ready X linked t s \<and> far_end_of s = far_end_of \<lparr>dir = d, handles = [], next_handle = 0\<rparr>
      \<and> claim_take (claims_made T) most t = Some (Inr taken, t') \<and> ready X linked t' s' \<and> length taken \<le> most
      \<and> claims_of (bt_get (files d)) taken \<and> bt_get (files (dir s')) = moved taken (bt_get (files d))
      \<and> (if taken = [] then \<exists>c'. l' = Here c' \<and> left c' (dir s') else l' = Harvesting)"
    if d: "idle c d" "dir_wf d" "dir_bounded X d" "listing_size (far_end_of \<lparr>dir = d, handles = [], next_handle = 0\<rparr>) < 2 ^ 30" for d
  proof -
    obtain taken' k t s t' s' where h: "harvest_listed X C (claims_made T) most c = Some (Inr taken', k)"
        "if taken' = [] then \<exists>c'. k = Here c' \<and> left c' (dir s') else k = Harvesting"
        "ready X linked t s" "far_end_of s = far_end_of \<lparr>dir = d, handles = [], next_handle = 0\<rparr>"
        "claim_take (claims_made T) most t = Some (Inr taken', t')" "ready X linked t' s'" "length taken' \<le> most"
        "claims_of (bt_get (files d)) taken'" "content (far_end_of s') = moved taken' (bt_get (files d))"
      by (rule moving.receive_lists [OF assms(2) d])
    have same: "taken' = taken" "k = l'" using h(1) c(2) by simp_all
    have "bt_get (files (dir s')) = moved taken (bt_get (files d))" using h(9) unfolding same by simp
    with h(2-8) show ?thesis unfolding same by (intro exI conjI)
  qed
  show ?thesis
    by (rule exI [of _ c], rule exI [of _ taken], rule exI [of _ l'], intro conjI allI impI)
      (use at l(2) took c in \<open>auto simp: harvest_arrivals_fields comp_def simp del: far_end_of_simps\<close>)
qed

text \<open>The sample directory, its one file claimed by the site's operations.\<close>

abbreviation std_claims :: "(direct, bool) claims" where
  "std_claims \<equiv> site_claims std_ext (ch std_conns)"

lemma sample_directory:
  "direct_idle \<lparr>d_serving = sample, d_unread = []\<rparr> (dir sample)" "dir_wf (dir sample)"
  "listing_size (far_end_of \<lparr>dir = dir sample, handles = [], next_handle = 0\<rparr>) < 2 ^ 30"
  using sample_wf by (simp_all add: direct_idle_def serving_wf_def listing_size_def)

lemma sample_taken:
  assumes "ready std_ext direct_linked t s" "far_end_of s = far_end_of \<lparr>dir = dir sample, handles = [], next_handle = 0\<rparr>"
    "claim_take std_claims 1 t = Some (Inr taken, t')"
  shows "taken = [\<lparr>dropped = ''a'', claimed = claim_name ''a''\<rparr>]"
proof -
  have m: "content (far_end_of s) = [''a'' \<mapsto> [1, 2]]" unfolding assms(2) by (auto simp: fun_eq_iff)
  have size: "listing_size (far_end_of s) < 2 ^ 30" using sample_directory(3) by (simp only: assms(2))
  obtain ns t1 where "claim_listed std_ext std_channel 1 t = Some (Inr (taken_of 1 (content (far_end_of s)) ns), t1)"
      "ns = filter (\<lambda>n. unclaimed n \<and> n \<noteq> ''.'' \<and> n \<noteq> ''..'') (sorted_list_of_set (dom (content (far_end_of s))))"
    by (rule session.claim_listed_returns [OF std_session assms(1) size, of 1])
  note k = this [unfolded m]
  moreover have "claim_name ''a'' \<noteq> ''a''" by (simp add: claim_name_def)
  ultimately show ?thesis using assms(3) k by (simp add: site_claims_def taken_of_def unclaimed_def direct_conns_def)
qed

theorem receive_harvests_its_server_witness:
  "\<exists>arrived w'. receive_up_to pool_exchange std_ext std_conns (Inr ()) sample_surroundings pool_ssh
      (transport_new () () std_claims ''h:22'') 1 (\<lambda>_. None) = Some (Inr arrived, w')
    \<and> map arrived_origin arrived = [''sftp://h:22/a''] \<and> map arrived_file_name arrived = [Some ''a'']"
proof -
  let ?T = "transport_new () () std_claims ''h:22'' :: (string \<Rightarrow> direct Line option, unit, unit, unit, (direct, bool) claims) SftpTransport"
  let ?c = "\<lparr>d_serving = sample, d_unread = []\<rparr>"
  have T: "authority sample_surroundings ?T = ''h:22''" "claims_made ?T = std_claims"
    by (simp_all add: authority_def sample_surroundings_def transport_new_def)
  obtain taken l where listed: "harvest_listed std_ext std_conns std_claims 1 ?c = Some (Inr taken, l)"
    by (rule moving.receive_lists [OF site_moved.moving_axioms [where now = 0] sample_directory(1,2) sample_bounded sample_directory(3), where most = 1])
  have "\<exists>arrived w'. receive_up_to pool_exchange std_ext std_conns (Inr ()) sample_surroundings pool_ssh ?T 1 (\<lambda>_. None) = Some (Inr arrived, w')"
    using listed
    by (simp add: Let_def T receive_up_to_def harvest_def harvest_result_def pool_exchange_def opening_line_def transport_connect_def
        presented_def connect_def handshake_def authenticate_def pool_ssh_def connection_new_def
        transport_new_def beside_def alongside_def bind_act_def return_act_def lift_act_def)
  then obtain arrived w' where run: "receive_up_to pool_exchange std_ext std_conns (Inr ()) sample_surroundings pool_ssh ?T 1 (\<lambda>_. None) = Some (Inr arrived, w')"
    by blast
  have connected: "c = ?c"
    if "transport_connect sample_surroundings pool_ssh ?T ''h:22'' v = Some (Inr c, v')" for c v v'
    using that by (simp add: transport_connect_def presented_def connect_def handshake_def authenticate_def pool_ssh_def
        transport_new_def beside_def alongside_def bind_act_def return_act_def lift_act_def)
  have moves: "moving std_ext std_conns direct_linked direct_idle direct_idle (claims_made ?T)"
    unfolding T by (rule site_moved.moving_axioms)
  obtain c taken where h: "\<exists>v v'. transport_connect sample_surroundings pool_ssh ?T ''h:22'' v = Some (Inr c, v')"
      "direct_idle c (dir sample) \<and> dir_wf (dir sample) \<and> dir_bounded std_ext (dir sample)
        \<and> listing_size (far_end_of \<lparr>dir = dir sample, handles = [], next_handle = 0\<rparr>) < 2 ^ 30 \<longrightarrow>
       (\<exists>t s t'. ready std_ext direct_linked t s \<and> far_end_of s = far_end_of \<lparr>dir = dir sample, handles = [], next_handle = 0\<rparr>
          \<and> claim_take std_claims 1 t = Some (Inr taken, t'))"
      "map arrived_origin arrived = map (\<lambda>k. ''sftp://'' @ ''h:22'' @ ''/'' @ dropped k) taken"
      "map arrived_file_name arrived = map (Some \<circ> dropped) taken"
    using receive_harvests_its_server [OF pool.pooling_axioms moves run] unfolding T by blast
  have "c = ?c" using h(1) connected by blast
  then have "taken = [\<lparr>dropped = ''a'', claimed = claim_name ''a''\<rparr>]"
    using h(2) sample_directory sample_bounded sample_taken by blast
  with h(3,4) run show ?thesis by simp
qed

end
