(* ===== verification/Loopback.thy ===== *)
theory Loopback
  imports Transport Tape
begin

text \<open>
  SFTP at both ends on one machine (\<open>loopback.rs\<close>): the check its far end is handed, the
  near end's send, and the arrival the far end makes of what was put. The names of the
  properties, the unpadded Base64 and the peer's address as text are other crates': the
  record \<open>properties\<close> and the peer's text.
\<close>

definition PROBE :: string where
  "PROBE = ''probe.bin''"

record properties =
  SSH_USER :: string
  SSH_KEY :: string
  SSH_SIGNATURE :: string
  SSH_SESSION :: string
  encode_unpadded :: "bytes \<Rightarrow> string"

text \<open>\<open>transport::taken::Taken\<close>: \<open>from_peer\<close> is what it observes of the peer by itself.\<close>

record LoopTaken =
  loop_origin :: string
  loop_body :: bytes
  loop_observed :: "(string \<times> string) list"

definition far_end_check ::
  "('check, 'key) login \<Rightarrow> ('w, 'key, 'pins, 'pool, 'claiming) SftpTransport \<Rightarrow> 'check" where
  "far_end_check L T = (case credential T of None \<Rightarrow> nobody L | Some own \<Rightarrow> admitted_as L own (login_user T))"

definition arrival ::
  "properties \<Rightarrow> (string \<Rightarrow> (string \<times> string) list) \<Rightarrow> string \<Rightarrow> Served \<Rightarrow> transport_error + LoopTaken" where
  "arrival P from_peer peer served = (case served_files served of
     [] \<Rightarrow> Inl (ProtocolError ''a client that connected and put nothing'')
   | (name, b) # _ \<Rightarrow>
       let who = served_who served;
           origin = ''sftp://'' @ peer @ ''/'' @ name @ ''?'' @ SSH_USER P @ ''='' @ user who;
           observed = [(SSH_USER P, user who)];
           (origin, observed) = (case auth_fingerprint who of
               Some fp \<Rightarrow> (origin @ ''&'' @ SSH_KEY P @ ''='' @ fp, observed @ [(SSH_KEY P, fp)])
             | None \<Rightarrow> (origin, observed));
           origin = (case (auth_signature who, auth_signed who) of
               (Some sig, Some covered) \<Rightarrow>
                 origin @ ''&'' @ SSH_SIGNATURE P @ ''='' @ encode_unpadded P sig
                   @ ''&'' @ SSH_SESSION P @ ''='' @ encode_unpadded P covered
             | _ \<Rightarrow> origin)
       in Inr \<lparr>loop_origin = origin, loop_body = b, loop_observed = from_peer peer @ observed\<rparr>)"

text \<open>
  The far end: bound first, and what it makes of the one stream it accepts. The socket calls
  are the tcp carrier's and the socket crate's: the record \<open>sockets\<close>.
\<close>

record ('listener, 'stream) sockets =
  bind_tcp :: "string \<Rightarrow> transport_error + 'listener"
  accept_tcp :: "'listener \<Rightarrow> duration option \<Rightarrow> transport_error + 'stream \<times> string"

definition far_end_taken ::
  "ext \<Rightarrow> 'c conns \<Rightarrow> ('stream, 'c, 'key, 'check) ssh_server \<Rightarrow> ('check, 'key) login \<Rightarrow> properties
     \<Rightarrow> (string \<Rightarrow> (string \<times> string) list) \<Rightarrow> (nat \<Rightarrow> nat \<Rightarrow> int) \<Rightarrow> 'key \<Rightarrow> 'check
     \<Rightarrow> transport_error + 'stream \<times> string \<Rightarrow> (transport_error + LoopTaken) option" where
  "far_end_taken X C V L P from_peer clock host check accepted = (case accepted of
     Inl e \<Rightarrow> Some (Inl e)
   | Inr (stream, peer) \<Rightarrow>
       map_option (\<lambda>r. rbind r (arrival P from_peer peer)) (server_serve X C V clock stream host [] check))"

definition far_end ::
  "ext \<Rightarrow> 'c conns \<Rightarrow> ('stream, 'c, 'key, 'check) ssh_server \<Rightarrow> ('check, 'key) login \<Rightarrow> properties
     \<Rightarrow> (string \<Rightarrow> (string \<times> string) list) \<Rightarrow> (nat \<Rightarrow> nat \<Rightarrow> int) \<Rightarrow> ('key, 'out) surroundings
     \<Rightarrow> ('listener, 'stream) sockets \<Rightarrow> ('w, 'key, 'pins, 'pool, 'claiming) SftpTransport
     \<Rightarrow> transport_error + 'listener \<times> (transport_error + LoopTaken) option" where
  "far_end X C V L P from_peer clock E N T =
     (let host = key_from_bytes E (replicate 32 0x5e); check = far_end_check L T
      in rbind (bind_tcp N (authority E T)) (\<lambda>listener.
           Inr (listener, far_end_taken X C V L P from_peer clock host check (accept_tcp N listener (timeout T)))))"

text \<open>What an arrival tells of its peer, by name.\<close>

definition arrival_identity :: "properties \<Rightarrow> string list" where
  "arrival_identity P = [SSH_USER P, SSH_KEY P]"

definition send_to ::
  "ext \<Rightarrow> 'c conns \<Rightarrow> ('key, 'out) surroundings \<Rightarrow> ('w, 'stream, 'c, 'pub, 'key, 'pins) ssh \<Rightarrow> 'pool
     \<Rightarrow> ('w, 'key, 'pins, 'pool, 'claiming) SftpTransport \<Rightarrow> string \<Rightarrow> bytes \<Rightarrow> ('w, unit) act" where
  "send_to X C E S new_pool T address payload =
     (let near = T\<lparr>endpoint := address, clients := new_pool\<rparr>
      in bind_act (transport_connect E S near address) (\<lambda>c w.
           map_option (\<lambda>(r, _). (r, w)) (client_put X C PROBE (held payload) c)))"

lemma probe_name: "name_ok PROBE"
  by (simp add: PROBE_def name_ok_def rust_str_ascii)

text \<open>A round: what the near end sends is what the far end makes its arrival of.\<close>

lemma loopback_arrival:
  assumes "limits X" "length payload \<le> MAX_BODY X"
    "transport_connect E S (T\<lparr>endpoint := address, clients := pool\<rparr>) address w = Some (Inr (blank (directory_new [])), w')"
    "bind_tcp N (authority E T) = Inr listener"
    "relays C V (key_from_bytes E (replicate 32 0x5e)) (far_end_check L T) (who, sid) stream"
  obtains c' where "client_put X (taped_conns X clock) PROBE (held payload) (blank (directory_new [])) = Some (Inr (), c')"
    "send_to X (taped_conns X clock) E S pool T address payload w = Some (Inr (), w')"
    "far_end X C V L P from_peer clock E (N\<lparr>accept_tcp := \<lambda>_ _. Inr (stream (t_channels c'), peer)\<rparr>) T =
       Inr (listener, Some (arrival P from_peer peer \<lparr>served_files = [(PROBE, payload)], served_who = who, served_session_id = sid\<rparr>))"
proof -
  obtain c' where p: "client_put X (taped_conns X clock) PROBE (held payload) (blank (directory_new [])) = Some (Inr (), c')"
      "server_serve X C V clock (stream (t_channels c')) (key_from_bytes E (replicate 32 0x5e)) [] (far_end_check L T) =
         Some (Inr \<lparr>served_files = [(PROBE, payload)], served_who = who, served_session_id = sid\<rparr>)"
    by (rule put_is_served [OF assms(1) probe_name streams_held assms(2,5)])
  moreover have "send_to X (taped_conns X clock) E S pool T address payload w = Some (Inr (), w')"
    using assms(3) p(1) by (simp add: send_to_def)
  ultimately show ?thesis using assms(4)
    by (intro that) (auto simp: far_end_def far_end_taken_def Let_def)
qed

section \<open>Properties\<close>

text \<open>
  The arrival is the one file put: where the served directory is empty it is refused; where
  it is not, it is the file of the least name, and what is observed of the peer is the user it
  logged in as and the fingerprint of its key where it presented one, and nothing more than its
  address gave.
\<close>

lemma arrival_is_the_file_put:
  assumes "bt_wf (served_files served)"
  shows "(served_files served = [] \<longrightarrow> (\<exists>m. arrival P from_peer peer served = Inl (ProtocolError m)))
    \<and> (served_files served \<noteq> [] \<longrightarrow> (\<exists>a n. arrival P from_peer peer served = Inr a
        \<and> bt_get (served_files served) n = Some (loop_body a)
        \<and> (\<forall>k \<in> dom (bt_get (served_files served)). n \<le> k)
        \<and> (\<exists>rest. loop_origin a = ''sftp://'' @ peer @ ''/'' @ n @ ''?'' @ rest)
        \<and> loop_observed a = from_peer peer @ (SSH_USER P, user (served_who served))
            # (case auth_fingerprint (served_who served) of Some fp \<Rightarrow> [(SSH_KEY P, fp)] | None \<Rightarrow> [])))"
proof (cases "served_files served")
  case Nil
  then show ?thesis by (simp add: arrival_def)
next
  case (Cons f fs)
  obtain n b where f: "f = (n, b)" by (cases f)
  have "n \<le> k" if "k \<in> dom (bt_get (served_files served))" for k
    using that assms Cons f by (auto simp: bt_wf_def dom_map_of_conv_image_fst)
  then show ?thesis using Cons f
    by (auto simp: arrival_def Let_def split: option.splits prod.splits)
qed

text \<open>
  C1. A round of the loopback returns the payload: sent from a near end that connects, it is put
  under the probe's name; the far end that accepts what the near end sent, and admits it, makes
  an arrival of exactly the payload, its origin the peer's address and the probe's name, and
  tells of the peer what it says it tells: its user and the fingerprint of its key.
\<close>

theorem loopback_returns_the_payload:
  assumes "limits X" "length payload \<le> MAX_BODY X"
    "transport_connect E S (T\<lparr>endpoint := address, clients := pool\<rparr>) address w = Some (Inr (blank (directory_new [])), w')"
    "bind_tcp N (authority E T) = Inr listener"
    "relays C V (key_from_bytes E (replicate 32 0x5e)) (far_end_check L T) (who, sid) stream"
    "auth_fingerprint who = Some fp"
  shows "\<exists>c' a. client_put X (taped_conns X clock) PROBE (held payload) (blank (directory_new [])) = Some (Inr (), c')
    \<and> send_to X (taped_conns X clock) E S pool T address payload w = Some (Inr (), w')
    \<and> far_end X C V L P from_peer clock E (N\<lparr>accept_tcp := \<lambda>_ _. Inr (stream (t_channels c'), peer)\<rparr>) T =
        Inr (listener, Some (Inr a))
    \<and> loop_body a = payload \<and> (\<exists>query. loop_origin a = ''sftp://'' @ peer @ ''/'' @ PROBE @ ''?'' @ query)
    \<and> loop_observed a = from_peer peer @ zip (arrival_identity P) [user who, fp]"
proof -
  obtain c' where c': "client_put X (taped_conns X clock) PROBE (held payload) (blank (directory_new [])) = Some (Inr (), c')"
    "send_to X (taped_conns X clock) E S pool T address payload w = Some (Inr (), w')"
    "far_end X C V L P from_peer clock E (N\<lparr>accept_tcp := \<lambda>_ _. Inr (stream (t_channels c'), peer)\<rparr>) T =
       Inr (listener, Some (arrival P from_peer peer \<lparr>served_files = [(PROBE, payload)], served_who = who, served_session_id = sid\<rparr>))"
    by (rule loopback_arrival [OF assms(1-5)])
  then show ?thesis using assms(6)
    by (cases "auth_signature who"; cases "auth_signed who") (simp_all add: arrival_def arrival_identity_def)
qed

text \<open>Libraries whose server admits whoever its check is for, by a key.\<close>

definition loop_ssh :: "(unit, unit, taped, unit, unit, unit) ssh" where
  "loop_ssh = \<lparr>connect_tcp = (\<lambda>_ _. return_act ()), settle = (\<lambda>_ _. return_act ()),
     conn_new = (\<lambda>_. return_act (blank (directory_new []))), banner = (\<lambda>_. return_act []),
     kex_client = (\<lambda>_ _. return_act \<lparr>host_key = [], session_id = [2]\<rparr>), parse_key = (\<lambda>_. Inr ()), fingerprint = (\<lambda>_. ''fp''),
     request_service = return_act (), auth_password = (\<lambda>_ _. return_act ()), auth_public_key = (\<lambda>_ _ _. return_act ()),
     auth_none = (\<lambda>_. return_act ()), IDENTIFICATION = [], pins_hold = (\<lambda>_ _ _. return_act ())\<rparr>"

definition loop_server :: "(bytes list list, bytes list list, unit, string) ssh_server" where
  "loop_server = sample_server\<lparr>auth_serve := (\<lambda>_ check. return_act
     \<lparr>user = check, auth_fingerprint = Some ''fp'', auth_signature = Some [1], auth_signed = Some [2]\<rparr>)\<rparr>"

definition loop_login :: "(string, unit) login" where
  "loop_login = \<lparr>only = (\<lambda>u _. u), only_key = (\<lambda>u _. u), nobody = [], verifying_blob = (\<lambda>_. [])\<rparr>"

definition loop_properties :: properties where
  "loop_properties = \<lparr>SSH_USER = ''ssh.user'', SSH_KEY = ''ssh.key'', SSH_SIGNATURE = ''ssh.signature'', SSH_SESSION = ''ssh.session'',
     encode_unpadded = chars_of\<rparr>"

definition loop_sockets :: "(unit, bytes list list) sockets" where
  "loop_sockets = \<lparr>bind_tcp = (\<lambda>_. Inr ()), accept_tcp = (\<lambda>_ _. Inl (Foreign ''nobody''))\<rparr>"

lemma relays_loop:
  "relays scripts loop_server () u (\<lparr>user = u, auth_fingerprint = Some ''fp'', auth_signature = Some [1], auth_signed = Some [2]\<rparr>, [5])
     (\<lambda>pss. pss)"
  using offers_scripts by (auto simp: relays_def loop_server_def sample_server_def server_login_def)

theorem loopback_returns_the_payload_witness:
  "\<exists>c' a. client_put std_ext (taped_conns std_ext (\<lambda>_ _. 0)) PROBE (held [7, 8]) (blank (directory_new [])) = Some (Inr (), c')
    \<and> far_end std_ext scripts loop_server loop_login loop_properties (\<lambda>_. []) (\<lambda>_ _. 0) sample_surroundings
        (loop_sockets\<lparr>accept_tcp := \<lambda>_ _. Inr (t_channels c', ''127.0.0.1:9'')\<rparr>)
        (transport_loopback sample_surroundings () () () :: (unit, unit, unit, unit, unit) SftpTransport) = Inr ((), Some (Inr a))
    \<and> loop_body a = [7, 8] \<and> loop_observed a = [(''ssh.user'', ''xmip''), (''ssh.key'', ''fp'')]"
proof -
  let ?T = "transport_loopback sample_surroundings () () () :: (unit, unit, unit, unit, unit) SftpTransport"
  have T: "far_end_check loop_login ?T = ''xmip''" "key_from_bytes sample_surroundings (replicate 32 0x5e) = ()"
    by (simp_all add: far_end_check_def transport_loopback_def timing_out_after_def with_key_def as_user_def loop_login_def)
  have 1: "length [7 :: u8, 8] \<le> MAX_BODY std_ext" by (simp add: rfc4251_def)
  have 2: "transport_connect sample_surroundings loop_ssh (?T\<lparr>endpoint := ''h:1'', clients := ()\<rparr>) ''h:1'' () =
      Some (Inr (blank (directory_new [])), ())"
    by (simp add: transport_connect_def presented_def connect_def handshake_def authenticate_def loop_ssh_def
        transport_loopback_def timing_out_after_def with_key_def as_user_def transport_new_def beside_def alongside_def
        bind_act_def return_act_def)
  have 3: "bind_tcp loop_sockets (authority sample_surroundings ?T) = Inr ()" by (simp add: loop_sockets_def)
  have 4: "relays scripts loop_server (key_from_bytes sample_surroundings (replicate 32 0x5e)) (far_end_check loop_login ?T)
      (\<lparr>user = ''xmip'', auth_fingerprint = Some ''fp'', auth_signature = Some [1], auth_signed = Some [2]\<rparr>, [5]) (\<lambda>pss. pss)"
    unfolding T by (rule relays_loop)
  have 5: "auth_fingerprint \<lparr>user = ''xmip'', auth_fingerprint = Some ''fp'', auth_signature = Some [1], auth_signed = Some [2]\<rparr> = Some ''fp''"
    by simp
  from loopback_returns_the_payload [OF rfc_limits.limits_axioms 1 2 3 4 5, where clock = "\<lambda>_ _. 0" and P = loop_properties
        and from_peer = "\<lambda>_. []" and peer = "''127.0.0.1:9''"]
  show ?thesis
    by (elim exE conjE) (intro exI conjI; (assumption | simp add: arrival_identity_def loop_properties_def))
qed

end
