(* ===== verification/Identity.thy ===== *)
theory Identity
  imports Loopback
begin

text \<open>
  What an arrival's origin tells of its peer (\<open>arrival\<close> of \<open>loopback.rs\<close>), read back the way the
  repository's test reads it: the query behind the first question mark, its fields between
  ampersands, each a name, an equals sign and the value.
\<close>

section \<open>Reading an origin\<close>

text \<open>\<open>split_once\<close>'s second part, \<open>split\<close> and \<open>strip_prefix\<close> of \<open>str\<close>.\<close>

primrec after_first :: "char \<Rightarrow> string \<Rightarrow> string option" where
  "after_first x [] = None"
| "after_first x (c # s) = (if c = x then Some s else after_first x s)"

primrec split_at :: "char \<Rightarrow> string \<Rightarrow> string list" where
  "split_at x [] = [[]]"
| "split_at x (c # s) = (if c = x then [] # split_at x s else (c # hd (split_at x s)) # tl (split_at x s))"

definition strip_prefix :: "string \<Rightarrow> string \<Rightarrow> string option" where
  "strip_prefix p s = (if take (length p) s = p then Some (drop (length p) s) else None)"

primrec find_map :: "('a \<Rightarrow> 'b option) \<Rightarrow> 'a list \<Rightarrow> 'b option" where
  "find_map f [] = None"
| "find_map f (x # xs) = (case f x of Some y \<Rightarrow> Some y | None \<Rightarrow> find_map f xs)"

definition field :: "string \<Rightarrow> string \<Rightarrow> string option" where
  "field origin name = (case after_first (CHR ''?'') origin of
     None \<Rightarrow> None
   | Some query \<Rightarrow> find_map (strip_prefix (name @ ''='')) (split_at (CHR ''&'') query))"

section \<open>Lemmas\<close>

lemma after_first_append: "x \<notin> set s \<Longrightarrow> after_first x (s @ x # t) = Some t"
  by (induction s) auto

lemma split_at_not_Nil [simp]: "split_at x s \<noteq> []"
  by (induction s) auto

lemma split_at_append: "x \<notin> set s \<Longrightarrow> split_at x (s @ x # t) = s # split_at x t"
  by (induction s) auto

lemma split_at_single: "x \<notin> set s \<Longrightarrow> split_at x s = [s]"
  by (induction s) auto

lemma strip_prefix_append [simp]: "strip_prefix p (p @ s) = Some s"
  by (simp add: strip_prefix_def)

lemma takeWhile_before: "x \<notin> set s \<Longrightarrow> takeWhile (\<lambda>c. c \<noteq> x) (s @ x # t) = s"
  by (induction s) auto

text \<open>A name without an equals sign is told from another by what stands before the first.\<close>

lemma strip_prefix_other:
  assumes "CHR ''='' \<notin> set n" "CHR ''='' \<notin> set m" "n \<noteq> m"
  shows "strip_prefix (n @ ''='') (m @ CHR ''='' # v) = None"
proof -
  have "m @ CHR ''='' # v \<noteq> n @ CHR ''='' # rest" for rest
    using takeWhile_before [OF assms(1), of rest] takeWhile_before [OF assms(2), of v] assms(3) by metis
  then have "take (Suc (length n)) (m @ CHR ''='' # v) \<noteq> n @ ''=''"
    by (metis append.assoc append_Cons append_Nil append_take_drop_id)
  then show ?thesis by (simp add: strip_prefix_def)
qed

text \<open>
  Names that tell the fields apart, and an encoding that has no ampersand, as Base64 has none.
\<close>

definition well_named :: "properties \<Rightarrow> bool" where
  "well_named P \<longleftrightarrow> distinct [SSH_USER P, SSH_KEY P, SSH_SIGNATURE P, SSH_SESSION P]
     \<and> list_all (\<lambda>n. CHR ''='' \<notin> set n \<and> CHR ''&'' \<notin> set n) [SSH_USER P, SSH_KEY P, SSH_SIGNATURE P, SSH_SESSION P]
     \<and> (\<forall>b. CHR ''&'' \<notin> set (encode_unpadded P b))"

text \<open>The fields of a query: pairs, written one after another.\<close>

fun query_of :: "(string \<times> string) list \<Rightarrow> string" where
  "query_of [] = []"
| "query_of [(n, v)] = n @ ''='' @ v"
| "query_of ((n, v) # fs) = n @ ''='' @ v @ ''&'' @ query_of fs"

lemma split_query:
  assumes "list_all (\<lambda>(n, v). CHR ''&'' \<notin> set n \<and> CHR ''&'' \<notin> set v) fs" "fs \<noteq> []"
  shows "split_at (CHR ''&'') (query_of fs) = map (\<lambda>(n, v). n @ CHR ''='' # v) fs"
  using assms
proof (induction fs rule: query_of.induct)
  case (3 n v f fs)
  have "split_at (CHR ''&'') (query_of ((n, v) # f # fs)) = (n @ CHR ''='' # v) # split_at (CHR ''&'') (query_of (f # fs))"
    using 3(2) split_at_append [of "CHR ''&''" "n @ CHR ''='' # v" "query_of (f # fs)"] by simp
  with 3 show ?case by simp
qed (simp_all add: split_at_single)

lemma find_query:
  assumes "list_all (\<lambda>(n, v). CHR ''='' \<notin> set n) fs" "CHR ''='' \<notin> set name"
  shows "find_map (strip_prefix (name @ ''='')) (map (\<lambda>(n, v). n @ CHR ''='' # v) fs) = map_of fs name"
  using assms
proof (induction fs)
  case (Cons f fs)
  obtain n v where f: "f = (n, v)" by (cases f)
  show ?case
  proof (cases "n = name")
    case True
    have "strip_prefix (name @ ''='') (name @ CHR ''='' # v) = Some v"
      using strip_prefix_append [of "name @ ''=''" v] by simp
    with True f show ?thesis by simp
  next
    case False
    with Cons f strip_prefix_other [of name n v] show ?thesis by simp
  qed
qed simp

lemma field_query:
  assumes "CHR ''?'' \<notin> set base" "fs \<noteq> []" "CHR ''='' \<notin> set name"
    "list_all (\<lambda>(n, v). CHR ''='' \<notin> set n \<and> CHR ''&'' \<notin> set n \<and> CHR ''&'' \<notin> set v) fs"
  shows "field (base @ ''?'' @ query_of fs) name = map_of fs name"
proof -
  have "list_all (\<lambda>(n, v). CHR ''&'' \<notin> set n \<and> CHR ''&'' \<notin> set v) fs" "list_all (\<lambda>(n, v). CHR ''='' \<notin> set n) fs"
    using assms(4) by (auto simp: list_all_iff)
  then show ?thesis
    using assms(1-3) by (simp add: field_def after_first_append split_query find_query)
qed

text \<open>Fields with more behind them: what they say comes first.\<close>

lemma split_query_more:
  assumes "list_all (\<lambda>(n, v). CHR ''&'' \<notin> set n \<and> CHR ''&'' \<notin> set v) fs" "fs \<noteq> []"
  shows "split_at (CHR ''&'') (query_of fs @ CHR ''&'' # rem) = map (\<lambda>(n, v). n @ CHR ''='' # v) fs @ split_at (CHR ''&'') rem"
  using assms
proof (induction fs rule: query_of.induct)
  case (2 n v)
  then show ?case using split_at_append [of "CHR ''&''" "n @ CHR ''='' # v" rem] by simp
next
  case (3 n v f fs)
  then show ?case
    using split_at_append [of "CHR ''&''" "n @ CHR ''='' # v" "query_of (f # fs) @ CHR ''&'' # rem"] by simp
qed simp

lemma find_map_append: "find_map f (xs @ ys) = (case find_map f xs of Some y \<Rightarrow> Some y | None \<Rightarrow> find_map f ys)"
  by (induction xs) (auto split: option.splits)

lemma field_query_more:
  assumes "CHR ''?'' \<notin> set base" "fs \<noteq> []" "CHR ''='' \<notin> set name" "map_of fs name = Some v"
    "list_all (\<lambda>(n, v). CHR ''='' \<notin> set n \<and> CHR ''&'' \<notin> set n \<and> CHR ''&'' \<notin> set v) fs"
  shows "field (base @ ''?'' @ query_of fs @ ''&'' @ rem) name = Some v"
proof -
  have "list_all (\<lambda>(n, v). CHR ''&'' \<notin> set n \<and> CHR ''&'' \<notin> set v) fs" "list_all (\<lambda>(n, v). CHR ''='' \<notin> set n) fs"
    using assms(5) by (auto simp: list_all_iff)
  then show ?thesis
    using assms(1-4) by (simp add: field_def after_first_append split_query_more find_query find_map_append)
qed

text \<open>The fields an arrival's origin is written with.\<close>

definition told_of :: "properties \<Rightarrow> Authenticated \<Rightarrow> (string \<times> string) list" where
  "told_of P who = (SSH_USER P, user who)
     # (case auth_fingerprint who of Some fp \<Rightarrow> [(SSH_KEY P, fp)] | None \<Rightarrow> [])
     @ (case (auth_signature who, auth_signed who) of
          (Some sig, Some covered) \<Rightarrow> [(SSH_SIGNATURE P, encode_unpadded P sig), (SSH_SESSION P, encode_unpadded P covered)]
        | _ \<Rightarrow> [])"

lemma arrival_origin:
  assumes "served_files served = (name, b) # rest"
  shows "\<exists>a. arrival P from_peer peer served = Inr a \<and> loop_body a = b
    \<and> loop_origin a = (''sftp://'' @ peer @ ''/'' @ name) @ ''?'' @ query_of (told_of P (served_who served))"
  using assms
  by (cases "auth_fingerprint (served_who served)"; cases "auth_signature (served_who served)"; cases "auth_signed (served_who served)")
    (simp_all add: arrival_def told_of_def Let_def)

lemma told_of_plain:
  assumes "well_named P" "CHR ''&'' \<notin> set (user who)" "\<forall>fp \<in> set_option (auth_fingerprint who). CHR ''&'' \<notin> set fp"
  shows "list_all (\<lambda>(n, v). CHR ''='' \<notin> set n \<and> CHR ''&'' \<notin> set n \<and> CHR ''&'' \<notin> set v) (told_of P who)"
  using assms by (auto simp: told_of_def well_named_def split: option.splits)

lemma origin_reads_back:
  assumes "well_named P" "served_files served = (name, b) # rest" "CHR ''?'' \<notin> set peer" "CHR ''?'' \<notin> set name"
    "CHR ''&'' \<notin> set (user (served_who served))" "\<forall>fp \<in> set_option (auth_fingerprint (served_who served)). CHR ''&'' \<notin> set fp"
  shows "\<exists>a. arrival P from_peer peer served = Inr a
    \<and> field (loop_origin a) (SSH_USER P) = Some (user (served_who served))
    \<and> field (loop_origin a) (SSH_KEY P) = auth_fingerprint (served_who served)
    \<and> (field (loop_origin a) (SSH_SIGNATURE P), field (loop_origin a) (SSH_SESSION P)) =
        (case (auth_signature (served_who served), auth_signed (served_who served)) of
           (Some sig, Some covered) \<Rightarrow> (Some (encode_unpadded P sig), Some (encode_unpadded P covered))
         | _ \<Rightarrow> (None, None))"
proof -
  let ?who = "served_who served" and ?base = "''sftp://'' @ peer @ ''/'' @ name"
  obtain a where a: "arrival P from_peer peer served = Inr a" "loop_origin a = ?base @ ''?'' @ query_of (told_of P ?who)"
    using arrival_origin [OF assms(2)] by blast
  have "field (loop_origin a) n = map_of (told_of P ?who) n" if "CHR ''='' \<notin> set n" for n
    unfolding a(2) using assms(3,4) that told_of_plain [OF assms(1,5,6)] by (intro field_query) (auto simp: told_of_def)
  with assms(1) a(1) show ?thesis
    by (intro exI [of _ a]) (auto simp: told_of_def well_named_def split: option.splits)
qed

section \<open>Properties\<close>

text \<open>
  C38. Every field an arrival's origin is written with reads back: the user's name, the fingerprint
  of the key where there is one, the signature and what it covers where there are both, and
  nothing for a field that was not written; as long as the file's name and the peer's address
  have no question mark, and the user's name and the fingerprint no ampersand.
\<close>

theorem origin_fields_read_back:
  assumes "well_named P" "served_files served = (name, b) # rest" "CHR ''?'' \<notin> set peer" "CHR ''?'' \<notin> set name"
    "CHR ''&'' \<notin> set (user (served_who served))" "\<forall>fp \<in> set_option (auth_fingerprint (served_who served)). CHR ''&'' \<notin> set fp"
  shows "\<exists>a. arrival P from_peer peer served = Inr a
    \<and> field (loop_origin a) (SSH_USER P) = Some (user (served_who served))
    \<and> field (loop_origin a) (SSH_KEY P) = auth_fingerprint (served_who served)
    \<and> (field (loop_origin a) (SSH_SIGNATURE P), field (loop_origin a) (SSH_SESSION P)) =
        (case (auth_signature (served_who served), auth_signed (served_who served)) of
           (Some sig, Some covered) \<Rightarrow> (Some (encode_unpadded P sig), Some (encode_unpadded P covered))
         | _ \<Rightarrow> (None, None))"
  using assms by (rule origin_reads_back)

theorem origin_fields_read_back_witness:
  "\<exists>a. arrival (loop_properties\<lparr>encode_unpadded := \<lambda>_. ''AQ''\<rparr>) (\<lambda>_. []) ''127.0.0.1:9''
        \<lparr>served_files = [(''probe.bin'', [7])],
          served_who = \<lparr>user = ''xmip'', auth_fingerprint = Some ''SHA256:k'', auth_signature = Some [1], auth_signed = None\<rparr>,
          served_session_id = [5]\<rparr> = Inr a
    \<and> field (loop_origin a) ''ssh.user'' = Some ''xmip'' \<and> field (loop_origin a) ''ssh.key'' = Some ''SHA256:k''
    \<and> field (loop_origin a) ''ssh.signature'' = None \<and> field (loop_origin a) ''ssh.session'' = None"
proof -
  let ?P = "loop_properties\<lparr>encode_unpadded := \<lambda>_. ''AQ''\<rparr>"
  have "well_named ?P" by (simp add: well_named_def loop_properties_def)
  from origin_fields_read_back [OF this, of "\<lparr>served_files = [(''probe.bin'', [7])],
      served_who = \<lparr>user = ''xmip'', auth_fingerprint = Some ''SHA256:k'', auth_signature = Some [1], auth_signed = None\<rparr>,
      served_session_id = [5]\<rparr>"
      "''probe.bin''" "[7]" "[]" "''127.0.0.1:9''" "\<lambda>_. []"]
  show ?thesis by (simp add: loop_properties_def)
qed

text \<open>
  C39. The name a client puts its file under can forge those fields. The name goes into the origin as
  it is: whoever the server admitted, whatever user and key are wished for, there is a name under
  which the client's file is put and served, and the arrival made of it has an origin that reads
  as that user's, with that key, while the user who logged in is another.
\<close>

theorem origin_can_be_forged:
  assumes "limits X" "relays C V host check (who, sid) stream" "length body \<le> MAX_BODY X" "well_named P" "CHR ''?'' \<notin> set peer"
    "CHR ''&'' \<notin> set u" "CHR ''&'' \<notin> set k" "name_ok (''x?'' @ query_of [(SSH_USER P, u), (SSH_KEY P, k)] @ ''&'')"
  shows "\<exists>name c' served a. client_put X (taped_conns X clock) name (held body) (blank (directory_new [])) = Some (Inr (), c')
    \<and> server_serve X C V clock (stream (t_channels c')) host [] check = Some (Inr served) \<and> served_who served = who
    \<and> arrival P from_peer peer served = Inr a \<and> loop_body a = body
    \<and> field (loop_origin a) (SSH_USER P) = Some u \<and> field (loop_origin a) (SSH_KEY P) = Some k"
proof -
  let ?forged = "[(SSH_USER P, u), (SSH_KEY P, k)]"
  let ?name = "''x?'' @ query_of ?forged @ ''&''" and ?base = "''sftp://'' @ peer @ ''/x''"
  obtain c' where c': "client_put X (taped_conns X clock) ?name (held body) (blank (directory_new [])) = Some (Inr (), c')"
      "server_serve X C V clock (stream (t_channels c')) host [] check =
         Some (Inr \<lparr>served_files = [(?name, body)], served_who = who, served_session_id = sid\<rparr>)"
    by (rule put_is_served [OF assms(1,8) streams_held assms(3,2)])
  obtain a where a: "arrival P from_peer peer \<lparr>served_files = [(?name, body)], served_who = who, served_session_id = sid\<rparr> = Inr a"
      "loop_body a = body" "loop_origin a = (''sftp://'' @ peer @ ''/'' @ ?name) @ ''?'' @ query_of (told_of P who)"
    using arrival_origin [of "\<lparr>served_files = [(?name, body)], served_who = who, served_session_id = sid\<rparr>"] by fastforce
  let ?rest = "''?'' @ query_of (told_of P who)"
  have "loop_origin a = ?base @ ''?'' @ query_of ?forged @ ''&'' @ ?rest" using a(3) by simp
  moreover have "field (?base @ ''?'' @ query_of ?forged @ ''&'' @ ?rest) n = Some v"
    if "map_of ?forged n = Some v" "CHR ''='' \<notin> set n" for n v
    using that assms(4-7) by (intro field_query_more) (auto simp: well_named_def)
  moreover have "map_of ?forged (SSH_USER P) = Some u" "map_of ?forged (SSH_KEY P) = Some k"
      "CHR ''='' \<notin> set (SSH_USER P)" "CHR ''='' \<notin> set (SSH_KEY P)"
    using assms(4) by (auto simp: well_named_def)
  ultimately have "field (loop_origin a) (SSH_USER P) = Some u" "field (loop_origin a) (SSH_KEY P) = Some k"
    by (simp_all only:)
  with c' a(1,2) show ?thesis by (intro exI conjI; (assumption | simp))
qed

theorem origin_can_be_forged_witness:
  "\<exists>name c' served a. client_put std_ext (taped_conns std_ext (\<lambda>_ _. 0)) name (held [7]) (blank (directory_new [])) = Some (Inr (), c')
    \<and> server_serve std_ext scripts loop_server (\<lambda>_ _. 0) (t_channels c') () [] ''guest'' = Some (Inr served)
    \<and> user (served_who served) = ''guest''
    \<and> arrival (loop_properties\<lparr>encode_unpadded := \<lambda>_. ''AQ''\<rparr>) (\<lambda>_. []) ''127.0.0.1:9'' served = Inr a
    \<and> field (loop_origin a) ''ssh.user'' = Some ''admin'' \<and> field (loop_origin a) ''ssh.key'' = Some ''SHA256:k''"
proof -
  let ?P = "loop_properties\<lparr>encode_unpadded := \<lambda>_. ''AQ''\<rparr>"
  have P: "well_named ?P" "SSH_USER ?P = ''ssh.user''" "SSH_KEY ?P = ''ssh.key''" by (simp_all add: well_named_def loop_properties_def)
  have len: "length [7 :: u8] \<le> MAX_BODY std_ext" by (simp add: rfc4251_def)
  from origin_can_be_forged [OF rfc_limits.limits_axioms relays_loop [of "''guest''"] len P(1), where peer = "''127.0.0.1:9''" and u = "''admin''" and k = "''SHA256:k''"
      and clock = "\<lambda>_ _. 0" and from_peer = "\<lambda>_. []"]
  have "\<exists>name c' served a. client_put std_ext (taped_conns std_ext (\<lambda>_ _. 0)) name (held [7]) (blank (directory_new [])) = Some (Inr (), c')
    \<and> server_serve std_ext scripts loop_server (\<lambda>_ _. 0) (t_channels c') () [] ''guest'' = Some (Inr served)
    \<and> served_who served = \<lparr>user = ''guest'', auth_fingerprint = Some ''fp'', auth_signature = Some [1], auth_signed = Some [2]\<rparr>
    \<and> arrival ?P (\<lambda>_. []) ''127.0.0.1:9'' served = Inr a \<and> loop_body a = [7]
    \<and> field (loop_origin a) ''ssh.user'' = Some ''admin'' \<and> field (loop_origin a) ''ssh.key'' = Some ''SHA256:k''"
    unfolding P(2,3) by (simp add: name_ok_def rust_str_ascii)
  then show ?thesis by (elim exE conjE) (intro exI conjI; (assumption | simp))
qed

end
