(* ===== verification/Replies.thy ===== *)
theory Replies
  imports Directory_Spec
begin

unbundle bit_operations_syntax

text \<open>
  The shape of what the far end writes: every reply is one frame, of a type the request's type
  allows (draft-ietf-secsh-filexfer-02, section 3), and carries the request's own identifier; and
  the handles the replies of a channel hand out.
\<close>

definition reply_kinds :: "u8 \<Rightarrow> u8 list" where
  "reply_kinds kind =
     (if kind = INIT then [VERSION]
      else if kind = OPEN then [HANDLE, STATUS]
      else if kind = READ then [DATA, STATUS]
      else if kind = OPENDIR then [HANDLE]
      else if kind = READDIR then [NAME, STATUS]
      else if kind = STAT then [ATTRS, STATUS]
      else if kind = WRITE \<or> kind = CLOSE \<or> kind = REMOVE \<or> kind = RENAME then [STATUS]
      else [])"

text \<open>The reply to the request \<open>rid\<close>, where there is one, is of one of the types \<open>ks\<close>.\<close>

definition echoes :: "ext \<Rightarrow> u8 list \<Rightarrow> u32 \<Rightarrow> (transport_error + bytes) \<times> 's \<Rightarrow> bool" where
  "echoes X ks rid res \<longleftrightarrow>
     (\<forall>reply. fst res = Inr reply \<longrightarrow> (\<exists>k rest. reply = frame X k (to_be32 rid @ rest) \<and> k \<in> set ks))"

definition typed :: "ext \<Rightarrow> u8 list \<Rightarrow> bytes \<Rightarrow> (transport_error + bytes) \<times> 's \<Rightarrow> bool" where
  "typed X ks body res \<longleftrightarrow> (\<forall>reply. fst res = Inr reply \<longrightarrow>
     (\<exists>k rest. reply = frame X k rest \<and> k \<in> set ks \<and> 4 \<le> length body \<and> take 4 rest = take 4 body))"

context limits
begin

lemma status_echoes:
  "length message < 2 ^ 32 \<Longrightarrow> STATUS \<in> set ks \<Longrightarrow> echoes X ks rid (Inr (status X rid c message), s)"
  by (auto simp: echoes_def status_def intro!: exI)

lemma handle_echoes: "length h < 2 ^ 32 \<Longrightarrow> HANDLE \<in> set ks \<Longrightarrow> echoes X ks rid (Inr (handle_reply X rid h), s)"
  by (auto simp: echoes_def handle_reply_def intro!: exI)

lemma open_named_echoes: "echoes X [HANDLE, STATUS] rid (open_named X now rid name flags s)"
  using length_decimal_u64 [of "next_handle s"]
  by (simp add: open_named_def Let_def status_echoes handle_echoes)

lemma open_dir_echoes: "echoes X [HANDLE] rid (open_dir X rid s)"
  using length_decimal_u64 [of "next_handle s"]
  by (simp add: open_dir_def Let_def handle_echoes)

lemma write_at_echoes: "echoes X [STATUS] rid (write_at X now rid h off data s)"
  by (auto simp: write_at_def Let_def status_echoes echoes_def [of X "[STATUS]" rid "(Inl Panic, _)"]
      intro!: status_echoes dest!: ceiling_message split: option.split Handle.split sum.split)

lemma read_from_echoes: "echoes X [DATA, STATUS] rid (read_from X rid h off (unat (want :: u32)) s)"
proof -
  have "unat want < 2 ^ 32" using unsigned_less [of want, where ?'a = nat] by simp
  then have "length (take (min (length b) (usize_saturating_add off (unat want)) - off) (drop off b)) < 2 ^ 32" for b :: bytes
    by (auto simp: usize_saturating_add_def)
  then show ?thesis
    by (auto simp: read_from_def Let_def slice_def echoes_def [of X "[DATA, STATUS]" rid "(Inl Panic, _)"] data_reply_def echoes_def [of X "[DATA, STATUS]" rid "(Inr (frame X DATA _), _)"]
        intro!: status_echoes split: option.split Handle.split simp del: length_take)
qed

lemma list_dir_echoes:
  assumes "\<forall>n \<in> fst ` set (files (dir s)). length n < 2 ^ 32"
  shows "echoes X [NAME, STATUS] rid (list_dir X rid h s)"
proof -
  have "\<exists>rest. fold (name_entry X d) fs (b @ r) = b @ rest" if "\<forall>n \<in> fst ` set fs. length n < 2 ^ 32" for d fs b r
    using that by (induction fs arbitrary: r) (auto simp: name_entry_def Let_def)
  from this [OF assms, of "dir s" "to_be32 rid" "to_be32 (u32_of_usize (length (files (dir s))))"]
  have "echoes X [NAME, STATUS] rid (Inr (name_reply X rid (dir s)), s')" for s'
    by (auto simp: echoes_def name_reply_def intro!: exI [of _ NAME])
  then show ?thesis by (auto simp: list_dir_def intro!: status_echoes split: option.split Handle.split bool.split)
qed

lemma stat_named_echoes: "echoes X [ATTRS, STATUS] rid (stat_named X rid name s)"
  by (auto simp: stat_named_def Let_def echoes_def [of X "[ATTRS, STATUS]" rid "(Inr (frame X ATTRS _), _)"]
      intro!: status_echoes split: option.split)

lemma other_echoes:
  "echoes X [STATUS] rid (close_handle X rid h s)" "echoes X [STATUS] rid (remove_named X rid n s)"
  "echoes X [STATUS] rid (rename_named X rid f t s)"
  by (auto simp: close_handle_def remove_named_def rename_named_def Let_def intro!: status_echoes split: option.split)

lemmas reply_echoes = open_named_echoes open_dir_echoes write_at_echoes stat_named_echoes other_echoes

text \<open>A handler that reads the identifier first and then acts.\<close>

lemma attempt_echoes: "(\<And>x. r = Inr x \<Longrightarrow> echoes X ks rid (k x s)) \<Longrightarrow> echoes X ks rid (attempt r k s)"
  by (cases r) (simp_all add: echoes_def)

lemma read_id:
  assumes "\<And>rid rest. echoes X ks rid (k (rid, rest) s)"
  shows "typed X ks body (attempt (r_u32_be X body) k s)"
proof (cases "r_u32_be X body")
  case (Inr p)
  obtain rid rest where p: "p = (rid, rest)" by (cases p)
  with Inr have b: "body = to_be32 rid @ rest" by (simp add: r_u32)
  have "\<exists>k rest. reply = frame X k rest \<and> k \<in> set ks \<and> 4 \<le> length body \<and> take 4 rest = take 4 body"
    if k: "fst (k p s) = Inr reply" for reply
  proof -
    obtain k' rest' where "reply = frame X k' (to_be32 rid @ rest')" "k' \<in> set ks"
      using assms [of rid rest] k unfolding p echoes_def by blast
    then show ?thesis by (intro exI [of _ k'] exI [of _ "to_be32 rid @ rest'"]) (simp add: b)
  qed
  then show ?thesis by (simp add: Inr typed_def)
qed (simp add: typed_def)

lemma requests_typed:
  "typed X [HANDLE, STATUS] body (on_open X now body s)"
  "typed X [STATUS] body (on_write X now body s)"
  "typed X [DATA, STATUS] body (on_read X body s)"
  "typed X [HANDLE] body (on_opendir X body s)"
  "typed X [STATUS] body (on_close X body s)"
  "typed X [STATUS] body (on_remove X body s)"
  "typed X [STATUS] body (on_rename X body s)"
  "typed X [ATTRS, STATUS] body (on_stat X body s)"
  unfolding request_defs
  by (auto intro!: read_id attempt_echoes reply_echoes read_from_echoes)

lemma readdir_typed:
  "\<forall>n \<in> fst ` set (files (dir s)). length n < 2 ^ 32 \<Longrightarrow> typed X [NAME, STATUS] body (on_readdir X body s)"
  unfolding request_defs
  by (auto intro!: read_id attempt_echoes list_dir_echoes)

lemma answer_typed:
  assumes "kind \<noteq> INIT" "kind = READDIR \<Longrightarrow> \<forall>n \<in> fst ` set (files (dir s)). length n < 2 ^ 32"
  shows "typed X (reply_kinds kind) body (answer X now kind body s)"
  using assms requests_typed readdir_typed
  by (auto simp: answer_def reply_kinds_def packet_types typed_def [of X "[]"])

end

section \<open>The handles handed out\<close>

text \<open>The handle a reply carries, read as the client reads it: one where it is a HANDLE, none otherwise.\<close>

definition handle_in :: "ext \<Rightarrow> bytes \<Rightarrow> string list" where
  "handle_in X reply = (case r_u32_be X reply of
     Inr (_, kind # body) \<Rightarrow>
       if kind = HANDLE
       then (case rbind (r_u32_be X body) (\<lambda>(_, reader). rbind (r_string X reader) (\<lambda>(h, _). utf8 h)) of
               Inr h \<Rightarrow> [h] | Inl _ \<Rightarrow> [])
       else []
   | _ \<Rightarrow> [])"

text \<open>The handles of a channel's replies, in order, up to the first error.\<close>

primrec handed :: "ext \<Rightarrow> (nat \<Rightarrow> int) \<Rightarrow> nat \<Rightarrow> bytes list \<Rightarrow> Serving \<Rightarrow> string list" where
  "handed X clock n [] s = []"
| "handed X clock n (p # ps) s = (case serve_request X (clock n) p s of
     (Inl _, _) \<Rightarrow> []
   | (Inr reply, s) \<Rightarrow> handle_in X reply @ handed X clock (Suc n) ps s)"

text \<open>
  What a request may hand out: nothing, or a handle made from the counter, which then goes on;
  it is in the table after.
\<close>

definition hands :: "ext \<Rightarrow> Serving \<Rightarrow> (transport_error + bytes) \<times> Serving \<Rightarrow> bool" where
  "hands X s res \<longleftrightarrow> (\<forall>reply. fst res = Inr reply \<longrightarrow>
     handle_in X reply = [] \<and> next_handle (snd res) \<in> {next_handle s, next_handle s + 1}
   \<or> (\<exists>h. handle_in X reply = [h] \<and> h \<in> {''h'' @ decimal (unat (next_handle s)), ''d'' @ decimal (unat (next_handle s))}
       \<and> next_handle (snd res) = next_handle s + 1 \<and> bt_get (handles (snd res)) h \<noteq> None))"

definition made_from :: "nat \<Rightarrow> string \<Rightarrow> bool" where
  "made_from n h \<longleftrightarrow> (\<exists>i \<ge> n. h = ''h'' @ decimal i \<or> h = ''d'' @ decimal i)"

lemma made_from_not_below: "made_from n h \<Longrightarrow> \<not> made_below n h"
  by (auto simp: made_from_def made_below_def)

lemma made_from_mono: "made_from n h \<Longrightarrow> m \<le> n \<Longrightarrow> made_from m h"
  by (auto simp: made_from_def)

lemma not_made_from_Suc:
  "\<not> made_from (Suc n) (''h'' @ decimal n)" "\<not> made_from (Suc n) (''d'' @ decimal n)"
  by (auto simp: made_from_def)

context limits
begin

lemma handle_in_frame: "kind \<noteq> HANDLE \<Longrightarrow> handle_in X (frame X kind body) = []"
  by (simp add: handle_in_def frame_bytes)

lemma handle_in_reply:
  assumes "name_ok h"
  shows "handle_in X (handle_reply X rid h) = [h]"
  using assms by (simp add: handle_in_def handle_reply_def frame_bytes name_ok_def)

lemma handle_in_other:
  "handle_in X (status X rid c message) = []" "handle_in X (data_reply X rid d) = []"
  "handle_in X (name_reply X rid dd) = []" "handle_in X (frame X ATTRS body) = []" "handle_in X (frame X VERSION body) = []"
  by (simp_all add: status_def data_reply_def name_reply_def handle_in_frame packet_types)

lemma hands_error: "hands X s (Inl e, s')"
  by (simp add: hands_def)

lemma hands_none:
  "handle_in X reply = [] \<Longrightarrow> next_handle s' = next_handle s \<or> next_handle s' = next_handle s + 1 \<Longrightarrow> hands X s (Inr reply, s')"
  by (simp add: hands_def)

lemma hands_status:
  "next_handle s' = next_handle s \<or> next_handle s' = next_handle s + 1 \<Longrightarrow> hands X s (Inr (status X rid c message), s')"
  by (rule hands_none) (rule handle_in_other)

lemma hands_handle:
  assumes "h = ''h'' @ decimal (unat (next_handle s)) \<or> h = ''d'' @ decimal (unat (next_handle s))"
    "next_handle s' = next_handle s + 1" "bt_get (handles s') h \<noteq> None"
  shows "hands X s (Inr (handle_reply X rid h), s')"
proof -
  have "name_ok h" using assms(1) handle_name_ok by auto
  with assms show ?thesis by (simp add: hands_def handle_in_reply)
qed

lemma answer_hands: "hands X s (answer X now kind body s)"
proof (rule answer_rule [where Q = "hands X s"])
  fix rid h off data
  show "hands X s (write_at X now rid h off data s)"
    by (auto simp: write_at_def Let_def intro!: hands_status hands_error split: option.split Handle.split sum.split)
next
  fix rid h off want
  show "hands X s (read_from X rid h off want s)"
    by (auto simp: read_from_def Let_def intro!: hands_status hands_error hands_none handle_in_other
        split: option.split Handle.split)
next
  fix rid n flags
  show "hands X s (open_named X now rid n flags s)"
    by (simp add: open_named_def Let_def hands_status hands_handle)
next
  fix rid
  show "hands X s (open_dir X rid s)" by (simp add: open_dir_def Let_def hands_handle)
next
  fix rid h
  show "hands X s (list_dir X rid h s)"
    by (auto simp: list_dir_def intro!: hands_status hands_none handle_in_other split: option.split Handle.split bool.split)
  show "hands X s (close_handle X rid h s)"
    by (auto simp: close_handle_def Let_def intro!: hands_status split: option.split Handle.split)
next
  fix rid n
  show "hands X s (stat_named X rid n s)"
    by (auto simp: stat_named_def Let_def intro!: hands_status hands_none handle_in_other split: option.split)
  show "hands X s (remove_named X rid n s)" by (simp add: remove_named_def Let_def hands_status)
next
  fix rid f t
  show "hands X s (rename_named X rid f t s)"
    by (auto simp: rename_named_def Let_def intro!: hands_status split: option.split)
next
  show "hands X s (on_init X s)" by (simp add: on_init_def hands_none handle_in_other)
qed (rule hands_error)

lemma serve_request_hands: "hands X s (serve_request X now p s)"
  by (cases p) (simp_all add: serve_request_def answer_hands, simp add: hands_def)

lemma serve_request_fresh:
  "handles_fresh s \<Longrightarrow> next_handle s + 1 \<noteq> 0 \<Longrightarrow> handles_fresh (snd (serve_request X now p s))"
  by (cases p) (simp_all add: serve_request_def answer_fresh)

text \<open>While the counter has not wrapped, handles made from it are new, and each is made once.\<close>

lemma handed_distinct:
  assumes "unat (next_handle s) + length ps < 2 ^ 64"
  shows "distinct (handed X clock n ps s) \<and> list_all (made_from (unat (next_handle s))) (handed X clock n ps s)"
  using assms
proof (induction ps arbitrary: n s)
  case (Cons p ps)
  obtain r s1 where r: "serve_request X (clock n) p s = (r, s1)" by fastforce
  show ?case
  proof (cases r)
    case (Inr reply)
    have next': "unat (next_handle s + 1) = Suc (unat (next_handle s))"
      using Cons.prems by (intro unat_next) (auto simp: unat_eq_0 dest!: arg_cong [of _ _ unat] simp add: unat_word_ariths)
    have h: "hands X s (r, s1)" using serve_request_hands [of s "clock n" p] by (simp only: r)
    then have "unat (next_handle s1) + length ps < 2 ^ 64" using Inr Cons.prems next' by (auto simp: hands_def)
    then have IH: "distinct (handed X clock (Suc n) ps s1)" "list_all (made_from (unat (next_handle s1))) (handed X clock (Suc n) ps s1)"
      using Cons.IH by blast+
    have up: "list_all (made_from (unat (next_handle s))) (handed X clock (Suc n) ps s1)"
      using IH(2) h Inr next' by (auto simp: hands_def list_all_iff intro: made_from_mono)
    show ?thesis using h IH up not_made_from_Suc [of "unat (next_handle s)"]
      by (auto simp: Inr r hands_def next' list_all_iff) (auto simp: made_from_def)
  qed (simp add: r)
qed simp

end

section \<open>Properties\<close>

text \<open>
  C28. No handle is handed out twice: until a channel's counter has run through 64 bits, the
  handles its replies carry are all different and none was open before; a handle a reply carries
  is in the table after that request.
\<close>

theorem handles_never_reused:
  assumes "limits X" "handles_fresh s" "unat (next_handle s) + length ps < 2 ^ 64"
  shows "distinct (handed X clock n ps s) \<and> list_all (\<lambda>h. bt_get (handles s) h = None) (handed X clock n ps s)
    \<and> (\<forall>now p reply s'. serve_request X now p s = (Inr reply, s') \<longrightarrow>
        list_all (\<lambda>h. bt_get (handles s) h = None \<and> bt_get (handles s') h \<noteq> None) (handle_in X reply))"
proof -
  have new: "bt_get (handles s) h = None" if "made_from (unat (next_handle s)) h" for h
    using made_from_not_below [OF that] handles_freshD [OF assms(2)] by (metis not_None_eq)
  have "list_all (\<lambda>h. bt_get (handles s) h = None \<and> bt_get (handles s') h \<noteq> None) (handle_in X reply)"
    if "serve_request X now p s = (Inr reply, s')" for now p reply s'
    using limits.serve_request_hands [OF assms(1), of s now p] handles_fresh_unused [OF assms(2)]
    by (auto simp: that hands_def)
  with limits.handed_distinct [OF assms(1,3)] new show ?thesis
    by (auto simp: list_all_iff)
qed

theorem handles_never_reused_witness:
  "distinct (handed std_ext (\<lambda>_. 0) 0 (replicate 3 (OPENDIR # to_be32 1 @ ssh_string [])) sample)
    \<and> handed std_ext (\<lambda>_. 0) 0 (replicate 3 (OPENDIR # to_be32 1 @ ssh_string [])) sample = map (\<lambda>i. ''d'' @ decimal i) [0, 1, 2]"
proof
  show "distinct (handed std_ext (\<lambda>_. 0) 0 (replicate 3 (OPENDIR # to_be32 1 @ ssh_string [])) sample)"
    using handles_never_reused [OF rfc_limits.limits_axioms, of sample "replicate 3 (OPENDIR # to_be32 1 @ ssh_string [])" "\<lambda>_. 0" 0]
    by (simp add: handles_fresh_def)
  show "handed std_ext (\<lambda>_. 0) 0 (replicate 3 (OPENDIR # to_be32 1 @ ssh_string [])) sample = map (\<lambda>i. ''d'' @ decimal i) [0, 1, 2]"
    by (simp add: numeral_3_eq_3 serve_request_def answer_def packet_types on_opendir_def open_dir_def Let_def rfc_limits.handle_in_reply
        handle_name_ok [of 0, simplified] handle_name_ok [of 1, simplified] handle_name_ok [of 2, simplified])
qed


text \<open>
  C23. Whatever bytes a request is, a reply to it is one frame of a type its own type allows (a
  handle or a status to OPEN, data or a status to READ, names or a status to READDIR, attributes
  or a status to STAT, a handle to OPENDIR, a status to the others) and, but for the version,
  it starts with the four bytes of identifier the request started with; the reply to INIT is the
  version, and a type the far end does not know has no reply.
\<close>

theorem replies_are_typed:
  assumes "limits X" "answer X now kind body s = (Inr reply, s')"
    "list_all (\<lambda>n. length n < 2 ^ 32) (map fst (files (dir s)))"
  shows "\<exists>k rest. reply = frame X k rest \<and> k \<in> set (reply_kinds kind)
    \<and> (if kind = INIT then rest = to_be32 PROTOCOL else 4 \<le> length body \<and> take 4 rest = take 4 body)"
proof (cases "kind = INIT")
  case True
  have "wire X" using assms(1) by (rule limits.axioms(1))
  with assms(2) True show ?thesis by (auto simp: answer_def on_init_def reply_kinds_def wire.w_u32)
next
  case False
  have "typed X (reply_kinds kind) body (answer X now kind body s)"
    using False assms(3) by (intro limits.answer_typed [OF assms(1)]) (auto simp: list_all_iff)
  with False assms(2) show ?thesis by (simp add: typed_def)
qed

theorem replies_are_typed_witness:
  "\<exists>k rest. status std_ext 7 OK ''closed'' = frame std_ext k rest \<and> k \<in> set (reply_kinds CLOSE) \<and> take 4 rest = to_be32 7"
proof -
  have "answer std_ext 0 CLOSE (to_be32 7 @ ssh_string (as_bytes ''h0'')) sample =
      (Inr (status std_ext 7 OK ''closed''), sample)"
    by (simp add: answer_def packet_types on_close_def close_handle_def bt_remove_def rust_str_ascii utf8_def)
  from replies_are_typed [OF rfc_limits.limits_axioms this] show ?thesis
    by (simp add: packet_types)
qed

end
