(* ===== verification/Scenarios.thy ===== *)
theory Scenarios
  imports Identity Replies
begin

unbundle bit_operations_syntax

text \<open>
  The repository's own tests, run on the model: each test's steps and its assertions, translated
  from its source, and the proof that they hold, not of one run but for any libraries that keep
  their laws and any reading of the clock. An \<open>expect\<close> that fails is a test that does not pass.
\<close>

fun expects :: "('e + 'a) \<times> 's \<Rightarrow> ('a \<Rightarrow> 's \<Rightarrow> bool) \<Rightarrow> bool" where
  "expects (Inr x, s) k = k x s"
| "expects (Inl e, s) k = False"

fun expect :: "'e + 'a \<Rightarrow> ('a \<Rightarrow> bool) \<Rightarrow> bool" where
  "expect (Inr x) k = k x"
| "expect (Inl e) k = False"

section \<open>The wire (subsystem.rs)\<close>

definition a_framed_packet_carries_its_type_and_body_length :: "ext \<Rightarrow> bool" where
  "a_framed_packet_carries_its_type_and_body_length X =
     (let framed = frame X OPEN (as_bytes ''abcd'')
      in take 4 framed = to_be32 5 \<and> framed ! 4 = OPEN \<and> drop 5 framed = as_bytes ''abcd'')"

definition a_status_code_and_a_name_list_read_back_off_their_bodies :: "ext \<Rightarrow> bool" where
  "a_status_code_and_a_name_list_read_back_off_their_bodies X =
     (let u32 = (\<lambda>n b. w_u32_be X b n); u64 = (\<lambda>n b. w_u64_be X b n); str = (\<lambda>t b. w_string X b (as_bytes t));
          status = str '''' (str ''done'' (u32 EOF (u32 7 [])));
          name = u32 3 (u32 1 []);
          name = u32 0 (str ''one'' (str ''one'' name));
          name = u32 9 (u32 7 (u32 420 (u32 2 (u32 1 (u64 5
            (u32 (ATTR_SIZE OR ATTR_UIDGID OR ATTR_PERMISSIONS OR ATTR_ACMODTIME) (str ''two'' (str ''two'' name))))))));
          name = str ''v'' (str ''k'' (u32 1 (u64 1 (u32 (ATTR_SIZE OR ATTR_EXTENDED) (str ''three'' (str ''three'' name))))))
      in code X status = Inr EOF
       \<and> entries X name = Inr [(''one'', None), (''two'', Some \<lparr>stamp_length = 5, stamp_modified = 9\<rparr>), (''three'', None)])"

definition a_name_that_is_not_utf8_is_refused :: bool where
  "a_name_that_is_not_utf8_is_refused = (isl (utf8 [0xff, 0xfe]) \<and> utf8 (as_bytes ''probe.bin'') = Inr ''probe.bin'')"

section \<open>The far end (directory.rs)\<close>

text \<open>
  \<open>Directory::default()\<close> is the directory of no files. The tests pass \<open>answer\<close> a counter of
  their own: \<open>at d hs n\<close> is what it acts on.
\<close>

abbreviation at :: "Directory \<Rightarrow> (string, Handle) btree \<Rightarrow> u64 \<Rightarrow> Serving" where
  "at d hs n \<equiv> \<lparr>dir = d, handles = hs, next_handle = n\<rparr>"

definition open_write ::
  "ext \<Rightarrow> int \<Rightarrow> Directory \<Rightarrow> (string, Handle) btree \<Rightarrow> (string \<Rightarrow> Directory \<Rightarrow> (string, Handle) btree \<Rightarrow> bool) \<Rightarrow> bool" where
  "open_write X now d hs k =
     (let open' = w_u32_be X (w_u32_be X (w_string X (w_u32_be X [] 1) (as_bytes ''probe.bin'')) F_WRITE) 0
      in expects (answer X now OPEN open' (at d hs 0)) (\<lambda>reply s.
         expect (r_u32_be X (drop 5 reply)) (\<lambda>(_, reader).
         expect (r_string X reader) (\<lambda>(h, _).
         expect (utf8 h) (\<lambda>handle. k handle (dir s) (handles s))))))"

definition a_write_then_a_read_returns_the_same_bytes_through_the_far_end :: "ext \<Rightarrow> (nat \<Rightarrow> int) \<Rightarrow> bool" where
  "a_write_then_a_read_returns_the_same_bytes_through_the_far_end X clock =
     open_write X (clock 0) (directory_new []) [] (\<lambda>handle d hs.
       let write = w_string X (w_u64_be X (w_string X (w_u32_be X [] 2) (as_bytes handle)) 0) (as_bytes ''hello world'')
       in expects (answer X (clock 1) WRITE write (at d hs 1)) (\<lambda>_ s.
            bt_get (files (dir s)) ''probe.bin'' = Some (as_bytes ''hello world'')))"

definition a_write_past_what_the_far_end_holds_is_refused_before_it_is_allocated :: "ext \<Rightarrow> (nat \<Rightarrow> int) \<Rightarrow> bool" where
  "a_write_past_what_the_far_end_holds_is_refused_before_it_is_allocated X clock =
     open_write X (clock 0) (directory_new []) [] (\<lambda>handle d hs.
       let write = w_string X (w_u64_be X (w_string X (w_u32_be X [] 2) (as_bytes handle)) (- 1 - 4)) (as_bytes ''hello'')
       in expects (answer X (clock 1) WRITE write (at d hs 1)) (\<lambda>reply s.
            reply ! 4 = STATUS \<and> code X (drop 5 reply) = Inr FAILURE
              \<and> (case bt_get (files (dir s)) ''probe.bin'' of None \<Rightarrow> True | Some b \<Rightarrow> b = [])))"

definition a_read_past_the_end_is_an_end_of_file_status :: "ext \<Rightarrow> int \<Rightarrow> bool" where
  "a_read_past_the_end_is_an_end_of_file_status X now =
     (let d = (directory_new [])\<lparr>files := bt_insert ''a'' (as_bytes ''xy'') []\<rparr>;
          hs = bt_insert ''h0'' (ReadHandle ''a'') [];
          read = w_u32_be X (w_u64_be X (w_string X (w_u32_be X [] 9) (as_bytes ''h0'')) 2) 10
      in expects (answer X now READ read (at d hs 1)) (\<lambda>reply s.
           reply ! 4 = STATUS \<and> code X (drop 5 reply) = Inr EOF))"

definition a_readdir_lists_once_with_stamps_then_says_end_of_directory :: "ext \<Rightarrow> (nat \<Rightarrow> int) \<Rightarrow> bool" where
  "a_readdir_lists_once_with_stamps_then_says_end_of_directory X clock =
     (let d = (directory_new [])\<lparr>files := bt_insert ''two'' (as_bytes ''xy'') (bt_insert ''one'' [] [])\<rparr>;
          hs = bt_insert ''d0'' (DirHandle False) [];
          readdir = w_string X (w_u32_be X [] 1) (as_bytes ''d0'');
          stamped = (\<lambda>name len. (name, Some \<lparr>stamp_length = len, stamp_modified = 0\<rparr>))
      in expects (answer X (clock 0) READDIR readdir (at d hs 1)) (\<lambda>first s.
           first ! 4 = NAME \<and> entries X (drop 5 first) = Inr [stamped ''one'' 0, stamped ''two'' 2]
           \<and> (let again = w_string X (w_u32_be X [] 2) (as_bytes ''d0'')
              in expects (answer X (clock 1) READDIR again (at (dir s) (handles s) 1)) (\<lambda>last s.
                   code X (drop 5 last) = Inr EOF))))"

definition a_file_written_again_lists_with_another_modification_time :: "ext \<Rightarrow> (nat \<Rightarrow> int) \<Rightarrow> bool" where
  "a_file_written_again_lists_with_another_modification_time X clock =
     open_write X (clock 0) (directory_new []) [] (\<lambda>_ d hs.
       let first = modified d ''probe.bin''
       in first > 0 \<and> open_write X (clock 1) d hs (\<lambda>_ d _. modified d ''probe.bin'' > first))"

definition its_owner_is_told_each_file_a_client_finished_writing :: "ext \<Rightarrow> (nat \<Rightarrow> int) \<Rightarrow> bool" where
  "its_owner_is_told_each_file_a_client_finished_writing X clock =
     open_write X (clock 0) (telling (directory_new [])) [] (\<lambda>handle d hs.
       heard d = []
       \<and> (let close = w_string X (w_u32_be X [] 3) (as_bytes handle)
          in expects (answer X (clock 1) CLOSE close (at d hs 1)) (\<lambda>_ s. heard (dir s) = [''probe.bin''])))"

definition an_unknown_request_type_is_refused :: "ext \<Rightarrow> int \<Rightarrow> bool" where
  "an_unknown_request_type_is_refused X now = isl (fst (answer X now 200 [] (at (directory_new []) [] 0)))"

section \<open>The login the tests share (fixture.rs)\<close>

text \<open>The password is drawn once a run: an argument.\<close>

definition USER :: string where
  "USER = ''party''"

definition fixture_check :: "('check, 'key) login \<Rightarrow> string \<Rightarrow> 'check" where
  "fixture_check L secret = only L USER secret"

definition keyed :: "('check, 'key) login \<Rightarrow> string \<Rightarrow> 'key \<Rightarrow> 'check" where
  "keyed L u key = admitted_as L (PublicKey key) u"

definition near ::
  "'pins \<Rightarrow> 'pool \<Rightarrow> 'claiming \<Rightarrow> string \<Rightarrow> string \<Rightarrow> ('w, 'key, 'pins, 'pool, 'claiming) SftpTransport" where
  "near in_memory pool process secret address = with_password secret (as_user USER (transport_new in_memory pool process address))"

section \<open>A client and a server (server.rs)\<close>

text \<open>
  The two tests in which a client puts one file and hangs up, and what the server's thread
  returns is looked at: the name and the bytes are the test's, as are the libraries.
\<close>

definition put_and_joined ::
  "ext \<Rightarrow> (nat \<Rightarrow> nat \<Rightarrow> int) \<Rightarrow> ('w, 'stream, taped, 'pub, 'key, 'pins) ssh \<Rightarrow> 'c conns
     \<Rightarrow> ('accepted, 'c, 'key, 'check) ssh_server \<Rightarrow> (bytes list list \<Rightarrow> 'accepted) \<Rightarrow> ('check, 'key) login
     \<Rightarrow> 'key \<Rightarrow> 'key \<Rightarrow> string \<Rightarrow> duration \<times> 'pins \<Rightarrow> string \<Rightarrow> bytes \<Rightarrow> 'w \<Rightarrow> (Served \<Rightarrow> bool) \<Rightarrow> bool" where
  "put_and_joined X clock S C V stream L host auth address within name body w k =
     (case connect S address ''xmip'' (Some (PublicKey auth)) (Some (fst within), snd within) w of
        Some (Inr client, _) \<Rightarrow>
          (case client_put X (taped_conns X clock) name (held body) client of
             Some (Inr _, client) \<Rightarrow>
               (case server_serve X C V clock (stream (t_channels client)) host [] (keyed L ''xmip'' auth) of
                  Some (Inr served) \<Rightarrow> k served
                | _ \<Rightarrow> False)
           | _ \<Rightarrow> False)
      | _ \<Rightarrow> False)"

definition a_client_puts_a_file_and_the_far_end_keeps_it_with_the_peers_key where
  "a_client_puts_a_file_and_the_far_end_keeps_it_with_the_peers_key X clock S C V stream L host auth address pinned w =
     put_and_joined X clock S C V stream L host auth address (5, pinned) ''probe.bin'' (as_bytes ''one exchange'') w (\<lambda>served.
       bt_get (served_files served) ''probe.bin'' = Some (as_bytes ''one exchange'')
       \<and> user (served_who served) = ''xmip''
       \<and> (case auth_fingerprint (served_who served) of Some fp \<Rightarrow> take 7 fp = ''SHA256:'' | None \<Rightarrow> False))"

definition a_large_file_crosses_whole_through_many_write_chunks where
  "a_large_file_crosses_whole_through_many_write_chunks patterned X clock S C V stream L host auth address pinned w =
     (let payload = patterned (200000 :: usize)
      in put_and_joined X clock S C V stream L host auth address (10, pinned) ''big.bin'' payload w (\<lambda>served.
           bt_get (served_files served) ''big.bin'' = Some payload))"

section \<open>The transport (lib.rs)\<close>

definition the_transport_names_itself_and_claims_its_files where
  "the_transport_names_itself_and_claims_its_files E D in_memory pool process =
     (let transport = (transport_new in_memory pool process ''sftp://host:22/in'' :: (unit, 'key, 'pins, 'pool, 'claiming) SftpTransport)
      in transport_name transport = ''sftp'' \<and> directions D transport = BOTH D \<and> transport_claims transport \<noteq> None
       \<and> authority E transport = ''host:22''
       \<and> resolve E transport ''sftp://other:22/a/b.edi'' = (''other:22'', ''b.edi'')
       \<and> resolve E transport ''plain.edi'' = (''host:22'', ''plain.edi''))"

text \<open>What the settings given come to, once read: the timeout's two seconds.\<close>

definition sftp_declares_its_settings_and_reads_through_them where
  "sftp_declares_its_settings_and_reads_through_them E in_memory pool process read =
     (let built = (configured E in_memory pool process ''sftp://courier@host:22/in'' read :: (unit, 'key, 'pins, 'pool, 'claiming) SftpTransport)
      in authority E built = ''host:22'' \<and> login_user built = ''courier'' \<and> timeout built = Some 2)"

text \<open>
  A hundred puts over one connection to a server that then hangs up, and one more over the
  connection opened in its place.
\<close>

definition SENDS :: usize where
  "SENDS = 100"

definition hundred :: "(string \<times> bytes) list" where
  "hundred = map (\<lambda>n. (decimal n @ ''.edi'', as_bytes (decimal n))) [0..<SENDS]"

definition puts_and_joined ::
  "ext \<Rightarrow> (nat \<Rightarrow> nat \<Rightarrow> int) \<Rightarrow> 'c conns \<Rightarrow> ('accepted, 'c, 'key, 'check) ssh_server \<Rightarrow> (bytes list list \<Rightarrow> 'accepted)
     \<Rightarrow> 'key \<Rightarrow> usize \<times> 'check \<Rightarrow> (string \<times> bytes) list \<Rightarrow> (Served \<Rightarrow> bool) \<Rightarrow> bool" where
  "puts_and_joined X clock C V stream host limit fs k =
     (case put_all X (taped_conns X clock) fs (blank (directory_new [])) of
        Some (Inr _, client) \<Rightarrow>
          (case serve_channels X C V clock (stream (t_channels client)) host [] limit of
             Some (Inr served) \<Rightarrow> k served
           | _ \<Rightarrow> False)
      | _ \<Rightarrow> False)"

definition a_hundred_puts_exchange_keys_once_and_a_connection_the_server_closed_is_replaced where
  "a_hundred_puts_exchange_keys_once_and_a_connection_the_server_closed_is_replaced X clock C V stream L secret host =
     (puts_and_joined X clock C V stream host (SENDS, fixture_check L secret) hundred (\<lambda>served.
        length (served_files served) = SENDS)
      \<and> puts_and_joined X clock C V stream host (usize_max, fixture_check L secret)
          [(''last.edi'', as_bytes ''after the close'')] (\<lambda>served.
        bt_get (served_files served) ''last.edi'' = Some (as_bytes ''after the close'')))"

section \<open>The loopback (loopback.rs, lib.rs)\<close>

text \<open>
  A round is the capability's (\<open>Loopback::round\<close>): the near end sends, and the far end's
  arrival is what comes of the stream it accepts.
\<close>

definition loop_round ::
  "ext \<Rightarrow> (nat \<Rightarrow> nat \<Rightarrow> int) \<Rightarrow> ('w, 'tcp, taped, 'pub, 'key, 'pins) ssh \<Rightarrow> 'c conns
     \<Rightarrow> ('stream, 'c, 'key, 'check) ssh_server \<Rightarrow> (bytes list list \<Rightarrow> 'stream) \<Rightarrow> ('check, 'key) login \<Rightarrow> properties
     \<Rightarrow> (string \<Rightarrow> (string \<times> string) list) \<Rightarrow> ('key, 'out) surroundings \<Rightarrow> ('listener, 'stream) sockets \<Rightarrow> 'pool
     \<Rightarrow> string \<times> string \<Rightarrow> 'w \<Rightarrow> ('w, 'key, 'pins, 'pool, 'claiming) SftpTransport \<Rightarrow> bytes \<Rightarrow> (LoopTaken \<Rightarrow> bool) \<Rightarrow> bool" where
  "loop_round X clock S C V stream L P from_peer E N pool ends w T payload k =
     (case transport_connect E S (T\<lparr>endpoint := fst ends, clients := pool\<rparr>) (fst ends) w of
        Some (Inr client, _) \<Rightarrow>
          (case (send_to X (taped_conns X clock) E S pool T (fst ends) payload w,
                 client_put X (taped_conns X clock) PROBE (held payload) client) of
             (Some (Inr _, _), Some (Inr _, client)) \<Rightarrow>
               (case far_end X C V L P from_peer clock E
                       (N\<lparr>accept_tcp := \<lambda>_ _. Inr (stream (t_channels client), snd ends)\<rparr>) T of
                  Inr (_, Some (Inr arrived)) \<Rightarrow> k arrived
                | _ \<Rightarrow> False)
           | _ \<Rightarrow> False)
      | _ \<Rightarrow> False)"

definition the_loopback_returns_the_edge_payloads_whole where
  "the_loopback_returns_the_edge_payloads_whole edge_payloads round =
     list_all (\<lambda>(name :: string, bytes). round bytes (\<lambda>arrived. loop_body arrived = bytes)) edge_payloads"

fun contains :: "string \<Rightarrow> string \<Rightarrow> bool" where
  "contains part [] = (part = [])"
| "contains part (c # s) = (take (length part) (c # s) = part \<or> contains part s)"

definition the_loopback_puts_a_file_and_takes_it_with_the_peer_on_the_arrival where
  "the_loopback_puts_a_file_and_takes_it_with_the_peer_on_the_arrival round =
     (let payload = as_bytes (''UNA:+.? '' @ [CHR 0x27])
      in round payload (\<lambda>arrived.
           loop_body arrived = payload
           \<and> take 17 (loop_origin arrived) = ''sftp://127.0.0.1:''
           \<and> contains ''/probe.bin?'' (loop_origin arrived)
           \<and> contains ''ssh.user=xmip'' (loop_origin arrived)
           \<and> contains ''ssh.key=SHA256:'' (loop_origin arrived)
           \<and> contains ''ssh.signature='' (loop_origin arrived)
           \<and> contains ''ssh.session='' (loop_origin arrived)))"

text \<open>
  The fields of the arrival's origin are read back, decoded, and the signature verified under the
  key the signed data names; decoding, the signed data and the key are other crates'.
\<close>

record 'pub verifier =
  base64_decode :: "string \<Rightarrow> transport_error + bytes"
  signed_data_read :: "bytes \<Rightarrow> transport_error + string \<times> bytes"
  key_parse :: "bytes \<Rightarrow> transport_error + 'pub"
  key_fingerprint :: "'pub \<Rightarrow> string"
  key_verify :: "'pub \<Rightarrow> bytes \<Rightarrow> bytes \<Rightarrow> transport_error + unit"

definition the_arrival_carries_what_the_key_signed_and_it_verifies_under_that_key where
  "the_arrival_carries_what_the_key_signed_and_it_verifies_under_that_key P D round =
     round (as_bytes ''signed'') (\<lambda>arrived.
       let named = (\<lambda>name k. case field (loop_origin arrived) name of Some v \<Rightarrow> k v | None \<Rightarrow> False)
       in named (SSH_SESSION P) (\<lambda>session. named (SSH_SIGNATURE P) (\<lambda>sig.
          expect (base64_decode D session) (\<lambda>signed.
          expect (base64_decode D sig) (\<lambda>signature.
          expect (signed_data_read D signed) (\<lambda>(data_user, blob).
          expect (key_parse D blob) (\<lambda>key.
            named (SSH_USER P) (\<lambda>u. data_user = u)
            \<and> named (SSH_KEY P) (\<lambda>fp. key_fingerprint D key = fp)
            \<and> expect (key_verify D key signed signature) (\<lambda>_. True))))))))"

section \<open>The tests pass\<close>

context limits
begin

lemma utf8_ascii: "\<forall>c \<in> set t. (of_nat (of_char c) :: u8) < 0x80 \<Longrightarrow> utf8 (as_bytes t) = Inr t"
  by (simp add: utf8_def rust_str_ascii)

lemma framed_packet: "a_framed_packet_carries_its_type_and_body_length X"
  by (simp add: a_framed_packet_carries_its_type_and_body_length_def frame_bytes nth_append)

lemma read_entries_3: "read_entries X 3 = read_entries X (Suc (Suc (Suc 0)))" "read_entries X 2 = read_entries X (Suc (Suc 0))"
  by (simp_all only: numeral_3_eq_3 numeral_2_eq_2)

lemma status_and_names: "a_status_code_and_a_name_list_read_back_off_their_bodies X"
  by (simp add: a_status_code_and_a_name_list_read_back_off_their_bodies_def Let_def entries_def stamp_def attr_flags
      utf8_ascii read_entries_3)

lemma not_utf8: "a_name_that_is_not_utf8_is_refused"
  by (simp add: a_name_that_is_not_utf8_is_refused_def utf8_ascii)
    (simp add: utf8_def from_utf8_def utf8_valid.simps utf8_char_def)

lemma open_write_run:
  "open_write X now d hs k = k ''h0'' (touch now ''probe.bin''
      (if bt_contains (files d) ''probe.bin'' then d else d\<lparr>files := bt_insert ''probe.bin'' [] (files d)\<rparr>))
     (bt_insert ''h0'' (WriteHandle ''probe.bin'') hs)"
  by (simp add: open_write_def Let_def answer_def packet_types on_open_def open_named_def open_flags utf8_ascii
      handle_reply_def frame_bytes)

lemma write_then_read:
  assumes "11 \<le> MAX_BODY X"
  shows "a_write_then_a_read_returns_the_same_bytes_through_the_far_end X clock"
  using assms ceiling [of "Suc (Suc (Suc (Suc (Suc (Suc (Suc (Suc (Suc (Suc (Suc 0))))))))))" "MAX_BODY X"]
  by (auto simp: a_write_then_a_read_returns_the_same_bytes_through_the_far_end_def open_write_run Let_def answer_def packet_types
      on_write_def write_at_def utf8_ascii usize_saturating_add_def usize_max_def copy_into_def resize_def directory_new_def
      bt_contains_def touch_def split: sum.splits)

lemma write_past: "a_write_past_what_the_far_end_holds_is_refused_before_it_is_allocated X clock"
proof -
  have "\<not> usize_max \<le> MAX_BODY X" using max_body by simp
  then obtain m where "ceiling_within X usize_max (MAX_BODY X) ''Xmip holds of one file'' = Inl m" "length m < 2 ^ 32"
    using ceiling [of usize_max "MAX_BODY X" "''Xmip holds of one file''"] ceiling_message [of usize_max "MAX_BODY X" "''Xmip holds of one file''"]
    by (cases "ceiling_within X usize_max (MAX_BODY X) ''Xmip holds of one file''") (auto dest!: ceiling_message)
  then show ?thesis
    by (simp add: a_write_past_what_the_far_end_holds_is_refused_before_it_is_allocated_def open_write_run Let_def answer_def packet_types
      on_write_def write_at_def utf8_ascii usize_saturating_add_def usize_max_def directory_new_def status_def frame_bytes
      bt_contains_def touch_def nth_append)
qed

lemma read_past: "a_read_past_the_end_is_an_end_of_file_status X now"
  by (simp add: a_read_past_the_end_is_an_end_of_file_status_def Let_def answer_def packet_types on_read_def read_from_def utf8_ascii
      directory_new_def status_def frame_bytes nth_append)

lemma readdir_once: "a_readdir_lists_once_with_stamps_then_says_end_of_directory X clock"
  by (simp add: a_readdir_lists_once_with_stamps_then_says_end_of_directory_def Let_def answer_def packet_types on_readdir_def
      list_dir_def utf8_ascii directory_new_def status_def frame_bytes name_reply_def name_entry_def entries_def stamp_def attr_flags
      read_entries_3 modified_def nth_append)

lemma written_again:
  assumes "clock 0 < 2 ^ 32 - 1"
  shows "a_file_written_again_lists_with_another_modification_time X clock"
proof -
  let ?one = "touch (clock 0) ''probe.bin'' ((directory_new [])\<lparr>files := [(''probe.bin'', [])]\<rparr>)"
  have one: "modified ?one ''probe.bin'' = newest ?one" "newest ?one = max (clock_u32 (clock 0)) 1"
    by (simp_all add: modified_def touch_def Let_def directory_new_def u32_saturating_add_def u32_max_def)
  have "clock_u32 (clock 0) < u32_max"
    using assms by (auto simp: clock_u32_def u32_max_def word_less_def uint_word_of_int take_bit_eq_mod)
  then have "newest ?one < u32_max" by (simp add: one u32_max_def)
  have later: "u32_saturating_add (newest d) 1 \<le> modified (touch now n d) n" for d now n
    by (simp add: touch_def Let_def modified_def)
  from \<open>newest ?one < u32_max\<close> have "newest ?one < u32_saturating_add (newest ?one) 1" by (rule u32_saturating_add_gt)
  also have "\<dots> \<le> modified (touch (clock 1) ''probe.bin'' ?one) ''probe.bin''" by (rule later)
  finally have "newest ?one < modified (touch (clock 1) ''probe.bin'' ?one) ''probe.bin''" .
  moreover have "0 < newest ?one" by (simp add: one less_max_iff_disj)
  ultimately show ?thesis
    by (simp add: a_file_written_again_lists_with_another_modification_time_def open_write_run Let_def one bt_contains_def)
qed

lemma owner_told: "its_owner_is_told_each_file_a_client_finished_writing X clock"
  by (simp add: its_owner_is_told_each_file_a_client_finished_writing_def open_write_run Let_def answer_def packet_types on_close_def
      close_handle_def utf8_ascii telling_def directory_new_def touch_def bt_contains_def)

lemma unknown_refused: "an_unknown_request_type_is_refused X now"
  by (simp add: an_unknown_request_type_is_refused_def answer_def packet_types)

lemma put_and_joined_served:
  assumes "connect S address ''xmip'' (Some (PublicKey auth)) (Some (fst within), snd within) w = Some (Inr (blank (directory_new [])), w')"
    "relays C V host (keyed L ''xmip'' auth) (who, sid) stream" "name_ok name" "length body \<le> MAX_BODY X"
  shows "put_and_joined X clock S C V stream L host auth address within name body w k =
    k \<lparr>served_files = [(name, body)], served_who = who, served_session_id = sid\<rparr>"
  using put_is_served [OF limits_axioms assms(3) streams_held assms(4,2), of clock] assms(1)
  by (fastforce simp: put_and_joined_def)

lemma one_put:
  assumes "connect S address ''xmip'' (Some (PublicKey auth)) (Some 5, pinned) w = Some (Inr (blank (directory_new [])), w')"
    "relays C V host (keyed L ''xmip'' auth) (who, sid) stream" "user who = ''xmip''" "auth_fingerprint who = Some (''SHA256:'' @ digest)"
    "12 \<le> MAX_BODY X"
  shows "a_client_puts_a_file_and_the_far_end_keeps_it_with_the_peers_key X clock S C V stream L host auth address pinned w"
proof -
  have "name_ok ''probe.bin''" by (simp add: name_ok_def rust_str_ascii)
  then show ?thesis using assms
    by (simp add: a_client_puts_a_file_and_the_far_end_keeps_it_with_the_peers_key_def put_and_joined_served
        [where within = "(5, pinned)", OF _ assms(2), simplified, OF assms(1)])
qed

lemma large_put:
  assumes "connect S address ''xmip'' (Some (PublicKey auth)) (Some 10, pinned) w = Some (Inr (blank (directory_new [])), w')"
    "relays C V host (keyed L ''xmip'' auth) (who, sid) stream" "length (patterned 200000) = 200000" "200000 \<le> MAX_BODY X"
  shows "a_large_file_crosses_whole_through_many_write_chunks patterned X clock S C V stream L host auth address pinned w"
proof -
  have "name_ok ''big.bin''" by (simp add: name_ok_def rust_str_ascii)
  then show ?thesis using assms(3,4)
    by (simp add: a_large_file_crosses_whole_through_many_write_chunks_def Let_def put_and_joined_served
        [where within = "(10, pinned)", OF _ assms(2), simplified, OF assms(1)])
qed

lemma puts_and_joined_served:
  assumes "relays C V host check (who, sid) stream" "puts_ok X fs" "fs \<noteq> []"
    "\<And>served. bt_wf (served_files served) \<Longrightarrow> bt_get (served_files served) = map_of (rev (take (max 1 most) fs)) \<Longrightarrow> k served"
  shows "puts_and_joined X clock C V stream host (most, check) fs k"
proof -
  from taped_put_all [OF limits_axioms idle_blank empty_directory assms(2), of clock] obtain c' pss d where
    c': "put_all X (taped_conns X clock) fs (blank (directory_new [])) = Some (Inr (), c')" "t_channels c' = pss" "length pss = length fs"
    and d: "serve_each X clock 0 (take (max 1 most) pss) (directory_new []) = (Inr (), d)"
      "bt_get (files d) = map_of (rev (take (max 1 most) fs))" "dir_wf d"
    by (auto dest: spec [of _ "max 1 most"])
  have "pss \<noteq> []" using assms(3) c'(3) by auto
  then show ?thesis
    using c'(1,2) d(2,3) serve_channels_relayed [OF assms(1) _ d(1)]
    by (auto simp: puts_and_joined_def dir_wf_def intro!: assms(4))
qed

lemma hundred_ok:
  assumes "3 \<le> MAX_BODY X"
  shows "puts_ok X hundred" "distinct (map fst hundred)" "length hundred = SENDS"
proof -
  have "rust_str ''.edi''" by (rule rust_str_ascii) simp
  moreover have "length (decimal n) \<le> 3" if "n < SENDS" for n
    using that by (intro length_decimal) (simp_all add: SENDS_def)
  ultimately show "puts_ok X hundred"
    using assms by (fastforce simp: puts_ok_def hundred_def list_all_iff name_ok_def intro: rust_str_append)
  show "distinct (map fst hundred)" by (simp add: hundred_def distinct_map inj_on_def comp_def)
qed (simp add: hundred_def)

lemma hundred_puts:
  assumes "relays C V host (fixture_check L secret) (who, sid) stream" "15 \<le> MAX_BODY X"
  shows "a_hundred_puts_exchange_keys_once_and_a_connection_the_server_closed_is_replaced X clock C V stream L secret host"
proof -
  have h: "puts_ok X hundred" "distinct (map fst hundred)" "length hundred = SENDS" "hundred \<noteq> []"
    using hundred_ok assms(2) by (auto simp: SENDS_def)
  have "length m = SENDS" if "bt_wf m" "bt_get m = map_of (rev (take (max 1 SENDS) hundred))" for m
  proof -
    have "dom (bt_get m) = fst ` set hundred" using that(2) h(3) by (simp add: dom_map_of_conv_image_fst SENDS_def)
    then have "set (map fst m) = set (map fst hundred)" by (simp add: dom_map_of_conv_image_fst)
    moreover have "distinct (map fst m)" using that(1) by (simp add: bt_wf_def strict_sorted_iff)
    ultimately show ?thesis using h(2,3) by (metis distinct_card length_map)
  qed
  then have "puts_and_joined X clock C V stream host (SENDS, fixture_check L secret) hundred (\<lambda>served. length (served_files served) = SENDS)"
    by (intro puts_and_joined_served [OF assms(1) h(1,4)]) auto
  moreover have "puts_ok X [(''last.edi'', as_bytes ''after the close'')]"
    using assms(2) by (simp add: puts_ok_def name_ok_def rust_str_ascii)
  then have "puts_and_joined X clock C V stream host (usize_max, fixture_check L secret) [(''last.edi'', as_bytes ''after the close'')]
      (\<lambda>served. bt_get (served_files served) ''last.edi'' = Some (as_bytes ''after the close''))"
    by (rule puts_and_joined_served [OF assms(1)]) (simp_all add: usize_max_def)
  ultimately show ?thesis
    by (simp add: a_hundred_puts_exchange_keys_once_and_a_connection_the_server_closed_is_replaced_def)
qed

end

lemma contains_append: "contains part (pre @ part @ suf)"
proof (induction pre)
  case Nil
  have "take (length part) (part @ suf) = part" by simp
  then show ?case by (cases "part @ suf") (simp_all del: take_append)
qed simp

lemma containsI: "s = pre @ part @ suf \<Longrightarrow> contains part s"
  by (simp only: contains_append)

context limits
begin

lemma loop_round_run:
  assumes "transport_connect E S (T\<lparr>endpoint := fst ends, clients := pool\<rparr>) (fst ends) w = Some (Inr (blank (directory_new [])), w')"
    "bind_tcp N (authority E T) = Inr listener"
    "relays C V (key_from_bytes E (replicate 32 0x5e)) (far_end_check L T) (who, sid) stream"
    "length payload \<le> MAX_BODY X"
    "arrival P from_peer (snd ends) \<lparr>served_files = [(PROBE, payload)], served_who = who, served_session_id = sid\<rparr> = Inr a"
  shows "loop_round X clock S C V stream L P from_peer E N pool ends w T payload k = k a"
proof -
  obtain c' where "client_put X (taped_conns X clock) PROBE (held payload) (blank (directory_new [])) = Some (Inr (), c')"
    "send_to X (taped_conns X clock) E S pool T (fst ends) payload w = Some (Inr (), w')"
    "far_end X C V L P from_peer clock E (N\<lparr>accept_tcp := \<lambda>_ _. Inr (stream (t_channels c'), snd ends)\<rparr>) T =
       Inr (listener, Some (arrival P from_peer (snd ends) \<lparr>served_files = [(PROBE, payload)], served_who = who, served_session_id = sid\<rparr>))"
    by (rule loopback_arrival [OF limits_axioms assms(4,1,2,3)])
  with assms(1,5) show ?thesis by (simp add: loop_round_def)
qed

lemma edge_payloads_whole:
  assumes "transport_connect E S (T\<lparr>endpoint := fst ends, clients := pool\<rparr>) (fst ends) w = Some (Inr (blank (directory_new [])), w')"
    "bind_tcp N (authority E T) = Inr listener"
    "relays C V (key_from_bytes E (replicate 32 0x5e)) (far_end_check L T) (who, sid) stream"
    "list_all (\<lambda>(name, b). length b \<le> MAX_BODY X) payloads"
  shows "the_loopback_returns_the_edge_payloads_whole payloads (loop_round X clock S C V stream L P from_peer E N pool ends w T)"
proof -
  have "loop_round X clock S C V stream L P from_peer E N pool ends w T b (\<lambda>arrived. loop_body arrived = b)"
    if b: "length b \<le> MAX_BODY X" for b
  proof -
    obtain a where "arrival P from_peer (snd ends) \<lparr>served_files = [(PROBE, b)], served_who = who, served_session_id = sid\<rparr> = Inr a"
      "loop_body a = b"
      by (cases "auth_fingerprint who"; cases "auth_signature who"; cases "auth_signed who") (simp_all add: arrival_def)
    with loop_round_run [OF assms(1-3) b] show ?thesis by simp
  qed
  then show ?thesis using assms(4)
    by (auto simp: the_loopback_returns_the_edge_payloads_whole_def list_all_iff)
qed

lemma peer_on_the_arrival:
  assumes "transport_connect E S (T\<lparr>endpoint := fst ends, clients := pool\<rparr>) (fst ends) w = Some (Inr (blank (directory_new [])), w')"
    "bind_tcp N (authority E T) = Inr listener"
    "relays C V (key_from_bytes E (replicate 32 0x5e)) (far_end_check L T)
       (\<lparr>user = ''xmip'', auth_fingerprint = Some (''SHA256:'' @ digest), auth_signature = Some sig, auth_signed = Some covered\<rparr>, sid) stream"
    "9 \<le> MAX_BODY X" "snd ends = ''127.0.0.1:'' @ port"
    "SSH_USER P = ''ssh.user''" "SSH_KEY P = ''ssh.key''" "SSH_SIGNATURE P = ''ssh.signature''" "SSH_SESSION P = ''ssh.session''"
  shows "the_loopback_puts_a_file_and_takes_it_with_the_peer_on_the_arrival (loop_round X clock S C V stream L P from_peer E N pool ends w T)"
proof -
  let ?who = "\<lparr>user = ''xmip'', auth_fingerprint = Some (''SHA256:'' @ digest), auth_signature = Some sig, auth_signed = Some covered\<rparr>"
  let ?b = "as_bytes (''UNA:+.? '' @ [CHR 0x27])"
  let ?one = "''sftp://'' @ ''127.0.0.1:'' @ port" and ?user = "''ssh.user=xmip''"
    and ?key = "''ssh.key=SHA256:''" and ?sig = "''ssh.signature=''" and ?ses = "''ssh.session=''"
  let ?origin = "?one @ ''/probe.bin?'' @ ?user @ ''&'' @ ?key @ digest @ ''&'' @ ?sig @ encode_unpadded P sig @ ''&'' @ ?ses @ encode_unpadded P covered"
  have a: "arrival P from_peer (snd ends) \<lparr>served_files = [(PROBE, ?b)], served_who = ?who, served_session_id = sid\<rparr> =
      Inr \<lparr>loop_origin = ?origin, loop_body = ?b, loop_observed = from_peer (snd ends) @ [(SSH_USER P, ''xmip''), (SSH_KEY P, ''SHA256:'' @ digest)]\<rparr>"
    using assms(5-) by (simp add: arrival_def PROBE_def)
  have "contains ''/probe.bin?'' ?origin" by (rule containsI [of _ ?one]) simp
  moreover have "contains ?user ?origin" by (rule containsI [of _ "?one @ ''/probe.bin?''"]) simp
  moreover have "contains ?key ?origin" by (rule containsI [of _ "?one @ ''/probe.bin?'' @ ?user @ ''&''"]) simp
  moreover have "contains ?sig ?origin"
    by (rule containsI [of _ "?one @ ''/probe.bin?'' @ ?user @ ''&'' @ ?key @ digest @ ''&''"]) simp
  moreover have "contains ?ses ?origin"
    by (rule containsI [of _ "?one @ ''/probe.bin?'' @ ?user @ ''&'' @ ?key @ digest @ ''&'' @ ?sig @ encode_unpadded P sig @ ''&''"]) simp
  moreover have "take 17 ?origin = ''sftp://127.0.0.1:''" by simp
  moreover have "length ?b \<le> MAX_BODY X" using assms(4) by simp
  ultimately show ?thesis
    unfolding the_loopback_puts_a_file_and_takes_it_with_the_peer_on_the_arrival_def Let_def
    by (subst loop_round_run [OF assms(1-3) _ a]) (simp_all only: LoopTaken.simps simp_thms)
qed

lemma signed_arrival_verifies:
  assumes "transport_connect E S (T\<lparr>endpoint := fst ends, clients := pool\<rparr>) (fst ends) w = Some (Inr (blank (directory_new [])), w')"
    "bind_tcp N (authority E T) = Inr listener"
    "relays C V (key_from_bytes E (replicate 32 0x5e)) (far_end_check L T) (who, sid) stream"
    "6 \<le> MAX_BODY X" "CHR ''?'' \<notin> set (snd ends)" "well_named P" "CHR ''&'' \<notin> set (user who)" "CHR ''&'' \<notin> set fp"
    "auth_fingerprint who = Some fp" "auth_signature who = Some sig" "auth_signed who = Some covered"
    "\<And>b. base64_decode D (encode_unpadded P b) = Inr b"
    "signed_data_read D covered = Inr (user who, blob)" "key_parse D blob = Inr key" "key_fingerprint D key = fp"
    "key_verify D key covered sig = Inr ()"
  shows "the_arrival_carries_what_the_key_signed_and_it_verifies_under_that_key P D (loop_round X clock S C V stream L P from_peer E N pool ends w T)"
proof -
  let ?served = "\<lparr>served_files = [(PROBE, as_bytes ''signed'')], served_who = who, served_session_id = sid\<rparr>"
  have "CHR ''?'' \<notin> set PROBE" by (simp add: PROBE_def)
  then obtain a where a: "arrival P from_peer (snd ends) ?served = Inr a" "field (loop_origin a) (SSH_USER P) = Some (user who)"
      "field (loop_origin a) (SSH_KEY P) = Some fp" "field (loop_origin a) (SSH_SIGNATURE P) = Some (encode_unpadded P sig)"
      "field (loop_origin a) (SSH_SESSION P) = Some (encode_unpadded P covered)"
    using origin_reads_back [OF assms(6), of ?served PROBE "as_bytes ''signed''" "[]" "snd ends" from_peer] assms(5,7-11) by auto
  show ?thesis
    unfolding the_arrival_carries_what_the_key_signed_and_it_verifies_under_that_key_def
    by (subst loop_round_run [OF assms(1-3) _ a(1)]) (use assms(4,12-) a in simp_all)
qed

end

text \<open>The near end the fixture makes is the one its far end's check admits.\<close>

lemma near_is_admitted: "far_end_check L (near in_memory pool process secret address) = fixture_check L secret"
  by (simp add: far_end_check_def near_def with_password_def as_user_def transport_new_def fixture_check_def)

text \<open>
  The addresses of the two tests of the transport, taken apart as \<open>net::Target\<close> takes them: the
  scheme, the user, the authority and the path.
\<close>

lemma transport_names_itself:
  assumes "under E SCHEMES ''sftp://host:22/in'' = Some \<lparr>named_authority = ''host:22'', named_path = ''/in'', named_user = None\<rparr>"
    "under E SCHEMES ''sftp://other:22/a/b.edi'' = Some \<lparr>named_authority = ''other:22'', named_path = ''/a/b.edi'', named_user = None\<rparr>"
    "under E SCHEMES ''plain.edi'' = None"
  shows "the_transport_names_itself_and_claims_its_files E D in_memory pool process"
  using assms by (simp add: the_transport_names_itself_and_claims_its_files_def transport_name_def directions_def transport_claims_def
      authority_def resolve_def transport_new_def last_segment_def)

lemma settings_read:
  assumes "under E SCHEMES ''sftp://courier@host:22/in'' =
      Some \<lparr>named_authority = ''host:22'', named_path = ''/in'', named_user = Some ''courier''\<rparr>" "read ''timeout'' = Some 2"
  shows "sftp_declares_its_settings_and_reads_through_them E in_memory pool process read"
  using assms by (simp add: sftp_declares_its_settings_and_reads_through_them_def authority_def configured_fields)

end
