(* ===== verification/Scenarios_Connect.thy ===== *)
theory Scenarios_Connect
  imports Scenarios
begin

text \<open>
  The repository's tests of who is connected to and as whom: a server held to its pinned key, a
  Location that presents the key its secret holds, a key turned down, and the listing after the
  one that found a file. The pool, the pins and the secrets are other crates': what the tests
  rely on of them is a premise.
\<close>

fun message :: "transport_error \<Rightarrow> string" where
  "message (ProtocolError m) = m"
| "message (RetryableError m) = m"
| "message (PermanentError m) = m"
| "message (Foreign m) = m"
| "message Panic = []"

fun retryable :: "transport_error \<Rightarrow> bool" where
  "retryable (RetryableError _) \<longleftrightarrow> True"
| "retryable _ \<longleftrightarrow> False"

section \<open>The tests\<close>

text \<open>What two listings take: a file is taken by the listing after the one that found it unchanged.\<close>

definition settled :: "('w, Arrived list) act \<Rightarrow> ('w, Arrived list) act" where
  "settled receive = bind_act receive (\<lambda>first. if first \<noteq> [] then return_act first else receive)"

text \<open>Each near end has a pool of its own, and sends in the world it is in by then.\<close>

definition a_server_is_held_to_the_host_key_it_presented_first_and_refused_another where
  "a_server_is_held_to_the_host_key_it_presented_first_and_refused_another exch X clock E S process secret address
       pins1 pool1 w1 elsewhere pool2 w2 =
     (let made = (\<lambda>held_pins pool. pinned_by held_pins (timing_out_after 5 (near held_pins pool process secret address)))
      in (case send_from exch X (taped_conns X clock) held E S (made pins1 pool1) ''first.edi'' (as_bytes ''pinned'') w1 of
            Some (Inr _, _) \<Rightarrow> True
          | _ \<Rightarrow> False)
       \<and> (case bind_act (pins_hold S elsewhere (''sftp://'' @ address) ''SHA256:another'') (\<lambda>_.
                 send_from exch X (taped_conns X clock) held E S (made elsewhere pool2) ''second.edi'' (as_bytes ''refused'')) w2 of
            Some (Inl refused, _) \<Rightarrow> \<not> retryable refused \<and> contains ''SHA256:another'' (message refused)
          | _ \<Rightarrow> False))"

definition a_key_that_signs_for_a_user_it_is_not_enrolled_for_is_turned_down where
  "a_key_that_signs_for_a_user_it_is_not_enrolled_for_is_turned_down X clock S C V L host auth address stream in_memory w =
     ((case connect S address ''payroll'' (Some (PublicKey auth)) (Some 5, in_memory) w of
         Some (Inl refused, _) \<Rightarrow> contains ''turned'' (message refused)
       | _ \<Rightarrow> False)
      \<and> (case server_serve X C V clock stream host [] (keyed L ''orders'' auth) of
           Some served \<Rightarrow> isl served
         | None \<Rightarrow> False))"

definition a_location_presents_the_key_its_secret_holds_and_says_one_not_set where
  "a_location_presents_the_key_its_secret_holds_and_says_one_not_set exch X clock E S C V stream L in_memory process host auth expected
       unset pool1 w1 given pool2 address w2 =
     (let first = secured_by unset (transport_new in_memory pool1 process ''127.0.0.1:9'');
          second = secured_by given (timing_out_after 5 (as_user ''party'' (transport_new in_memory pool2 process address)))
      in (case send_from exch X (taped_conns X clock) held E S first ''probe.bin'' (as_bytes ''x'') w1 of
            Some (Inl refused, _) \<Rightarrow> contains ([CHR 0x27] @ ''partner-x.sftp'' @ [CHR 0x27] @ '' is not set'') (message refused)
          | _ \<Rightarrow> False)
       \<and> (case (send_from exch X (taped_conns X clock) held E S second ''probe.bin'' (as_bytes ''keyed'') w2,
                transport_connect E S second (authority E second) w2) of
            (Some (Inr _, _), Some (Inr client, _)) \<Rightarrow>
              (case client_put X (taped_conns X clock) ''probe.bin'' (held (as_bytes ''keyed'')) client of
                 Some (Inr _, client) \<Rightarrow>
                   (case server_serve X C V clock (stream (t_channels client)) host [] (keyed L ''party'' auth) of
                      Some (Inr served) \<Rightarrow> auth_fingerprint (served_who served) = Some expected
                    | _ \<Rightarrow> False)
               | _ \<Rightarrow> False)
          | _ \<Rightarrow> False))"

section \<open>A pool that keeps nothing yet\<close>

text \<open>It opens a connection, and what comes of the action on it is what comes of the exchange.\<close>

definition keeps_nothing :: "('w, 'c, 'pool, 'a) exchange \<Rightarrow> 'pool \<Rightarrow> 'w \<Rightarrow> bool" where
  "keeps_nothing exch pool w \<longleftrightarrow> (\<forall>k opener act.
     (\<forall>e w'. opener w = Some (Inl e, w') \<longrightarrow> (\<exists>v. exch pool k opener act w = Some (Inl e, v)))
     \<and> (\<forall>l w' r l'. opener w = Some (Inr l, w') \<and> act l = Some (r, l') \<longrightarrow> (\<exists>v. exch pool k opener act w = Some (r, v))))"

lemma keeps_nothingD:
  assumes "keeps_nothing exch pool w"
  shows "opener w = Some (Inl e, w') \<Longrightarrow> \<exists>v. exch pool k opener act w = Some (Inl e, v)"
    "opener w = Some (Inr l, w') \<Longrightarrow> act l = Some (r, l') \<Longrightarrow> \<exists>v. exch pool k opener act w = Some (r, v)"
  using assms unfolding keeps_nothing_def by blast+

lemma pool_keeps_nothing: "keeps_nothing pool_exchange () (\<lambda>_. None)"
  by (auto simp: keeps_nothing_def pool_exchange_def)

lemma send_cannot_connect:
  assumes "keeps_nothing exch (clients T) w" "resolve E T target = (address, given)" "file_name E out given address = Inr name"
    "transport_connect E S T address w = Some (Inl e, w')"
  shows "\<exists>v. send_from exch X C pieces_of E S T target out w = Some (Inl e, v)"
proof -
  have "opening_line E S T address w = Some (Inl e, w')" using assms(4) by (simp add: opening_line_def)
  then show ?thesis using keeps_nothingD(1) [OF assms(1)] assms(2,3) by (simp add: send_from_def lift_act_def)
qed

lemma send_connects:
  assumes "keeps_nothing exch (clients T) w" "resolve E T target = (address, given)" "file_name E out given address = Inr name"
    "transport_connect E S T address w = Some (Inr c, w')" "client_put X C name (pieces_of out) c = Some (Inr (), c')"
  shows "\<exists>v. send_from exch X C pieces_of E S T target out w = Some (Inr (), v)"
proof -
  have "opening_line E S T address w = Some (Inr (Here c), w')" using assms(4) by (simp add: opening_line_def connection_new_def)
  moreover have "connection_with (client_put X C name (pieces_of out)) (Here c) = Some (Inr (), Here c')"
    using assms(5) by (simp add: connection_with_def)
  ultimately show ?thesis using keeps_nothingD(2) [OF assms(1)] assms(2,3) by (simp add: send_from_def lift_act_def)
qed

section \<open>The tests pass\<close>

text \<open>
  A connection that reaches the server, and its handshake: what comes of the handshake is what
  comes of the connection.
\<close>

definition reaches :: "('w, 'stream, 'c, 'pub, 'key, 'pins) ssh \<Rightarrow> string \<Rightarrow> duration option \<Rightarrow> 'w \<Rightarrow> 'c \<Rightarrow> 'w \<Rightarrow> bool" where
  "reaches S address within w c w' \<longleftrightarrow> (\<exists>stream wa wb. connect_tcp S address within w = Some (Inr stream, wa)
     \<and> settle S stream within wa = Some (Inr (), wb) \<and> conn_new S stream wb = Some (Inr c, w'))"

lemma connect_reached:
  assumes "reaches S address within w c w'"
  shows "connect S address u cred (within, held_pins) w =
    map_option (\<lambda>(r, (conn, w)). (rbind r (\<lambda>_. Inr conn), w)) (handshake S address u cred held_pins (c, w'))"
  using assms by (auto simp: reaches_def connect_def)

lemma handshake_turned_down:
  assumes "key_exchange S c = Some (Inr (fp, sid), c1)" "pins_hold S held_pins (''sftp://'' @ address) fp w = Some (Inr (), w')"
    "request_service S c1 = Some (Inr (), c2)" "authenticate S u cred sid c2 = Some (Inl e, c3)"
  shows "handshake S address u cred held_pins (c, w) = Some (Inl e, (c3, w'))"
  using assms by (simp add: handshake_split)

lemma key_turned_down:
  assumes "reaches S address (Some 5) w c wc" "key_exchange S c = Some (Inr (fp, sid), c1)"
    "pins_hold S in_memory (''sftp://'' @ address) fp wc = Some (Inr (), w')" "request_service S c1 = Some (Inr (), c2)"
    "auth_public_key S ''payroll'' auth sid c2 = Some (Inl refused, c3)" "contains ''turned'' (message refused)"
    "accept_conn V stream = Inr d" "server_login V host (keyed L ''orders'' auth) d = Some (Inl e, d')"
  shows "a_key_that_signs_for_a_user_it_is_not_enrolled_for_is_turned_down X clock S C V L host auth address stream in_memory w"
proof -
  have "authenticate S ''payroll'' (Some (PublicKey auth)) sid c2 = Some (Inl refused, c3)" using assms(5) by (simp add: authenticate_def)
  from handshake_turned_down [OF assms(2-4) this]
  have "connect S address ''payroll'' (Some (PublicKey auth)) (Some 5, in_memory) w = Some (Inl refused, w')"
    by (simp add: connect_reached [OF assms(1)])
  moreover have "server_serve X C V clock stream host [] (keyed L ''orders'' auth) = Some (Inl e)"
    using assms(7,8) by (simp add: server_serve_def serve_channels_def serve_directory_def serve_chosen_def beside_def bind_act_def)
  ultimately show ?thesis using assms(6)
    by (simp add: a_key_that_signs_for_a_user_it_is_not_enrolled_for_is_turned_down_def)
qed

context limits
begin

text \<open>A put over the connection of a test's near end, to a directory of no files.\<close>

lemma put_over_blank:
  assumes "name_ok n" "length body \<le> MAX_BODY X"
  shows "\<exists>c'. client_put X (taped_conns X clock) n (held body) (blank (directory_new [])) = Some (Inr (), c')"
  using taped_put [OF limits_axioms idle_blank empty_directory assms(1) streams_held assms(2)] by metis

lemma held_to_its_key:
  fixes E :: "('key, bytes) surroundings" and S :: "('w, 'stream, taped, 'pub, 'key, 'pins) ssh" and process :: 'claiming
  assumes "under E SCHEMES ''first.edi'' = None" "under E SCHEMES ''second.edi'' = None" "under E SCHEMES address = None"
    "\<And>b n a. file_name E b n a = Inr n" "6 \<le> MAX_BODY X"
    "keeps_nothing exch (pool1 :: 'pool) w1" "transport_connect E S (pinned_by pins1 (timing_out_after 5 (near pins1 pool1 process secret address))) address w1 =
      Some (Inr (blank (directory_new [])), v1)"
    "pins_hold S elsewhere (''sftp://'' @ address) ''SHA256:another'' w2 = Some (Inr (), w3)" "keeps_nothing exch pool2 w3"
    "reaches S address (Some 5) w3 c w4" "key_exchange S c = Some (Inr (fp, sid), c1)"
    "pins_hold S elsewhere (''sftp://'' @ address) fp w4 = Some (Inl (PermanentError m), w5)" "contains ''SHA256:another'' m"
  shows "a_server_is_held_to_the_host_key_it_presented_first_and_refused_another exch X clock E S process secret address
    pins1 pool1 w1 elsewhere pool2 w2"
proof -
  let ?made = "\<lambda>held_pins pool. pinned_by held_pins (timing_out_after 5 (near held_pins pool process secret address))
    :: ('w, 'key, 'pins, 'pool, 'claiming) SftpTransport"
  have made: "clients (?made p q) = q" "authority E (?made p q) = address" "secured (?made p q) = None" "timeout (?made p q) = Some 5"
    "pins (?made p q) = p" for p q
    using assms(3) by (simp_all add: pinned_by_def timing_out_after_def near_def with_password_def as_user_def transport_new_def authority_def)
  have res: "resolve E (?made p q) ''first.edi'' = (address, ''first.edi'')" "resolve E (?made p q) ''second.edi'' = (address, ''second.edi'')" for p q
    using assms(1,2) made(2) by (simp_all add: resolve_def)
  have "name_ok ''first.edi''" by (simp add: name_ok_def rust_str_ascii)
  then obtain c' where "client_put X (taped_conns X clock) ''first.edi'' (held (as_bytes ''pinned'')) (blank (directory_new [])) = Some (Inr (), c')"
    using put_over_blank [of "''first.edi''" "as_bytes ''pinned''"] assms(5) by fastforce
  then have "\<exists>v. send_from exch X (taped_conns X clock) held E S (?made pins1 pool1) ''first.edi'' (as_bytes ''pinned'') w1 = Some (Inr (), v)"
    using assms(4,6,7) made(1) res by (intro send_connects) auto
  moreover have "transport_connect E S (?made elsewhere pool2) address w3 = Some (Inl (PermanentError m), w5)"
    using handshake_unpinned [OF assms(11,12)]
    by (simp add: transport_connect_def presented_def made connect_reached [OF assms(10)])
  then have "\<exists>v. send_from exch X (taped_conns X clock) held E S (?made elsewhere pool2) ''second.edi'' (as_bytes ''refused'') w3 =
      Some (Inl (PermanentError m), v)"
    using assms(4,9) made(1) res by (intro send_cannot_connect) auto
  ultimately show ?thesis using assms(8,13)
    by (auto simp: a_server_is_held_to_the_host_key_it_presented_first_and_refused_another_def Let_def)
qed

text \<open>The secret is asked for before the connection: not set, nothing is connected to; a key, it is what logs in.\<close>

lemma presents_its_secret:
  fixes E :: "('key, bytes) surroundings" and S :: "('w, 'stream, taped, 'pub, 'key, 'pins) ssh" and process :: 'claiming
  assumes "under E SCHEMES ''probe.bin'' = None" "under E SCHEMES ''127.0.0.1:9'' = None" "under E SCHEMES address = None"
    "\<And>b n a. file_name E b n a = Inr n" "5 \<le> MAX_BODY X"
    "keeps_nothing exch (pool1 :: 'pool) w1" "secured_secret unset w1 = Some (Inl refused, v1)"
    "contains ([CHR 0x27] @ ''partner-x.sftp'' @ [CHR 0x27] @ '' is not set'') (message refused)"
    "keeps_nothing exch pool2 w2" "secured_secret given w2 = Some (Inr \<lparr>secret_kind = KeySecret, secret_text = pem\<rparr>, v2)"
    "private_key E pem = Inr auth" "connect S address ''party'' (Some (PublicKey auth)) (Some 5, in_memory) v2 =
      Some (Inr (blank (directory_new [])), v3)"
    "relays C V host (keyed L ''party'' auth) (who, sid) stream" "auth_fingerprint who = Some expected"
  shows "a_location_presents_the_key_its_secret_holds_and_says_one_not_set exch X clock E S C V stream L in_memory process host auth expected
    unset pool1 w1 given pool2 address w2"
proof -
  let ?first = "secured_by unset (transport_new in_memory pool1 process ''127.0.0.1:9'') :: ('w, 'key, 'pins, 'pool, 'claiming) SftpTransport"
  let ?second = "secured_by given (timing_out_after 5 (as_user ''party'' (transport_new in_memory pool2 process address)))
    :: ('w, 'key, 'pins, 'pool, 'claiming) SftpTransport"
  have first: "clients ?first = pool1" "resolve E ?first ''probe.bin'' = (''127.0.0.1:9'', ''probe.bin'')"
    using assms(1,2) by (simp_all add: secured_by_def transport_new_def resolve_def authority_def)
  have second: "clients ?second = pool2" "authority E ?second = address" "resolve E ?second ''probe.bin'' = (address, ''probe.bin'')"
    using assms(1,3) by (simp_all add: secured_by_def timing_out_after_def as_user_def transport_new_def resolve_def authority_def)
  have "transport_connect E S ?first ''127.0.0.1:9'' w1 = Some (Inl refused, v1)"
    using assms(7) by (simp add: transport_connect_def presented_def secured_by_def)
  then have a: "\<exists>v. send_from exch X (taped_conns X clock) held E S ?first ''probe.bin'' (as_bytes ''x'') w1 = Some (Inl refused, v)"
    using assms(4,6) first by (intro send_cannot_connect) auto
  have connected: "transport_connect E S ?second address w2 = Some (Inr (blank (directory_new [])), v3)"
    using assms(10-12) by (simp add: transport_connect_def presented_def presented_secret_def lift_act_def secured_by_def timing_out_after_def
        as_user_def transport_new_def)
  have "name_ok ''probe.bin''" "length (as_bytes ''keyed'') \<le> MAX_BODY X" using assms(5) by (simp_all add: name_ok_def rust_str_ascii)
  then obtain c' where c': "client_put X (taped_conns X clock) ''probe.bin'' (held (as_bytes ''keyed'')) (blank (directory_new [])) = Some (Inr (), c')"
      "server_serve X C V clock (stream (t_channels c')) host [] (keyed L ''party'' auth) =
         Some (Inr \<lparr>served_files = [(''probe.bin'', as_bytes ''keyed'')], served_who = who, served_session_id = sid\<rparr>)"
    using put_is_served [OF limits_axioms _ streams_held _ assms(13)] by metis
  have "\<exists>v. send_from exch X (taped_conns X clock) held E S ?second ''probe.bin'' (as_bytes ''keyed'') w2 = Some (Inr (), v)"
    using assms(4,9) second connected c'(1) by (intro send_connects) auto
  with a c' connected second(2) assms(8,14) show ?thesis
    by (auto simp: a_location_presents_the_key_its_secret_holds_and_says_one_not_set_def Let_def)
qed

end

end
