(* ===== verification/Scenarios_Harvest.thy ===== *)
theory Scenarios_Harvest
  imports Scenarios_Connect Harvest
begin

unbundle bit_operations_syntax

text \<open>
  The tests in which a client harvests a directory: two receives over one kept connection, the
  second's arrivals taken, and what the server is left with. The claim remembers what its
  listings found, so it is another argument at each receive: at the first it finds, at the
  second it takes what it found.
\<close>

section \<open>The tests\<close>

text \<open>\<open>Arrived::taken\<close>: the body read to its end and the arrival accepted; and what was read.\<close>

definition taken_requests :: "'v \<Rightarrow> Arrived list \<Rightarrow> 'v Request list" where
  "taken_requests accepted arrived = concat (map (\<lambda>a. let name = fetch_name (arrived_body a)
     in [Request.Read name Whole, Told name (Some accepted)]) arrived) @ finish"

definition body_of :: "string \<Rightarrow> sent list \<Rightarrow> bytes" where
  "body_of name log = concat (map (\<lambda>m. case m of Chunk n (Inr (Some c)) \<Rightarrow> if n = name then c else [] | _ \<Rightarrow> []) log)"

text \<open>The two receives, what their threads do, and the rest of the test: the arrivals, what they were sent, the connection.\<close>

definition settled_and_taken where
  "settled_and_taken exch X T E S at_claim finding claiming_them accepted w k =
     (case (transport_connect E S (at_claim finding) (authority E (at_claim finding)) w, receive_up_to exch X T (Inr ()) E S (at_claim finding) usize_max w) of
        (Some (Inr client, _), Some (Inr nothing, w)) \<Rightarrow> nothing = []
          \<and> (case harvesting X T finding usize_max [] client of
               Some (Here client, _) \<Rightarrow>
                 (case receive_up_to exch X T (Inr ()) E S (at_claim claiming_them) usize_max w of
                    Some (Inr arrived, _) \<Rightarrow>
                      (case harvesting X T claiming_them usize_max (taken_requests accepted arrived) client of
                         Some (Here client, log) \<Rightarrow> k arrived log client
                       | _ \<Rightarrow> False)
                  | _ \<Rightarrow> False)
             | _ \<Rightarrow> False)
      | _ \<Rightarrow> False)"

definition populated :: Files where
  "populated = bt_insert ''b.edi'' (as_bytes ''second'') (bt_insert ''a.edi'' (as_bytes ''first'') [])"

definition a_client_harvests_a_populated_directory_and_leaves_it_empty where
  "a_client_harvests_a_populated_directory_and_leaves_it_empty exch X clock E S C V stream L in_memory pool secret host address
       finding claiming_them accepted w =
     settled_and_taken exch X (taped_conns X clock) E S (\<lambda>claim. timing_out_after 5 (near in_memory pool claim secret address))
         finding claiming_them accepted w (\<lambda>arrived log client.
       let taken = sort_key fst (map (\<lambda>a. (arrived_origin a, body_of (fetch_name (arrived_body a)) log)) arrived)
       in case server_serve X C V clock (stream (t_channels client)) host populated (fixture_check L secret) of
            Some (Inr served) \<Rightarrow> length taken = 2 \<and> fst (taken ! 0) = ''sftp://'' @ address @ ''/a.edi''
              \<and> snd (taken ! 0) = as_bytes ''first'' \<and> snd (taken ! 1) = as_bytes ''second''
              \<and> served_files served = [] \<and> auth_fingerprint (served_who served) = None
          | _ \<Rightarrow> False)"

text \<open>Two users, each with a directory of its own; the clients connect one after another.\<close>

datatype account = DropDir | OutDir

definition account_of :: "string \<Rightarrow> account" where
  "account_of u = (if u = ''drop'' then DropDir else OutDir)"

definition dropped_directory :: Directory where
  "dropped_directory = (directory_new [])\<lparr>files := bt_insert ''edi-x12-1'' (as_bytes ''ISA'') []\<rparr>"

definition each_user_has_a_directory_and_a_file_keeps_its_name_both_ways where
  "each_user_has_a_directory_and_a_file_keeps_its_name_both_ways exch exch' X clock E S C V L either in_memory host secret address process
       pool_g w_g stream_g pool_n w_n stream_n pool_r w_r stream_r finding claiming_them accepted pool_s w_s stream_s pieces_of named =
     (let made = (\<lambda>pool claim. transport_new in_memory pool claim address);
          as = (\<lambda>u p T. timing_out_after 5 (with_password p (as_user u T)));
          check = either (only L ''drop'' secret) (only L ''out'' secret);
          sender = as ''out'' secret (made pool_s process)
      in (case receive_up_to exch X (taped_conns X (clock 0)) (Inr ()) E S (as ''drop'' ''guessed'' (made pool_g process)) usize_max w_g of
            Some (Inl refused, _) \<Rightarrow> contains ''turned'' (message refused)
          | _ \<Rightarrow> False)
       \<and> (case receive_up_to exch X (taped_conns X (clock 1)) (Inr ()) E S (timing_out_after 5 (made pool_n process)) usize_max w_n of
            Some (Inl _, _) \<Rightarrow> True
          | _ \<Rightarrow> False)
       \<and> settled_and_taken exch X (taped_conns X (clock 2)) E S (\<lambda>claim. as ''drop'' secret (made pool_r claim))
           finding claiming_them accepted w_r (\<lambda>arrived _ drop_client.
             length arrived = 1 \<and> arrived_file_name (arrived ! 0) = Some ''edi-x12-1''
             \<and> (case (send_from exch' X (taped_conns X (clock 3)) pieces_of E S sender address named w_s,
                      transport_connect E S sender (fst (resolve E sender address)) w_s) of
                  (Some (Inr _, _), Some (Inr client, _)) \<Rightarrow>
                    (case client_put X (taped_conns X (clock 3)) ''edi-x12-1'' (pieces_of named) client of
                       Some (Inr _, out_client) \<Rightarrow>
                         (case serving_streams X C V clock host account_of (Some 5, check) 0
                             [stream_g, stream_n, stream_r (t_channels drop_client), stream_s (t_channels out_client)]
                             (case_account dropped_directory (directory_new [])) of
                            Some st \<Rightarrow> bt_get (files (st OutDir)) ''edi-x12-1'' = Some (as_bytes ''ISA'') \<and> files (st DropDir) = []
                          | None \<Rightarrow> False)
                     | _ \<Rightarrow> False)
                | _ \<Rightarrow> False)))"

section \<open>What they rely on\<close>

text \<open>A pool that keeps the connection an exchange was made over, and makes the next over it.\<close>

definition keeps :: "('w, 'c, 'pool, 'a) exchange \<Rightarrow> 'pool \<Rightarrow> string \<Rightarrow> 'c Line \<Rightarrow> 'w \<Rightarrow> bool" where
  "keeps exch pool k l w \<longleftrightarrow> (\<forall>opener act x l'. act l = Some (Inr x, l') \<longrightarrow> (\<exists>v. exch pool k opener act w = Some (Inr x, v)))"

definition keeps_opened :: "('w, 'c, 'pool, 'a) exchange \<Rightarrow> 'pool \<Rightarrow> 'w \<Rightarrow> bool" where
  "keeps_opened exch pool w \<longleftrightarrow> (\<forall>k opener act l w' x l'. opener w = Some (Inr l, w') \<and> act l = Some (Inr x, l') \<longrightarrow>
     (\<exists>v. exch pool k opener act w = Some (Inr x, v) \<and> keeps exch pool k l' v))"

lemma pool_keeps_opened:
  assumes "w = (\<lambda>_. None)"
  shows "keeps_opened (pool_exchange :: (string \<Rightarrow> 'c Line option, 'c, unit, 'a) exchange) () w"
  unfolding keeps_opened_def keeps_def assms by (auto simp: pool_exchange_def bind_act_def)

text \<open>A claim that finds: it lists, and takes nothing yet. One that takes all there is of a directory.\<close>

definition finds_only :: "ext \<Rightarrow> ('c \<Rightarrow> Serving \<Rightarrow> bytes \<Rightarrow> bool) \<Rightarrow> ('c, 'v) claims \<Rightarrow> bool" where
  "finds_only X linked CL \<longleftrightarrow> (\<forall>t s most. ready X linked t s \<and> listing_size (far_end_of s) < 2 ^ 30 \<longrightarrow>
     (\<exists>t' s'. claim_take CL most t = Some (Inr [], t') \<and> ready X linked t' s' \<and> content (far_end_of s') = content (far_end_of s)))"

definition takes_all :: "ext \<Rightarrow> ('c \<Rightarrow> Serving \<Rightarrow> bytes \<Rightarrow> bool) \<Rightarrow> (string \<rightharpoonup> bytes) \<Rightarrow> ('c, 'v) claims \<Rightarrow> bool" where
  "takes_all X linked m CL \<longleftrightarrow> (\<forall>t s taken t'. ready X linked t s \<and> content (far_end_of s) = m
     \<and> claim_take CL usize_max t = Some (Inr taken, t') \<longrightarrow> set (map dropped taken) = dom m)"

section \<open>The harvests\<close>

context one_channel
begin

lemma found_harvest:
  assumes "idle c d" "dir_wf d" "dir_bounded X d"
    "listing_size (far_end_of \<lparr>dir = d, handles = [], next_handle = 0\<rparr>) < 2 ^ 30" "finds_only X linked CL"
  obtains c' d' where "harvesting X C CL most qs c = Some (Here c', [ClientBack, Listed (Inr [])])" "left c' d'" "dir_wf d'" "dir_bounded X d'"
    "bt_get (files d') = bt_get (files d)"
proof -
  obtain t s where o: "ready X linked t s" "far_end_of s = far_end_of \<lparr>dir = d, handles = [], next_handle = 0\<rparr>"
    "\<And>(work :: ('c Sftp \<times> sent list, Ended) act) p x t' s' p'. work (t, p) = Some (Inr x, (t', p')) \<Longrightarrow>
      ready X linked t' s' \<Longrightarrow> \<exists>c'. with_subsystem X C work (c, p) = Some (Inr x, (c', p')) \<and> left c' (dir s')"
    using assms(1-3) by (rule subsystem_opened) blast
  have m: "content (far_end_of s) = bt_get (files d)" by (simp add: o(2))
  have "listing_size (far_end_of s) < 2 ^ 30" using assms(4) by (simp only: o(2))
  then obtain t1 s1 where k: "claim_take CL most t = Some (Inr [], t1)" "ready X linked t1 s1" "content (far_end_of s1) = bt_get (files d)"
    using assms(5) o(1) unfolding finds_only_def m [symmetric] by blast
  have "harvest_work X (ch C) CL most qs (t, []) = Some (Inr Empty, (t1, []))" using k(1) by (simp add: harvest_work_def)
  with o(3) k(2) obtain c' where "with_subsystem X C (harvest_work X (ch C) CL most qs) (c, []) = Some (Inr Empty, (c', []))"
    "left c' (dir s1)" by blast
  moreover have "bt_get (files (dir s1)) = bt_get (files d)" using k(3) by simp
  ultimately show ?thesis using ready_dir [OF k(2)] by (intro that [of c' "dir s1"]) (auto simp: harvesting_def)
qed

end

text \<open>What a receive hears of its harvest: nothing, the client there again; or the arrivals.\<close>

lemma harvest_heard:
  assumes "harvesting X C CL most qs c = Some (Here c', Listed (Inr taken) # log)"
  obtains l where "harvest X C CL (Inr ()) origin most (Here c) = Some (Inr (harvest_arrivals origin taken), l)"
  using assms by (rule harvesting_listed) (auto simp: harvest_def harvest_result_def harvest_arrivals_def split: if_splits)

lemma harvest_heard_nothing:
  assumes "harvesting X C CL most qs c = Some (Here c', [ClientBack, Listed (Inr [])])"
  shows "harvest X C CL (Inr ()) origin most (Here c) = Some (Inr [], Here c')"
  using assms by (rule harvesting_listed) (auto simp: harvest_def harvest_result_def line_heard_def)

lemma taken_requests_arrivals:
  "taken_requests v (harvest_arrivals origin taken) = concat (map (taking v) taken) @ [Finish]"
proof -
  have "map (\<lambda>a. let name = fetch_name (arrived_body a) in [Request.Read name Whole, Told name (Some v)]) (harvest_arrivals origin taken) =
      map (\<lambda>f. [Request.Read (fetch_name f) Whole, Told (fetch_name f) (Some v)]) (map arrived_body (harvest_arrivals origin taken))"
    by (simp add: Let_def)
  also have "\<dots> = map (taking v) taken" by (simp add: harvest_arrivals_fields taking_def fetch_new_def)
  finally show ?thesis by (simp only: taken_requests_def finish_def)
qed

lemma body_of_simps [simp]:
  "body_of n [] = []" "body_of n (log @ log') = body_of n log @ body_of n log'" "body_of n (Listed r # log) = body_of n log"
  "body_of n (ClientBack # log) = body_of n log" "body_of n (Finished # log) = body_of n log"
  by (simp_all add: body_of_def)

lemma body_of_delivered:
  "body_of n (delivered m k) = (if n = claimed k then the (m (dropped k)) else [])"
proof -
  have "body_of n (sent_chunks c cs) = (if n = c then concat cs else [])" for c cs
    by (induction cs) (auto simp: body_of_def sent_chunks_def)
  then show ?thesis by (simp add: delivered_def concat_chunks_from) (simp add: body_of_def)
qed

lemma body_of_all:
  assumes "distinct (map claimed ks)" "k \<in> set ks"
  shows "body_of (claimed k) (concat (map (delivered m) ks)) = the (m (dropped k))"
  using assms
proof (induction ks)
  case (Cons j js)
  have "body_of (claimed k) (concat (map (delivered m) is)) = []" if "claimed k \<notin> claimed ` set is" for "is"
    using that by (induction "is") (auto simp: body_of_delivered)
  moreover have "claimed k \<noteq> claimed j" if "k \<noteq> j" using Cons.prems that by (auto simp: image_iff)
  ultimately show ?case using Cons by (cases "k = j") (auto simp: body_of_delivered)
qed simp

lemma populated_files: "populated = [(''a.edi'', as_bytes ''first''), (''b.edi'', as_bytes ''second'')]"
  by (simp add: populated_def)

text \<open>Claims made of the site's operations are such claims, of the test's directory.\<close>

definition finding_claims :: "ext \<Rightarrow> 'c channel \<Rightarrow> ('c, bool) claims" where
  "finding_claims X K = (site_claims X K)\<lparr>claim_take := (\<lambda>most. bind_act (site_listed X K) (\<lambda>_. return_act []))\<rparr>"

lemma site_finds:
  assumes "session X K linked"
  shows "finds_only X linked (finding_claims X K)"
  unfolding finds_only_def
proof (intro allI impI, elim conjE)
  fix t s most
  assume r: "ready X linked t s" "listing_size (far_end_of s) < 2 ^ 30"
  show "\<exists>t' s'. claim_take (finding_claims X K) most t = Some (Inr [], t') \<and> ready X linked t' s' \<and> content (far_end_of s') = content (far_end_of s)"
    by (rule session.list_returns [OF assms r]) (fastforce simp: finding_claims_def site_listed_def simp del: far_end_of_simps)
qed

lemma site_takes_all:
  assumes "session X K linked" "\<forall>n \<in> dom m. unclaimed n \<and> n \<noteq> ''.'' \<and> n \<noteq> ''..''" "card (dom m) \<le> usize_max"
    "(\<Sum>n\<in>dom m. 2 * length n + 28) < 2 ^ 30"
  shows "takes_all X linked m (site_claims X K)"
  unfolding takes_all_def
proof (intro allI impI, elim conjE)
  fix t s taken t'
  assume r: "ready X linked t s" and m: "content (far_end_of s) = m" and run: "claim_take (site_claims X K) usize_max t = Some (Inr taken, t')"
  have fin: "finite (dom m)" unfolding m [symmetric] by (simp add: bt.finite_dom_get)
  have "listing_size (far_end_of s) < 2 ^ 30" using assms(4) m by (simp add: listing_size_sum)
  from session.claim_listed_returns [OF assms(1) r this, of usize_max] obtain ns where
    "taken = taken_of usize_max m ns" "ns = filter (\<lambda>n. unclaimed n \<and> n \<noteq> ''.'' \<and> n \<noteq> ''..'') (sorted_list_of_set (dom m))"
    using run unfolding m by (auto simp: site_claims_def)
  moreover have "filter (\<lambda>n. unclaimed n \<and> n \<noteq> ''.'' \<and> n \<noteq> ''..'') (sorted_list_of_set (dom m)) = sorted_list_of_set (dom m)"
    using assms(2) fin by (simp add: filter_id_conv)
  moreover have "m (claim_name n) = None" for n using assms(2) by (metis claim_name_eq(2) domIff)
  moreover have "filter (\<lambda>n. m n \<noteq> None) (sorted_list_of_set (dom m)) = sorted_list_of_set (dom m)"
    using fin by (intro filter_True) auto
  ultimately have "taken = map (\<lambda>n. \<lparr>dropped = n, claimed = claim_name n\<rparr>) (sorted_list_of_set (dom m))"
    using fin assms(3) by (simp only: taken_of_def simp_thms) simp
  then show "set (map dropped taken) = dom m" using fin by simp
qed

lemma site_takes_populated: "session X K linked \<Longrightarrow> takes_all X linked (bt_get populated) (site_claims X K)"
  by (rule site_takes_all) (auto simp: populated_files unclaimed_def usize_max_def split: if_splits)

lemma site_takes_dropped: "session X K linked \<Longrightarrow> takes_all X linked (bt_get (files dropped_directory)) (site_claims X K)"
  by (rule site_takes_all) (auto simp: dropped_directory_def directory_new_def unclaimed_def usize_max_def split: if_splits)

lemma append_le_append: "xs @ ys \<le> xs @ zs \<longleftrightarrow> ys \<le> (zs :: 'a :: linorder list)"
  by (induction xs) auto

text \<open>Both files taken, in either order: by their origins, the first and the second.\<close>

lemma taken_sorted:
  assumes "claims_of (bt_get populated) taken" "set (map dropped taken) = dom (bt_get populated)"
  shows "sort_key fst (map (\<lambda>k. (pre @ dropped k, the (bt_get populated (dropped k)))) taken) =
    [(pre @ ''a.edi'', as_bytes ''first''), (pre @ ''b.edi'', as_bytes ''second'')]"
proof -
  let ?p = "\<lambda>n. (pre @ n, the (bt_get populated n))"
  have d: "distinct (map dropped taken)" "set (map dropped taken) = {''a.edi'', ''b.edi''}"
    using assms by (auto simp: claims_of_def populated_files split: if_splits)
  then have "length (map dropped taken) = 2" using distinct_card [OF d(1)] by simp
  then obtain x y where xy: "map dropped taken = [x, y]" by (metis (no_types) length_0_conv length_Suc_conv numeral_2_eq_2)
  have "x \<noteq> y" "{x, y} = {''a.edi'', ''b.edi''}" using d by (simp_all only: xy) auto
  then consider "x = ''a.edi''" "y = ''b.edi''" | "x = ''b.edi''" "y = ''a.edi''" by (auto simp: doubleton_eq_iff)
  moreover have "map (\<lambda>k. ?p (dropped k)) taken = [?p x, ?p y]" using arg_cong [OF xy, of "map ?p"] by (simp add: comp_def)
  ultimately show ?thesis by cases (simp_all add: populated_files append_le_append)
qed

lemma populated_directory:
  assumes "6 \<le> MAX_BODY X"
  shows "dir_wf (directory_new populated)" "dir_bounded X (directory_new populated)"
    "listing_size (far_end_of \<lparr>dir = directory_new populated, handles = [], next_handle = 0\<rparr>) < 2 ^ 30"
proof -
  have "rust_str ''a.edi''" "rust_str ''b.edi''" by (rule rust_str_ascii; simp)+
  then show "dir_wf (directory_new populated)" by (auto simp: dir_wf_def directory_new_def bt_wf_def populated_files split: if_splits)
  show "dir_bounded X (directory_new populated)" using assms by (auto simp: dir_bounded_def populated_files split: if_splits)
  show "listing_size (far_end_of \<lparr>dir = directory_new populated, handles = [], next_handle = 0\<rparr>) < 2 ^ 30"
    by (simp add: listing_size_sum) (simp add: populated_files)
qed

lemma arrivals_taken:
  "map (\<lambda>a. (arrived_origin a, body_of (fetch_name (arrived_body a)) log)) (harvest_arrivals origin taken) =
    map (\<lambda>k. (origin (dropped k), body_of (claimed k) log)) taken"
proof -
  have "map (\<lambda>a. (arrived_origin a, body_of (fetch_name (arrived_body a)) log)) (harvest_arrivals origin taken) =
      map ((\<lambda>k. (origin (dropped k), body_of (claimed k) log)) \<circ> snd) (enumerate 0 taken)"
    by (simp add: harvest_arrivals_def conn_arrival_def fetch_new_def case_prod_unfold)
  also have "\<dots> = map (\<lambda>k. (origin (dropped k), body_of (claimed k) log)) (map snd (enumerate 0 taken))" by (simp only: map_map)
  finally show ?thesis by (simp only: map_snd_enumerate)
qed

text \<open>The two harvests over the tape: nothing the first time, every file the second, and the directory then empty.\<close>

lemma two_harvests:
  assumes "limits X" "dir_wf d" "dir_bounded X d" "listing_size (far_end_of \<lparr>dir = d, handles = [], next_handle = 0\<rparr>) < 2 ^ 30"
    "bt_get (files d) n \<noteq> None" "\<And>pss. finds_only X (taped_linked X clock d pss) finding"
    "\<And>pss. accepting X (taped_conns X clock) (taped_linked X clock d pss) (taped_at X clock d pss) (taped_past X clock d pss) claiming_them accepted"
    "\<And>pss. takes_all X (taped_linked X clock d pss) (bt_get (files d)) claiming_them"
  obtains c1 taken c2 d2 ps where
    "harvesting X (taped_conns X clock) finding usize_max [] (blank d) = Some (Here c1, [ClientBack, Listed (Inr [])])"
    "harvesting X (taped_conns X clock) claiming_them usize_max (concat (map (taking accepted) taken) @ [Finish]) c1 =
       Some (Here c2, Listed (Inr taken) # concat (map (delivered (bt_get (files d))) taken) @ [ClientBack, Finished])"
    "claims_of (bt_get (files d)) taken" "set (map dropped taken) = dom (bt_get (files d))"
    "taped_past X clock d [ps] c2 d2" "files d2 = []"
proof -
  let ?m = "bt_get (files d)"
  have "taped_at X clock d [] (blank d) d" using idle_blank by (simp add: taped_at_def)
  then obtain c1 d1 where f: "harvesting X (taped_conns X clock) finding usize_max [] (blank d) = Some (Here c1, [ClientBack, Listed (Inr [])])"
      "taped_past X clock d [] c1 d1" "dir_wf d1" "dir_bounded X d1" "bt_get (files d1) = ?m"
    by (rule one_channel.found_harvest [OF taped_once [OF assms(1)] _ assms(2-4,6)])
  obtain ps where at: "taped_at X clock d [ps] c1 d1" using f(2) by (auto simp: taped_past_def taped_at_def)
  have "listing_size (far_end_of \<lparr>dir = d1, handles = [], next_handle = 0\<rparr>) < 2 ^ 30"
    using assms(4) by (simp add: listing_size_sum f(5))
  then obtain taken c2 d2 where t: "claims_of ?m taken"
      "harvesting X (taped_conns X clock) claiming_them usize_max (concat (map (taking accepted) taken) @ [Finish]) c1 =
        Some (Here c2, if taken = [] then [ClientBack, Listed (Inr [])]
          else Listed (Inr taken) # concat (map (delivered ?m) taken) @ [ClientBack, Finished])"
      "taped_past X clock d [ps] c2 d2" "dir_wf d2" "bt_get (files d2) = ?m |` (- set (map dropped taken))"
      "\<exists>t s t'. ready X (taped_linked X clock d [ps]) t s \<and> content (far_end_of s) = ?m \<and> claim_take claiming_them usize_max t = Some (Inr taken, t')"
    by (rule accepting.harvest_accepts [OF assms(7), OF at f(3,4), unfolded f(5)])
  obtain t s t' where "ready X (taped_linked X clock d [ps]) t s" "content (far_end_of s) = ?m"
      "claim_take claiming_them usize_max t = Some (Inr taken, t')"
    using t(6) by blast
  then have all: "set (map dropped taken) = dom ?m" using assms(8) [of "[ps]"] unfolding takes_all_def by metis
  have "n \<in> dom ?m" using assms(5) by blast
  then have "taken \<noteq> []" using all by (metis empty_iff list.set(1) list.simps(8))
  moreover have "bt_get (files d2) = Map.empty" using t(5) all by (auto simp: restrict_map_def fun_eq_iff)
  then have "files d2 = []" by simp
  ultimately show ?thesis using that f(1) t(1-3) all by (simp split: if_splits)
qed

section \<open>Connections turned down, and connections served\<close>

lemma receive_cannot_connect:
  assumes "keeps_nothing exch (clients T) w" "transport_connect E S T (authority E T) w = Some (Inl e, w')"
  shows "\<exists>v. receive_up_to exch X C spawned E S T most w = Some (Inl e, v)"
proof -
  have "opening_line E S T (authority E T) w = Some (Inl e, w')" using assms(2) by (simp add: opening_line_def)
  then show ?thesis using keeps_nothingD(1) [OF assms(1)] by (simp add: receive_up_to_def Let_def)
qed

lemma serving_each_turned_down:
  assumes "accept_conn V stream = Inr c" "server_login V host check c = Some (Inl e, c')"
  shows "serving_each X C V clock host of_user (within, check) stream st = Some st"
  using assms by (simp add: serving_each_def serve_chosen_def beside_def bind_act_def split: sum.splits)

lemma serving_each_relayed:
  assumes "relays C V host check (who, sid) stream" "server_settle V (stream pss) within = Inr ()" "pss \<noteq> []" "length pss \<le> usize_max"
    "serve_each X clock 0 pss (st (of_user (user who))) = (Inr (), d)"
  shows "serving_each X C V clock host of_user (within, check) (stream pss) st = Some (st(of_user (user who) := d))"
proof -
  obtain ps qss where pss: "pss = ps # qss" using assms(3) by (cases pss) auto
  obtain c0 c where c: "accept_conn V (stream pss) = Inr c0" "server_login V host check c0 = Some (Inr (who, sid), c)" "offers C c (ps # qss)"
    using assms(1) unfolding relays_def pss by meson
  have "serve_each X clock 0 (ps # take (usize_max - 1) qss) (st (of_user (user who))) = (Inr (), d)"
    using assms(4,5) by (simp add: pss)
  then show ?thesis using serve_chosen_offers [OF c, where st = st and chosen = of_user] assms(2) by (simp add: serving_each_def)
qed

lemma dropped_files: "files dropped_directory = [(''edi-x12-1'', as_bytes ''ISA'')]"
  by (simp add: dropped_directory_def directory_new_def)

lemma dropped_directory_ok:
  assumes "3 \<le> MAX_BODY X"
  shows "name_ok ''edi-x12-1''" "dir_wf dropped_directory" "dir_bounded X dropped_directory"
    "listing_size (far_end_of \<lparr>dir = dropped_directory, handles = [], next_handle = 0\<rparr>) < 2 ^ 30"
proof -
  have "rust_str ''edi-x12-1''" by (rule rust_str_ascii) simp
  then show "name_ok ''edi-x12-1''" "dir_wf dropped_directory"
    by (auto simp: name_ok_def dir_wf_def dropped_directory_def directory_new_def bt_wf_def split: if_splits)
  show "dir_bounded X dropped_directory" using assms by (auto simp: dir_bounded_def dropped_files split: if_splits)
  show "listing_size (far_end_of \<lparr>dir = dropped_directory, handles = [], next_handle = 0\<rparr>) < 2 ^ 30"
    by (simp add: listing_size_sum) (simp add: dropped_files)
qed

text \<open>One file taken, of one.\<close>

lemma one_arrival:
  assumes "claims_of [n \<mapsto> b] taken" "set (map dropped taken) = dom [n \<mapsto> b]"
  shows "length (harvest_arrivals origin taken) = 1" "arrived_file_name (harvest_arrivals origin taken ! 0) = Some n"
proof -
  have "distinct (map dropped taken)" "set (map dropped taken) = {n}" using assms by (simp_all add: claims_of_def)
  then have "map dropped taken = [n]" by (cases "map dropped taken") (auto simp: subset_singleton_iff)
  then show "length (harvest_arrivals origin taken) = 1" "arrived_file_name (harvest_arrivals origin taken ! 0) = Some n"
    by (auto simp: harvest_arrivals_def)
qed

section \<open>The tests pass\<close>

context limits
begin

lemma settles_and_takes:
  fixes E :: "('key, 'out) surroundings" and S :: "('w, 'stream, taped, 'pub, 'key, 'pins) ssh"
    and finding claiming_them :: "(taped, 'v) claims" and pool :: 'pool
    and at_claim :: "(taped, 'v) claims \<Rightarrow> ('w, 'key, 'pins, 'pool, (taped, 'v) claims) SftpTransport"
  assumes "\<And>q. clients (at_claim q) = pool \<and> authority E (at_claim q) = address \<and> claims_made (at_claim q) = q"
    "keeps_opened exch pool w" "transport_connect E S (at_claim finding) address w = Some (Inr (blank d), v)"
    "dir_wf d" "dir_bounded X d" "listing_size (far_end_of \<lparr>dir = d, handles = [], next_handle = 0\<rparr>) < 2 ^ 30"
    "bt_get (files d) n \<noteq> None" "\<And>pss. finds_only X (taped_linked X clock d pss) finding"
    "\<And>pss. accepting X (taped_conns X clock) (taped_linked X clock d pss) (taped_at X clock d pss) (taped_past X clock d pss) claiming_them accepted"
    "\<And>pss. takes_all X (taped_linked X clock d pss) (bt_get (files d)) claiming_them"
    "\<And>taken ps c2 d2. claims_of (bt_get (files d)) taken \<Longrightarrow> set (map dropped taken) = dom (bt_get (files d)) \<Longrightarrow>
       taped_past X clock d [ps] c2 d2 \<Longrightarrow> files d2 = [] \<Longrightarrow> k (harvest_arrivals (\<lambda>name. ''sftp://'' @ address @ ''/'' @ name) taken)
         (Listed (Inr taken) # concat (map (delivered (bt_get (files d))) taken) @ [ClientBack, Finished]) c2"
  shows "settled_and_taken exch X (taped_conns X clock) E S at_claim finding claiming_them accepted w k"
proof -
  let ?C = "taped_conns X clock" and ?origin = "\<lambda>name. ''sftp://'' @ address @ ''/'' @ name"
  obtain c1 taken c2 d2 ps where h:
      "harvesting X ?C finding usize_max [] (blank d) = Some (Here c1, [ClientBack, Listed (Inr [])])"
      "harvesting X ?C claiming_them usize_max (concat (map (taking accepted) taken) @ [Finish]) c1 =
         Some (Here c2, Listed (Inr taken) # concat (map (delivered (bt_get (files d))) taken) @ [ClientBack, Finished])"
      "claims_of (bt_get (files d)) taken" "set (map dropped taken) = dom (bt_get (files d))"
      "taped_past X clock d [ps] c2 d2" "files d2 = []"
    by (rule two_harvests [OF limits_axioms assms(4-10)])
  have "opening_line E S (at_claim finding) address w = Some (Inr (Here (blank d)), v)"
    using assms(3) by (simp add: opening_line_def connection_new_def)
  with harvest_heard_nothing [OF h(1), of ?origin] obtain w1 where
    w1: "receive_up_to exch X ?C (Inr ()) E S (at_claim finding) usize_max w = Some (Inr [], w1)" "keeps exch pool address (Here c1) w1"
    using assms(2) unfolding keeps_opened_def by (simp add: receive_up_to_def assms(1)) blast
  obtain l where "harvest X ?C claiming_them (Inr ()) ?origin usize_max (Here c1) = Some (Inr (harvest_arrivals ?origin taken), l)"
    by (rule harvest_heard [OF h(2)])
  then obtain w2 where w2: "receive_up_to exch X ?C (Inr ()) E S (at_claim claiming_them) usize_max w1 = Some (Inr (harvest_arrivals ?origin taken), w2)"
    using w1(2) unfolding keeps_def by (simp add: receive_up_to_def assms(1)) blast
  show ?thesis
    unfolding settled_and_taken_def
    using assms(1,3) w1(1) h(1,2) w2 assms(11) [OF h(3-6)] by (simp add: taken_requests_arrivals)
qed

lemma harvested_and_empty:
  fixes E :: "('key, 'out) surroundings" and S :: "('w, 'stream, taped, 'pub, 'key, 'pins) ssh"
    and finding claiming_them :: "(taped, 'v) claims" and pool :: 'pool
  assumes "under E SCHEMES address = None" "6 \<le> MAX_BODY X" "keeps_opened exch pool w"
    "transport_connect E S (timing_out_after 5 (near in_memory pool finding secret address)) address w =
       Some (Inr (blank (directory_new populated)), v)"
    "\<And>pss. finds_only X (taped_linked X clock (directory_new populated) pss) finding"
    "\<And>pss. accepting X (taped_conns X clock) (taped_linked X clock (directory_new populated) pss)
       (taped_at X clock (directory_new populated) pss) (taped_past X clock (directory_new populated) pss) claiming_them accepted"
    "\<And>pss. takes_all X (taped_linked X clock (directory_new populated) pss) (bt_get populated) claiming_them"
    "relays C V host (fixture_check L secret) (who, sid) stream" "auth_fingerprint who = None"
  shows "a_client_harvests_a_populated_directory_and_leaves_it_empty exch X clock E S C V stream L in_memory pool secret host address
    finding claiming_them accepted w"
  unfolding a_client_harvests_a_populated_directory_and_leaves_it_empty_def
proof (rule settles_and_takes [where at_claim = "\<lambda>claim. timing_out_after 5 (near in_memory pool claim secret address)"
      and n = "''a.edi''" and pool = pool and address = address, OF _ assms(3,4) populated_directory [OF assms(2)]])
  fix taken ps c2 d2
  let ?origin = "\<lambda>name. ''sftp://'' @ address @ ''/'' @ name" and ?m = "bt_get populated"
  let ?log = "Listed (Inr taken) # concat (map (delivered (bt_get (files (directory_new populated)))) taken) @ [ClientBack, Finished]"
  assume h: "claims_of (bt_get (files (directory_new populated))) taken" "set (map dropped taken) = dom (bt_get (files (directory_new populated)))"
    "taped_past X clock (directory_new populated) [ps] c2 d2" "files d2 = []"
  then have c: "claims_of ?m taken" "set (map dropped taken) = dom ?m" by simp_all
  have "map (\<lambda>a. (arrived_origin a, body_of (fetch_name (arrived_body a)) ?log)) (harvest_arrivals ?origin taken) =
      map (\<lambda>k. ((''sftp://'' @ address @ ''/'') @ dropped k, the (?m (dropped k)))) taken"
    using body_of_all [of taken _ ?m] c(1) by (simp add: arrivals_taken claims_of_def)
  note sorted = arg_cong [OF this, of "sort_key fst", unfolded taken_sorted [OF c]]
  have "server_serve X C V clock (stream (t_channels c2)) host populated (fixture_check L secret) =
      Some (Inr \<lparr>served_files = files d2, served_who = who, served_session_id = sid\<rparr>)"
    using tape_is_served [OF assms(8) h(3)] by (simp add: usize_max_def)
  then show "let taken = sort_key fst (map (\<lambda>a. (arrived_origin a, body_of (fetch_name (arrived_body a)) ?log)) (harvest_arrivals ?origin taken))
       in case server_serve X C V clock (stream (t_channels c2)) host populated (fixture_check L secret) of
            Some (Inr served) \<Rightarrow> length taken = 2 \<and> fst (taken ! 0) = ''sftp://'' @ address @ ''/a.edi''
              \<and> snd (taken ! 0) = as_bytes ''first'' \<and> snd (taken ! 1) = as_bytes ''second''
              \<and> served_files served = [] \<and> auth_fingerprint (served_who served) = None
          | _ \<Rightarrow> False"
    unfolding sorted Let_def using assms(9) h(4) by simp
qed (use assms(1,5-7) in \<open>simp_all add: populated_files timing_out_after_def near_def with_password_def as_user_def transport_new_def authority_def\<close>)

text \<open>The one file of the first user's directory, taken.\<close>

lemma dropped_is_taken:
  fixes E :: "('key, 'out) surroundings" and S :: "('w, 'stream, taped, 'pub, 'key, 'pins) ssh"
    and finding claiming_them :: "(taped, 'v) claims" and pool :: 'pool
    and at_claim :: "(taped, 'v) claims \<Rightarrow> ('w, 'key, 'pins, 'pool, (taped, 'v) claims) SftpTransport"
  assumes "\<And>q. clients (at_claim q) = pool \<and> authority E (at_claim q) = auth \<and> claims_made (at_claim q) = q" "3 \<le> MAX_BODY X"
    "keeps_opened exch pool w" "transport_connect E S (at_claim finding) auth w = Some (Inr (blank dropped_directory), v)"
    "\<And>pss. finds_only X (taped_linked X clock dropped_directory pss) finding"
    "\<And>pss. accepting X (taped_conns X clock) (taped_linked X clock dropped_directory pss)
       (taped_at X clock dropped_directory pss) (taped_past X clock dropped_directory pss) claiming_them accepted"
    "\<And>pss. takes_all X (taped_linked X clock dropped_directory pss) (bt_get (files dropped_directory)) claiming_them"
    "\<And>arrived log c2 ps d2. length arrived = 1 \<Longrightarrow> arrived_file_name (arrived ! 0) = Some ''edi-x12-1'' \<Longrightarrow>
      taped_past X clock dropped_directory [ps] c2 d2 \<Longrightarrow> files d2 = [] \<Longrightarrow> k arrived log c2"
  shows "settled_and_taken exch X (taped_conns X clock) E S at_claim finding claiming_them accepted w k"
proof (rule settles_and_takes [where at_claim = at_claim and n = "''edi-x12-1''" and pool = pool and address = auth,
      OF assms(1,3,4) dropped_directory_ok(2-4) [OF assms(2)] _ assms(5-7)])
  have one: "bt_get (files dropped_directory) = [''edi-x12-1'' \<mapsto> as_bytes ''ISA'']" by (auto simp: dropped_files fun_eq_iff)
  then show "bt_get (files dropped_directory) ''edi-x12-1'' \<noteq> None" by simp
  fix taken ps c2 d2
  assume "claims_of (bt_get (files dropped_directory)) taken" "set (map dropped taken) = dom (bt_get (files dropped_directory))"
    and rest: "taped_past X clock dropped_directory [ps] c2 d2" "files d2 = []"
  note arrival = one_arrival [OF this(1,2) [unfolded one]]
  show "k (harvest_arrivals (\<lambda>name. ''sftp://'' @ auth @ ''/'' @ name) taken)
      (Listed (Inr taken) # concat (map (delivered (bt_get (files dropped_directory))) taken) @ [ClientBack, Finished]) c2"
    using assms(8) [OF arrival rest] .
qed

text \<open>What the server makes of the four connections, two of them turned down.\<close>

lemma four_served:
  assumes "accept_conn V stream_g = Inr c_g" "server_login V host check c_g = Some (Inl e_g, c_g')"
    "accept_conn V stream_n = Inr c_n" "server_login V host check c_n = Some (Inl e_n, c_n')"
    "relays C V host check (who_r, sid_r) stream_r" "user who_r = ''drop''" "\<And>pss. server_settle V (stream_r pss) (Some 5) = Inr ()"
    "relays C V host check (who_s, sid_s) stream_s" "user who_s = ''out''" "\<And>pss. server_settle V (stream_s pss) (Some 5) = Inr ()"
    "taped_past X (clock 2) dropped_directory [ps] c2 d2" "files d2 = []"
    "t_channels c3 = [qs]" "taped_idle X (clock 3) (directory_new []) c3 d3" "bt_get (files d3) = [''edi-x12-1'' \<mapsto> as_bytes ''ISA'']"
  shows "\<exists>st. serving_streams X C V clock host account_of (Some 5, check) 0
      [stream_g, stream_n, stream_r (t_channels c2), stream_s (t_channels c3)] (case_account dropped_directory (directory_new [])) = Some st
    \<and> bt_get (files (st OutDir)) ''edi-x12-1'' = Some (as_bytes ''ISA'') \<and> files (st DropDir) = []"
proof -
  let ?st = "case_account dropped_directory (directory_new [])"
  have max: "2 \<le> usize_max" by (simp add: usize_max_def)
  have "serve_each X (clock 2) 0 (t_channels c2) (?st (account_of (user who_r))) = (Inr (), d2)" "t_channels c2 \<noteq> []" "length (t_channels c2) = 2"
    using assms(6,11) by (auto simp: taped_past_def taped_idle_def account_of_def)
  then have r: "serving_each X C V (clock 2) host account_of (Some 5, check) (stream_r (t_channels c2)) ?st = Some (?st(DropDir := d2))"
    using serving_each_relayed [OF assms(5,7), of "t_channels c2" X "clock 2" ?st account_of d2] max assms(6) by (simp add: account_of_def)
  have "serve_each X (clock 3) 0 (t_channels c3) ((?st(DropDir := d2)) (account_of (user who_s))) = (Inr (), d3)"
      "t_channels c3 \<noteq> []" "length (t_channels c3) = 1"
    using assms(9,13,14) by (auto simp: taped_idle_def account_of_def)
  then have s: "serving_each X C V (clock 3) host account_of (Some 5, check) (stream_s (t_channels c3)) (?st(DropDir := d2)) =
      Some (?st(DropDir := d2, OutDir := d3))"
    using serving_each_relayed [OF assms(8,10), of "t_channels c3" X "clock 3" "?st(DropDir := d2)" account_of d3] max assms(9) by (simp add: account_of_def)
  note down = serving_each_turned_down [OF assms(1,2)] serving_each_turned_down [OF assms(3,4)]
  show ?thesis using r s assms(12,15)
    by (intro exI [of _ "?st(DropDir := d2, OutDir := d3)"]) (simp add: down numeral_2_eq_2 numeral_3_eq_3)
qed

lemma each_user_served:
  fixes E :: "('key, 'out) surroundings" and S :: "('w, 'stream, taped, 'pub, 'key, 'pins) ssh" and in_memory :: 'pins
    and finding claiming_them process :: "(taped, 'v) claims" and pool_g pool_n pool_r pool_s :: 'pool
    and either :: "'check \<Rightarrow> 'check \<Rightarrow> 'check" and L :: "('check, 'key) login" and address secret :: string
  defines "made \<equiv> (\<lambda>pool claim. transport_new in_memory pool claim address)
      :: 'pool \<Rightarrow> (taped, 'v) claims \<Rightarrow> ('w, 'key, 'pins, 'pool, (taped, 'v) claims) SftpTransport"
    and "as \<equiv> (\<lambda>u p T. timing_out_after 5 (with_password p (as_user u T)))
      :: string \<Rightarrow> string \<Rightarrow> ('w, 'key, 'pins, 'pool, (taped, 'v) claims) SftpTransport \<Rightarrow> ('w, 'key, 'pins, 'pool, (taped, 'v) claims) SftpTransport"
    and "check \<equiv> either (only L ''drop'' secret) (only L ''out'' secret)"
  assumes "under E SCHEMES address = Some there" "named_authority there = auth" "3 \<le> MAX_BODY X"
    "file_name E named (last_segment (named_path there)) auth = Inr ''edi-x12-1''" "streams (pieces_of named) (as_bytes ''ISA'')"
    "keeps_nothing exch pool_g w_g" "transport_connect E S (as ''drop'' ''guessed'' (made pool_g process)) auth w_g = Some (Inl refused, v_g)"
    "contains ''turned'' (message refused)"
    "keeps_nothing exch pool_n w_n" "transport_connect E S (timing_out_after 5 (made pool_n process)) auth w_n = Some (Inl e, v_n)"
    "keeps_opened exch pool_r w_r"
    "transport_connect E S (as ''drop'' secret (made pool_r finding)) auth w_r = Some (Inr (blank dropped_directory), v_r)"
    "\<And>pss. finds_only X (taped_linked X (clock 2) dropped_directory pss) finding"
    "\<And>pss. accepting X (taped_conns X (clock 2)) (taped_linked X (clock 2) dropped_directory pss)
       (taped_at X (clock 2) dropped_directory pss) (taped_past X (clock 2) dropped_directory pss) claiming_them accepted"
    "\<And>pss. takes_all X (taped_linked X (clock 2) dropped_directory pss) (bt_get (files dropped_directory)) claiming_them"
    "keeps_nothing exch' pool_s w_s" "transport_connect E S (as ''out'' secret (made pool_s process)) auth w_s = Some (Inr (blank (directory_new [])), v_s)"
    "accept_conn V stream_g = Inr c_g" "server_login V host check c_g = Some (Inl e_g, c_g')"
    "accept_conn V stream_n = Inr c_n" "server_login V host check c_n = Some (Inl e_n, c_n')"
    "relays C V host check (who_r, sid_r) stream_r" "user who_r = ''drop''" "\<And>pss. server_settle V (stream_r pss) (Some 5) = Inr ()"
    "relays C V host check (who_s, sid_s) stream_s" "user who_s = ''out''" "\<And>pss. server_settle V (stream_s pss) (Some 5) = Inr ()"
  shows "each_user_has_a_directory_and_a_file_keeps_its_name_both_ways exch exch' X clock E S C V L either in_memory host secret address process
       pool_g w_g stream_g pool_n w_n stream_n pool_r w_r stream_r finding claiming_them accepted pool_s w_s stream_s pieces_of named"
proof -
  have T: "clients (as u p (made pool claim)) = pool" "authority E (as u p (made pool claim)) = auth" "claims_made (as u p (made pool claim)) = claim"
      "resolve E (as u p (made pool claim)) address = (auth, last_segment (named_path there))"
      "clients (timing_out_after 5 (made pool claim)) = pool" "authority E (timing_out_after 5 (made pool claim)) = auth" for u p pool claim
    using assms(4,5) by (simp_all add: as_def made_def timing_out_after_def with_password_def as_user_def transport_new_def authority_def resolve_def)
  note m = dropped_directory_ok [OF assms(6)]
  have refused: "\<exists>v. receive_up_to exch X (taped_conns X (clock 0)) (Inr ()) E S (as ''drop'' ''guessed'' (made pool_g process)) usize_max w_g =
      Some (Inl refused, v)"
    "\<exists>v. receive_up_to exch X (taped_conns X (clock 1)) (Inr ()) E S (timing_out_after 5 (made pool_n process)) usize_max w_n = Some (Inl e, v)"
    using assms(9,10,12,13) by (auto intro!: receive_cannot_connect simp: T)
  have "length (as_bytes ''ISA'') \<le> MAX_BODY X" using assms(6) by simp
  then obtain c3 d3 qs where p: "client_put X (taped_conns X (clock 3)) ''edi-x12-1'' (pieces_of named) (blank (directory_new [])) = Some (Inr (), c3)"
      "t_channels c3 = t_channels (blank (directory_new [])) @ [qs]" "taped_idle X (clock 3) (directory_new []) c3 d3"
      "bt_get (files d3) = (bt_get (files (directory_new [])))(''edi-x12-1'' \<mapsto> as_bytes ''ISA'')"
    by (rule taped_put [OF limits_axioms idle_blank empty_directory m(1) assms(8)])
  have sent: "\<exists>v. send_from exch' X (taped_conns X (clock 3)) pieces_of E S (as ''out'' secret (made pool_s process)) address named w_s = Some (Inr (), v)"
    using assms(7,19,20) p(1) by (intro send_connects) (auto simp: T)
  note taken = dropped_is_taken [where at_claim = "\<lambda>claim. as ''drop'' secret (made pool_r claim)" and auth = auth and pool = pool_r,
      OF _ assms(6,14-18)]
  have served: "\<exists>st. serving_streams X C V clock host account_of (Some 5, check) 0
      [stream_g, stream_n, stream_r (t_channels c2), stream_s (t_channels c3)] (case_account dropped_directory (directory_new [])) = Some st
    \<and> bt_get (files (st OutDir)) ''edi-x12-1'' = Some (as_bytes ''ISA'') \<and> files (st DropDir) = []"
    if "taped_past X (clock 2) dropped_directory [ps] c2 d2" "files d2 = []" for ps c2 d2
    using four_served [where clock = clock and stream_r = stream_r and stream_s = stream_s and ?c3.0 = c3 and ?d3.0 = d3 and qs = qs,
        OF assms(21-30) that] p(2-4) by simp
  show ?thesis
    unfolding each_user_has_a_directory_and_a_file_keeps_its_name_both_ways_def Let_def
  proof (intro conjI)
    show "case receive_up_to exch X (taped_conns X (clock 0)) (Inr ()) E S
        (timing_out_after 5 (with_password ''guessed'' (as_user ''drop'' (transport_new in_memory pool_g process address)))) usize_max w_g of
          Some (Inl refused, _) \<Rightarrow> contains ''turned'' (message refused) | _ \<Rightarrow> False"
      using refused(1) assms(11) by (auto simp: as_def made_def)
    show "case receive_up_to exch X (taped_conns X (clock 1)) (Inr ()) E S (timing_out_after 5 (transport_new in_memory pool_n process address)) usize_max w_n of
          Some (Inl _, _) \<Rightarrow> True | _ \<Rightarrow> False"
      using refused(2) by (auto simp: made_def)
  qed (rule taken [unfolded as_def made_def], use T in \<open>simp add: as_def made_def\<close>,
      use sent served p(1) T(4) assms(20) in \<open>fastforce simp: as_def made_def check_def\<close>)
qed

end

end
