(* ===== verification/Spec2Isabelle.thy ===== *)
theory Spec2Isabelle
  imports Racing Serving_Runs Lending Verdicts Receive Scenarios_Harvest
begin

text \<open>
  \<^bold>\<open>A verification of the SFTP transport\<close> (\<open>src/src/*.rs\<close>): the SFTP protocol, version 3, from both
  ends. A Send Location puts a file into a server's directory; a Receive Location lists a
  directory, claims files by renaming them, reads them as the runtime asks and tells a verdict
  on each; the same crate is its own far end, a server over a directory held in memory.

  \<^bold>\<open>The parts and how they meet.\<close> \<open>subsystem.rs\<close> has the wire vocabulary and the client's side of a
  session (\<open>Sftp\<close>), which writes one framed request and reads one framed reply over an SSH
  channel. \<open>directory.rs\<close> answers requests: the loop of one channel reads a frame, acts on the
  directory under its lock and writes the reply. \<open>site.rs\<close> adds to \<open>Sftp\<close> what a claim needs
  (exclusive creation, rename, stat) and offers it as \<open>SftpSite\<close>. \<open>client.rs\<close> connects, holds the
  server to its pinned key, logs in, and runs \<open>Sftp\<close> over a channel; \<open>server.rs\<close> logs a client in,
  chooses the user's directory and serves its channels in turn. \<open>connection.rs\<close> keeps a client
  and lends it to the thread of one receive, the harvest, which its arrivals ask for bodies and
  tell verdicts. \<open>lib.rs\<close> is the transport over a pool of connections, \<open>loopback.rs\<close> both ends on
  one machine, \<open>fixture.rs\<close> what the tests share.

  \<^bold>\<open>The theories\<close>, in the order they build on each other:

  \<^item> \<open>Prelude\<close>: machine integers at their width, big-endian bytes, UTF-8, decimal numerals, the
    ordered map (\<open>BTreeMap\<close>; locale \<open>ordered_map\<close>), results and state-passing actions
    (\<open>('s, 'a) act\<close>, \<open>None\<close> where a call never returns), relations kept by every step of an action
    (locale \<open>step_relation\<close>).
  \<^item> \<open>Wire\<close>: the constants, \<open>frame\<close>, \<open>code\<close>, \<open>entries\<close>, \<open>stamp\<close>, \<open>utf8\<close>, \<open>status_error\<close> of
    \<open>subsystem.rs\<close>; the locales \<open>wire\<close> and \<open>limits\<close>.
  \<^item> \<open>Directory\<close>: \<open>directory.rs\<close>, byte for byte. \<open>answer\<close> dispatches to one definition per request
    (\<open>on_open\<close> reads the body, \<open>open_named\<close> acts, and so on); the state is \<open>Serving\<close> (the
    directory, the handles, the counter); \<open>serve_loop\<close> and \<open>dir_serve\<close> are \<open>serve\<close>.
  \<^item> \<open>Directory_Spec\<close>: the abstract far end (maps of contents, times and handles) and the
    refinement. \<open>Replies\<close>: the type and the identifier of every reply, and the handles handed out.
  \<^item> \<open>Subsystem\<close>: every method of \<open>Sftp\<close> and the locale \<open>session\<close>. \<open>Site\<close>: \<open>site.rs\<close>.
  \<^item> \<open>Sharing\<close>: channels of several connections interleaved over one directory, a step relation.
    \<open>Racing\<close>: the clients of those channels, each running the claim's own operations.
    \<open>Serving_Runs\<close>: what a server does over a connection, as a run of that relation.
  \<^item> \<open>Client\<close>: \<open>client.rs\<close> and the locales \<open>one_channel\<close> and \<open>kept_connection\<close>. \<open>Server\<close>: \<open>server.rs\<close>. \<open>Tape\<close>: the
    two joined, the frames the client wrote served by the server's own loop.
  \<^item> \<open>Connection\<close>: \<open>connection.rs\<close>. A body's channel holds one message, and \<open>reader\<close> says how the body
    is read: to its end, let go, or kept without being read on, where a send never returns.
    \<open>Claims\<close>: what a claim does to the directory, and the locale \<open>moving\<close>. \<open>Lending\<close>: the two locks
    of any number of harvests against the thread that gives the client back, a step relation.
    \<open>Harvest\<close>: what arrivals ask and are answered, and a receive whose arrivals are all accepted, from
    the puts before it to what its server keeps after; the locale \<open>accepting\<close>. \<open>Verdicts\<close>: what
    the verdicts of a receive leave in the directory, and the locale \<open>judging\<close>.
  \<^item> \<open>Transport\<close>: \<open>lib.rs\<close> and the locale \<open>pooling\<close>. \<open>Receive\<close>: what a receive of the transport
    returns. \<open>Loopback\<close>: \<open>loopback.rs\<close>. \<open>Identity\<close>: what an
    arrival's origin tells of its peer, read back.
  \<^item> \<open>Scenarios\<close>, \<open>Scenarios_Connect\<close> and \<open>Scenarios_Harvest\<close>: the repository's own tests, run on the model.

  \<^bold>\<open>Code that is elsewhere\<close> is an argument, and what is relied on of it a law of a locale or a
  premise. The byte cursor, writer and size ceiling are the record \<open>ext\<close> (laws \<open>wire\<close>, \<open>limits\<close>:
  the encodings of RFC 4251, a ceiling that refuses what is over it, \<open>MAX_BODY\<close> below
  \<open>usize::MAX\<close>); a channel is \<open>'c channel\<close>, a connection \<open>'c conns\<close> (laws \<open>session\<close>,
  \<open>one_channel\<close> and \<open>kept_connection\<close>: what is written is read as one frame and answered, replies come in order, a
  channel opens onto the directory the one before left); the SSH library, sockets and pins are
  \<open>ssh\<close>, \<open>ssh_server\<close>, \<open>sockets\<close> and \<open>login\<close> (\<open>relays\<close>: an admitted client's channels are offered to the
  server); the claim is \<open>claims\<close> (laws \<open>moving\<close>, \<open>accepting\<close> and \<open>judging\<close>: a claim that, when it
  takes, changes only the files it takes; one that also settles files of earlier claims, as a
  recovering or holding one does, keeps none of them); the body sent is read by \<open>pieces\<close> (\<open>streams\<close>);
  the pool's \<open>exchange\<close> has the law of \<open>pooling\<close>; \<open>surroundings\<close>, \<open>properties\<close>, \<open>descriptions\<close> and
  \<open>setting_words\<close> hold the rest. Every locale is interpreted: \<open>ordered_map\<close> and \<open>step_relation\<close> on
  the model's own definitions, \<open>wire\<close> and \<open>limits\<close> on \<open>rfc4251\<close>, \<open>session\<close> and \<open>kept_connection\<close> on a
  connection whose other side is the modelled far end (\<open>direct\<close>), \<open>session\<close> again and
  \<open>one_channel\<close> on \<open>taped\<close>, whose frames the modelled server serves,
  \<open>moving\<close>, \<open>accepting\<close> and \<open>judging\<close> on a claim made of the site's operations (\<open>site_claims\<close>), \<open>pooling\<close> on a pool of one connection a name.

  \<^bold>\<open>What the groups of lemmas show.\<close>
  \<^item> The far end: any request, of any bytes, keeps it well formed and its files within \<open>MAX_BODY\<close>,
    panics nowhere, at a slice written or read, and changes nothing where it is an error; every reply is of a type its request
    allows and carries its identifier; every well-formed request is answered as the abstract far
    end answers it; no handle is handed out twice and times grow while their counters last.
  \<^item> The client over a session: put, list, read, rename, stat, remove and exclusive creation return,
    with the effect on the abstract far end stated; loops end.
  \<^item> Interleaving: however channels interleave, of the nodes that race for a file or a turn one is
    told it has it, and the directory stays well formed; what a server does over a
    connection is such a run, of the frames the client offered.
  \<^item> Connecting and serving: no credential before the pin is held, and a login only after it was; a connection reaches its user's
    directory only, and so do all the streams a server accepts; its channels are served in turn, at most the limit, as a reference says; what
    one end puts the other has.
  \<^item> A receive: bodies are the files in order, a body let go stops its reading, a body kept half read
    holds its whole receive; whatever the arrivals
    read and in whatever order they get their verdicts, every claimed file is told once, the client
    comes back and the end comes last; the harvest says it is finished or empty only with the client
    back, and a receive sees the line so; arrivals accepted were the files dropped, and these are gone from the server, no other, every file refused, failed or let go back under its name; the line
    says lent exactly while a thread has the client, but for the two races of \<open>Lending\<close>.
  \<^item> The transport: what a send puts where, what a receive took and returns, what is presented, a round of the loopback
    whole; the fields of an arrival's origin read back, and that a client's file name can forge them.

  \<^bold>\<open>Bounds and termination.\<close> \<open>serve_loop\<close>, \<open>list_loop\<close>, \<open>read_loop\<close> and \<open>reading_loop\<close> depend on what the
  peer sends and are \<open>partial_function (option)\<close>: \<open>None\<close> is a loop that never ends, and that they
  return is proved under the laws of the channel. Everything else is total. No fuel is used. Names
  are below 2^30 bytes (\<open>name_ok\<close>) and a listing below 2^30 bytes (\<open>listing_size\<close>), so that lengths
  fit their 32-bit fields; the length of a body is within \<open>MAX_BODY\<close>. Request identifiers, the
  handle counter and offsets are words and wrap, as a release build does; the sizes of buffers are
  \<open>nat\<close> with saturation at \<open>usize_max\<close> written out, for a 64-bit target. Strings are the bytes of
  their UTF-8 encoding, so a \<open>BTreeMap\<close>'s order is the order of bytes. The system clock is an
  argument wherever it is read.

  \<^bold>\<open>Not modelled.\<close> The crates the sources call (SSH itself, keys and signatures, the claim's policy
  of when a file is finished or refused, the pool's bookkeeping, the runtime's grouping of
  verdicts beyond the calls it makes, sockets and the accept loop): they are not in the repository
  and enter as above. Locks that are poisoned, and threads, are modelled only where the code's
  outcome depends on their order (\<open>Sharing\<close>, \<open>Lending\<close>). Of the tests, those decided by that other
  code are left out, as is the timing program \<open>tests/measured\<close>.
\<close>

section \<open>Properties that span the components\<close>

text \<open>
  C2. What a put sends, a read returns: over one session, a body put under a name, in whatever
  pieces, is what reading that name gives back, whole.
\<close>

theorem put_then_read:
  assumes "session X K linked" "ready X linked t s" "name_ok n" "streams P body" "length body \<le> MAX_BODY X"
  shows "\<exists>t1 t2 s2. sftp_put X K n P t = Some (Inr (), t1) \<and> read_small X K n t1 = Some (Inr (Some body), t2)
    \<and> ready X linked t2 s2 \<and> content (far_end_of s2) = (content (far_end_of s))(n \<mapsto> body)"
proof -
  obtain t1 s1 where p: "sftp_put X K n P t = Some (Inr (), t1)" "ready X linked t1 s1"
      "content (far_end_of s1) = (content (far_end_of s))(n \<mapsto> body)"
    by (rule session.put_stores [OF assms])
  obtain t2 s2 where "read_small X K n t1 = Some (Inr (content (far_end_of s1) n), t2)" "ready X linked t2 s2"
      "content (far_end_of s2) = content (far_end_of s1)"
    by (rule session.read_small_returns [OF assms(1) p(2) assms(3)])
  with p show ?thesis by (intro exI [of _ t1] exI [of _ t2] exI [of _ s2]) (simp del: far_end_of_simps)
qed

theorem put_then_read_witness:
  "\<exists>t1 t2 s2. sftp_put std_ext std_channel ''b'' (held [7, 8, 9]) sample_client = Some (Inr (), t1)
    \<and> read_small std_ext std_channel ''b'' t1 = Some (Inr (Some [7, 8, 9]), t2) \<and> ready std_ext direct_linked t2 s2
    \<and> content (far_end_of s2) = (content (far_end_of sample))(''b'' \<mapsto> [7, 8, 9])"
  by (rule put_then_read [OF std_session sample_ready sample_names(2) streams_held]) (simp add: rfc4251_def)

text \<open>
  C8. A turn has one holder: where nobody has it, taking it succeeds and its holder reads back as
  the claimant; taking it again, as anyone, is refused and the holder stays; dropped, it is free.
\<close>

theorem turn_has_one_holder:
  assumes "session X K linked" "ready X linked t s" "name_ok turn" "content (far_end_of s) turn = None"
    "name_ok who" "length who \<le> MAX_BODY X"
  shows "\<exists>t1 t2 t3 t4 s4. take_turn X K turn who t = Some (Inr True, t1)
    \<and> take_turn X K turn other t1 = Some (Inr False, t2) \<and> holder X K turn t2 = Some (Inr (Some who), t3)
    \<and> drop_turn X K turn who t3 = Some (Inr (), t4) \<and> ready X linked t4 s4
    \<and> content (far_end_of s4) = content (far_end_of s)"
proof -
  have who: "rust_str who" "length (as_bytes who) < 2 ^ 30" "length (as_bytes who) \<le> MAX_BODY X"
    using assms(5,6) by (simp_all add: name_ok_def)
  obtain t1 s1 where a: "create_exclusive X K turn (as_bytes who) t = Some (Inr True, t1)" "ready X linked t1 s1"
      "content (far_end_of s1) = (content (far_end_of s))(turn \<mapsto> as_bytes who)"
    by (rule session.create_exclusive_created [OF assms(1-4) who(2,3)])
  then have "content (far_end_of s1) turn \<noteq> None" by (simp del: far_end_of_simps)
  then obtain t2 s2 where b: "create_exclusive X K turn (as_bytes other) t1 = Some (Inr False, t2)" "ready X linked t2 s2"
      "far_end_of s2 = (far_end_of s1)\<lparr>issued := issued (far_end_of s1) + 1\<rparr>"
    using session.create_exclusive_refused [OF assms(1) a(2) assms(3)] by metis
  obtain t3 s3 where c: "holder X K turn t2 = Some (Inr (case content (far_end_of s2) turn of
      Some b \<Rightarrow> from_utf8 b | None \<Rightarrow> None), t3)" "ready X linked t3 s3" "content (far_end_of s3) = content (far_end_of s2)"
    by (rule session.holder_returns [OF assms(1) b(2) assms(3)])
  obtain t4 s4 where d: "site_delete X K turn t3 = Some (Inr (), t4)" "ready X linked t4 s4"
      "far_end_of s4 = (far_end_of s3)\<lparr>content := (content (far_end_of s3))(turn := None),
         mtime := (mtime (far_end_of s3))(turn := 0)\<rparr>"
    by (rule session.site_delete_returns [OF assms(1) c(2) assms(3)])
  have "content (far_end_of s2) turn = Some (as_bytes who)"
    "content (far_end_of s4) = content (far_end_of s)"
    using assms(4) by (auto simp: a(3) b(3) c(3) d(3) fun_eq_iff simp del: far_end_of_simps)
  then show ?thesis using a(1) b(1) c(1) d(1,2) who(1)
    by (intro exI [of _ t1] exI [of _ t2] exI [of _ t3] exI [of _ t4] exI [of _ s4])
      (simp add: take_turn_def drop_turn_def del: far_end_of_simps)
qed

theorem turn_has_one_holder_witness:
  "\<exists>t1 t2 t3 t4 s4. take_turn std_ext std_channel ''b'' ''a'' sample_client = Some (Inr True, t1)
    \<and> take_turn std_ext std_channel ''b'' ''c'' t1 = Some (Inr False, t2)
    \<and> holder std_ext std_channel ''b'' t2 = Some (Inr (Some ''a''), t3)
    \<and> drop_turn std_ext std_channel ''b'' ''a'' t3 = Some (Inr (), t4) \<and> ready std_ext direct_linked t4 s4
    \<and> content (far_end_of s4) = content (far_end_of sample)"
  by (rule turn_has_one_holder [OF std_session sample_ready sample_names(2) _ sample_names(1)]) (simp_all add: rfc4251_def)

text \<open>
  C4. What a send puts, a receive reads: a file sent over a connection that is here is put and
  the connection is here again; an arrival of that name read over the next channel of the same
  connection is sent exactly the body, in chunks of at most a request's worth, and its end.
\<close>

theorem sent_file_is_received:
  assumes "kept_connection X C linked idle" "idle c d" "dir_wf d" "dir_bounded X d" "name_ok n"
    "streams P body" "length body \<le> MAX_BODY X"
  shows "\<exists>c1 c2 d2 cs. connection_with (client_put X C n P) (Here c) = Some (Inr (), Here c1)
    \<and> with_subsystem X C (reading X (ch C) n Whole) (c1, []) =
        Some (Inr (), (c2, map (Chunk n) (map (Inr \<circ> Some) cs @ [Inr None])))
    \<and> concat cs = body \<and> (\<forall>x \<in> set cs. length x \<le> CHUNK) \<and> idle c2 d2 \<and> bt_get (files d2) = (bt_get (files d))(n \<mapsto> body)"
proof -
  obtain c1 d1 where p: "client_put X C n P c = Some (Inr (), c1)" "idle c1 d1" "dir_wf d1" "dir_bounded X d1"
      "bt_get (files d1) = (bt_get (files d))(n \<mapsto> body)"
    by (rule one_channel.client_put_stores [OF kept_connection.axioms [OF assms(1)] assms(2-)])
  obtain t s where o: "ready X linked t s"
    "far_end_of s = far_end_of \<lparr>dir = d1, handles = [], next_handle = 0\<rparr>"
    "\<And>(work :: ('a Sftp \<times> sent list, unit) act) q x t' s' q'. work (t, q) = Some (Inr x, (t', q')) \<Longrightarrow>
      ready X linked t' s' \<Longrightarrow> \<exists>c'. with_subsystem X C work (c1, q) = Some (Inr x, (c', q')) \<and> idle c' (dir s')"
    by (rule one_channel.subsystem_opened [OF kept_connection.axioms [OF assms(1)] p(2-4)]) blast
  have "content (far_end_of s) n = Some body" using p(5) by (simp add: o(2))
  then obtain t' s' where r: "reading X (ch C) n Whole (t, []) = Some (Inr (), (t',
      [] @ sent_chunks n (takes Whole 0 (chunks_from 0 body))
        @ (if has_room Whole (length (chunks_from 0 body)) then [Chunk n (Inr None)] else [])))"
    "ready X linked t' s'" "content (far_end_of s') = content (far_end_of s)"
    by (rule session.reading_sends [OF one_channel.axioms(1) [OF kept_connection.axioms [OF assms(1)]] o(1) assms(5), where room = Whole and log = "[]"]) simp_all
  obtain c2 where "with_subsystem X C (reading X (ch C) n Whole) (c1, []) = Some (Inr (), (c2,
      sent_chunks n (chunks_from 0 body) @ [Chunk n (Inr None)]))" "idle c2 (dir s')"
    using o(3) [where work = "reading X (ch C) n Whole", OF r(1,2)] by (auto simp: takes_def has_room_def)
  moreover have "bt_get (files (dir s')) = (bt_get (files d))(n \<mapsto> body)"
    using r(3) p(5) unfolding o(2) by simp
  ultimately show ?thesis using p(1)
    by (intro exI [of _ c1] exI [of _ c2] exI [of _ "dir s'"] exI [of _ "chunks_from 0 body"])
      (auto simp: connection_with_def sent_chunks_def concat_chunks_from dest: chunks_from_sizes)
qed

theorem sent_file_is_received_witness:
  "\<exists>c1 c2 cs. connection_with (client_put std_ext std_conns ''b'' (held [7, 8])) (Here \<lparr>d_serving = sample, d_unread = []\<rparr>) =
      Some (Inr (), Here c1)
    \<and> with_subsystem std_ext std_conns (reading std_ext (ch std_conns) ''b'' Whole) (c1, []) =
        Some (Inr (), (c2, map (Chunk ''b'') (map (Inr \<circ> Some) cs @ [Inr None]))) \<and> concat cs = [7, 8]"
proof -
  have "direct_idle \<lparr>d_serving = sample, d_unread = []\<rparr> (dir sample)" by (simp add: direct_idle_def)
  moreover have "dir_wf (dir sample)" using sample_wf by (simp add: serving_wf_def)
  moreover have "length [7 :: u8, 8] \<le> MAX_BODY std_ext" by (simp add: rfc4251_def)
  ultimately show ?thesis
    using sent_file_is_received [OF direct_kept.kept_connection_axioms _ _ sample_bounded sample_names(2) streams_held [of "[7, 8]"]]
    by blast
qed

end
